(* ===== verification/Sponge_Prelude.thy ===== *)
theory Sponge_Prelude
  imports Main "HOL-Library.Word"
begin

text \<open>
  Shared material of the development: the names of the machine types, the collections of
  rewrite rules the component theories extend, and lemmas on slices of lists, on unsigned
  64-bit subtraction and on words that several components use.
\<close>

section \<open>Machine types\<close>

type_synonym byte = "8 word"
type_synonym u8 = "8 word"
type_synonym u16 = "16 word"
type_synonym u32 = "32 word"
type_synonym u64 = "64 word"

text \<open>The C++ exceptions the code throws are values; a call that may throw returns a sum.\<close>

datatype exn = Out_Of_Range string | Runtime_Error string | Unix_Error string nat | Gai_Error string nat |
  Length_Error string | Invalid_Argument string

type_synonym 'a result = "exn + 'a"

named_theorems bs_defs "definitions of the byte stream operations"
named_theorems ra_defs "definitions of the stream reassembler operations"
named_theorems rcv_defs "definitions of the receiver operations"
named_theorems snd_defs "definitions of the sender operations"
named_theorems conn_defs "definitions of the connection operations"
named_theorems net_defs "definitions of the packet parsing and printing operations"

section \<open>Unsigned subtraction\<close>

text \<open>
  Byte counts and indices of type \<open>size_t\<close> and \<open>uint64_t\<close> are natural numbers below
  \<open>2 ^ 64\<close>. Subtraction of such values wraps around; \<open>sub64\<close> writes that out and is used
  wherever the source does not guard the subtraction.
\<close>

definition sub64 :: "nat \<Rightarrow> nat \<Rightarrow> nat" where
  "sub64 a b = (if b \<le> a then a - b else 2 ^ 64 + a - b)"

lemma sub64_le [simp]: "b \<le> a \<Longrightarrow> sub64 a b = a - b"
  by (simp add: sub64_def)

section \<open>Slices of a list\<close>

text \<open>\<open>piece i j xs\<close> holds the elements of \<open>xs\<close> at the positions from \<open>i\<close> up to, not including, \<open>j\<close>.\<close>

definition piece :: "nat \<Rightarrow> nat \<Rightarrow> 'a list \<Rightarrow> 'a list" where
  "piece i j xs = take (j - i) (drop i xs)"

lemma length_piece [simp]: "length (piece i j xs) = min (j - i) (length xs - i)"
  by (simp add: piece_def min.commute)

lemma piece_empty [simp]: "j \<le> i \<Longrightarrow> piece i j xs = []"
  by (simp add: piece_def)

lemma piece_zero [simp]: "piece 0 j xs = take j xs"
  by (simp add: piece_def)

lemma piece_append: "i \<le> j \<Longrightarrow> j \<le> k \<Longrightarrow> piece i j xs @ piece j k xs = piece i k xs"
proof -
  assume "i \<le> j" "j \<le> k"
  then have "piece i k xs = take ((j - i) + (k - j)) (drop i xs)"
    by (simp add: piece_def)
  also have "\<dots> = take (j - i) (drop i xs) @ take (k - j) (drop (j - i) (drop i xs))"
    by (rule take_add)
  also have "drop (j - i) (drop i xs) = drop j xs"
    using \<open>i \<le> j\<close> by (simp add: add.commute)
  finally show ?thesis by (simp add: piece_def)
qed

lemma take_piece [simp]: "take n (piece i j xs) = piece i (min j (i + n)) xs"
proof -
  have "min n (j - i) = min j (i + n) - i"
    by arith
  then show ?thesis
    by (simp add: piece_def)
qed

lemma drop_piece [simp]: "drop n (piece i j xs) = piece (i + n) j xs"
  by (simp add: piece_def drop_take add.commute)

lemma piece_self_drop: "piece i j xs = take (j - i) (drop i xs)"
  by (simp add: piece_def)

lemma take_piece_append: "i \<le> j \<Longrightarrow> take i xs @ piece i j xs = take j xs"
  using piece_append [of 0 i j xs] by simp

lemma piece_Nil [simp]: "piece i j [] = []"
  by (simp add: piece_def)

lemma piece_min_length: "piece i (min j (length xs)) xs = piece i j xs"
  by (cases "j \<le> length xs") (simp_all add: piece_def min_def)

lemma piece_append_left: "j \<le> length xs \<Longrightarrow> piece i j (xs @ ys) = piece i j xs"
  by (cases "i \<le> j") (auto simp: piece_def)

section \<open>Residues\<close>

lemma mod_eq_close_less:
  assumes "(a::nat) mod k = b mod k" "a \<le> b" "b < a + k"
  shows "a = b"
proof (rule ccontr)
  assume "a \<noteq> b"
  then have "0 < b - a" "b - a < k"
    using assms by auto
  moreover have "k dvd b - a"
    using assms by (metis mod_eq_dvd_iff_nat)
  ultimately show False
    by (auto dest: dvd_imp_le)
qed

lemma mod_eq_close:
  assumes "(a::nat) mod k = b mod k" "a < b + k" "b < a + k"
  shows "a = b"
  using assms mod_eq_close_less [of a k b] mod_eq_close_less [of b k a]
  by (cases "a \<le> b") auto

section \<open>Words\<close>

lemma unat_less_2pow: "unat (x :: 'a::len word) < 2 ^ LENGTH('a)"
  by (rule unsigned_less)

lemma unat_ucast_mod: "unat (ucast (w :: 'b::len word) :: 'c::len word) = unat w mod 2 ^ LENGTH('c)"
  by (simp add: unsigned_ucast_eq take_bit_eq_mod)

lemma unat_ucast_up:
  "LENGTH('b) \<le> LENGTH('c) \<Longrightarrow> unat (ucast (w :: 'b::len word) :: 'c::len word) = unat w"
proof -
  assume "LENGTH('b) \<le> LENGTH('c)"
  then have "(2::nat) ^ LENGTH('b) \<le> 2 ^ LENGTH('c)"
    by simp
  then have "unat w < 2 ^ LENGTH('c)"
    using unat_less_2pow [of w] by linarith
  then show ?thesis
    by (simp add: unat_ucast_mod)
qed

lemma unat_of_nat_u64: "n < 2 ^ 64 \<Longrightarrow> unat (of_nat n :: u64) = n"
  by (simp add: unat_of_nat)

lemma unat_of_nat_u32: "n < 2 ^ 32 \<Longrightarrow> unat (of_nat n :: u32) = n"
  by (simp add: unat_of_nat)

end
