(* ===== verification/Byte_Stream.thy ===== *)
theory Byte_Stream
  imports Sponge_Prelude
begin

text \<open>
  The flow-controlled byte stream of \<open>libsponge/byte_stream.hh\<close> and
  \<open>libsponge/byte_stream.cc\<close>: its state, every operation of the writer's and the reader's
  side, its invariant, and the interface \<open>byte_channel\<close> through which the reassembler, the
  sender and the copying loops use it.
\<close>

section \<open>The stream and its operations\<close>

record byte_stream =
  bs_que :: "byte list"
  bs_capacity :: nat
  bs_maximumcapacity :: nat
  bs_writtensize :: nat
  bs_readsize :: nat
  bs_error :: bool
  bs_end :: bool

definition byte_stream_new :: "nat \<Rightarrow> byte_stream" where
  "byte_stream_new capacity =
     \<lparr>bs_que = [], bs_capacity = capacity, bs_maximumcapacity = capacity,
      bs_writtensize = 0, bs_readsize = 0, bs_error = False, bs_end = False\<rparr>"

text \<open>\<open>write\<close> returns how many bytes it accepted; the new stream is the second component.\<close>

definition bs_write :: "byte list \<Rightarrow> byte_stream \<Rightarrow> nat \<times> byte_stream" where
  "bs_write data b =
     (let writesize = min (bs_capacity b) (length data);
          writedata = take writesize data
      in (writesize,
          b\<lparr>bs_que := bs_que b @ writedata,
            bs_capacity := bs_capacity b - writesize,
            bs_writtensize := bs_writtensize b + writesize\<rparr>))"

definition bs_peek_output :: "nat \<Rightarrow> byte_stream \<Rightarrow> byte list" where
  "bs_peek_output len b =
     (let popsize = min len (length (bs_que b)) in take popsize (bs_que b))"

definition bs_pop_output :: "nat \<Rightarrow> byte_stream \<Rightarrow> byte_stream" where
  "bs_pop_output len b =
     (let popsize = min len (length (bs_que b))
      in b\<lparr>bs_que := drop popsize (bs_que b),
           bs_capacity := bs_capacity b + popsize,
           bs_readsize := bs_readsize b + popsize\<rparr>)"

definition bs_read :: "nat \<Rightarrow> byte_stream \<Rightarrow> byte list \<times> byte_stream" where
  "bs_read len b = (bs_peek_output len b, bs_pop_output len b)"

definition bs_end_input :: "byte_stream \<Rightarrow> byte_stream" where
  "bs_end_input b = b\<lparr>bs_end := True\<rparr>"

definition bs_set_error :: "byte_stream \<Rightarrow> byte_stream" where
  "bs_set_error b = b\<lparr>bs_error := True\<rparr>"

definition bs_input_ended :: "byte_stream \<Rightarrow> bool" where
  "bs_input_ended b = bs_end b"

definition bs_buffer_size :: "byte_stream \<Rightarrow> nat" where
  "bs_buffer_size b = length (bs_que b)"

definition bs_buffer_empty :: "byte_stream \<Rightarrow> bool" where
  "bs_buffer_empty b \<longleftrightarrow> bs_capacity b = bs_maximumcapacity b"

definition bs_eof :: "byte_stream \<Rightarrow> bool" where
  "bs_eof b \<longleftrightarrow> bs_end b \<and> bs_readsize b = bs_writtensize b"

definition bs_bytes_written :: "byte_stream \<Rightarrow> nat" where
  "bs_bytes_written b = bs_writtensize b"

definition bs_bytes_read :: "byte_stream \<Rightarrow> nat" where
  "bs_bytes_read b = bs_readsize b"

definition bs_remaining_capacity :: "byte_stream \<Rightarrow> nat" where
  "bs_remaining_capacity b = bs_capacity b"

lemmas bs_op_defs [bs_defs] =
  byte_stream_new_def bs_write_def bs_peek_output_def bs_pop_output_def bs_read_def
  bs_end_input_def bs_set_error_def bs_input_ended_def bs_buffer_size_def bs_buffer_empty_def
  bs_eof_def bs_bytes_written_def bs_bytes_read_def bs_remaining_capacity_def

section \<open>The accounting invariant\<close>

text \<open>
  The queue and the remaining capacity share the maximum capacity between them, and the two
  counters differ by what the queue holds.
\<close>

definition bs_inv :: "byte_stream \<Rightarrow> bool" where
  "bs_inv b \<longleftrightarrow>
     length (bs_que b) + bs_capacity b = bs_maximumcapacity b \<and>
     bs_readsize b + length (bs_que b) = bs_writtensize b"

lemma bs_inv_new [intro, simp]: "bs_inv (byte_stream_new c)"
  by (simp add: bs_inv_def byte_stream_new_def)

lemma bs_inv_write [intro, simp]: "bs_inv b \<Longrightarrow> bs_inv (snd (bs_write data b))"
  by (auto simp: bs_inv_def bs_write_def Let_def)

lemma bs_inv_pop [intro, simp]: "bs_inv b \<Longrightarrow> bs_inv (bs_pop_output n b)"
  by (auto simp: bs_inv_def bs_pop_output_def Let_def)

lemma bs_inv_flags [intro, simp]:
  "bs_inv b \<Longrightarrow> bs_inv (bs_end_input b)"
  "bs_inv b \<Longrightarrow> bs_inv (bs_set_error b)"
  by (simp_all add: bs_inv_def bs_end_input_def bs_set_error_def)

lemma bs_write_count: "fst (bs_write data b) = min (bs_capacity b) (length data)"
  by (simp add: bs_write_def Let_def)

lemma bs_write_fields [simp]:
  "bs_que (snd (bs_write data b)) = bs_que b @ take (bs_capacity b) data"
  "bs_capacity (snd (bs_write data b)) = bs_capacity b - length data"
  "bs_maximumcapacity (snd (bs_write data b)) = bs_maximumcapacity b"
  "bs_writtensize (snd (bs_write data b)) = bs_writtensize b + min (bs_capacity b) (length data)"
  "bs_readsize (snd (bs_write data b)) = bs_readsize b"
  "bs_error (snd (bs_write data b)) = bs_error b"
  "bs_end (snd (bs_write data b)) = bs_end b"
  by (auto simp: bs_write_def Let_def min_def)

lemma bs_pop_fields [simp]:
  "bs_que (bs_pop_output n b) = drop n (bs_que b)"
  "bs_capacity (bs_pop_output n b) = bs_capacity b + min n (length (bs_que b))"
  "bs_maximumcapacity (bs_pop_output n b) = bs_maximumcapacity b"
  "bs_writtensize (bs_pop_output n b) = bs_writtensize b"
  "bs_readsize (bs_pop_output n b) = bs_readsize b + min n (length (bs_que b))"
  "bs_error (bs_pop_output n b) = bs_error b"
  "bs_end (bs_pop_output n b) = bs_end b"
  by (auto simp: bs_pop_output_def Let_def min_def)

lemma bs_flag_fields [simp]:
  "bs_que (bs_end_input b) = bs_que b" "bs_capacity (bs_end_input b) = bs_capacity b"
  "bs_maximumcapacity (bs_end_input b) = bs_maximumcapacity b"
  "bs_writtensize (bs_end_input b) = bs_writtensize b"
  "bs_readsize (bs_end_input b) = bs_readsize b" "bs_error (bs_end_input b) = bs_error b"
  "bs_end (bs_end_input b) = True"
  "bs_que (bs_set_error b) = bs_que b" "bs_capacity (bs_set_error b) = bs_capacity b"
  "bs_maximumcapacity (bs_set_error b) = bs_maximumcapacity b"
  "bs_writtensize (bs_set_error b) = bs_writtensize b"
  "bs_readsize (bs_set_error b) = bs_readsize b" "bs_error (bs_set_error b) = True"
  "bs_end (bs_set_error b) = bs_end b"
  by (simp_all add: bs_end_input_def bs_set_error_def)

lemma bs_new_fields [simp]:
  "bs_que (byte_stream_new c) = []" "bs_capacity (byte_stream_new c) = c"
  "bs_maximumcapacity (byte_stream_new c) = c" "bs_writtensize (byte_stream_new c) = 0"
  "bs_readsize (byte_stream_new c) = 0" "bs_error (byte_stream_new c) = False"
  "bs_end (byte_stream_new c) = False"
  by (simp_all add: byte_stream_new_def)

lemma bs_peek_eq [simp]: "bs_peek_output n b = take n (bs_que b)"
  by (auto simp: bs_peek_output_def Let_def min_def)

lemma bs_inv_capacity_le: "bs_inv b \<Longrightarrow> bs_capacity b \<le> bs_maximumcapacity b"
  by (auto simp: bs_inv_def)

text \<open>Under the invariant the queries that read the counters agree with the queue itself.\<close>

lemma bs_buffer_empty_iff: "bs_inv b \<Longrightarrow> bs_buffer_empty b \<longleftrightarrow> bs_que b = []"
  by (auto simp: bs_inv_def bs_buffer_empty_def)

lemma bs_eof_iff: "bs_inv b \<Longrightarrow> bs_eof b \<longleftrightarrow> bs_end b \<and> bs_que b = []"
  by (auto simp: bs_inv_def bs_eof_def)

section \<open>The interface the clients rely on\<close>

text \<open>
  A byte channel accepts what fits, hands out what it holds in order, and counts both. The
  clients reason through \<open>carries\<close>: the channel has been fed a prefix of a stream
  \<open>S\<close> and holds exactly the part of it that was written but not yet read.
\<close>

locale byte_channel =
  fixes contents :: "'q \<Rightarrow> 'a list"
    and room :: "'q \<Rightarrow> nat"
    and written :: "'q \<Rightarrow> nat"
    and readc :: "'q \<Rightarrow> nat"
    and put :: "'a list \<Rightarrow> 'q \<Rightarrow> 'q"
    and pop :: "nat \<Rightarrow> 'q \<Rightarrow> 'q"
    and invar :: "'q \<Rightarrow> bool"
  assumes contents_put: "invar q \<Longrightarrow> contents (put xs q) = contents q @ take (room q) xs"
    and contents_pop: "invar q \<Longrightarrow> contents (pop n q) = drop n (contents q)"
    and written_put: "invar q \<Longrightarrow> written (put xs q) = written q + min (room q) (length xs)"
    and written_pop: "invar q \<Longrightarrow> written (pop n q) = written q"
    and readc_put: "invar q \<Longrightarrow> readc (put xs q) = readc q"
    and readc_pop: "invar q \<Longrightarrow> readc (pop n q) = readc q + min n (length (contents q))"
    and room_put: "invar q \<Longrightarrow> room (put xs q) = room q - length xs"
    and room_pop: "invar q \<Longrightarrow> room (pop n q) = room q + min n (length (contents q))"
    and balance: "invar q \<Longrightarrow> readc q + length (contents q) = written q"
    and invar_put: "invar q \<Longrightarrow> invar (put xs q)"
    and invar_pop: "invar q \<Longrightarrow> invar (pop n q)"
begin

lemmas channel_simps = contents_put contents_pop written_put written_pop readc_put readc_pop
  room_put room_pop invar_put invar_pop

definition carries :: "'a list \<Rightarrow> 'q \<Rightarrow> bool" where
  "carries S q \<longleftrightarrow> invar q \<and> written q \<le> length S \<and> contents q = piece (readc q) (written q) S"

lemma carriesD:
  assumes "carries S q"
  shows "invar q" "written q \<le> length S" "contents q = piece (readc q) (written q) S"
    "readc q \<le> written q"
  using assms balance [of q] by (auto simp: carries_def)

lemma carries_put:
  assumes c: "carries S q" and d: "xs = piece (written q) (written q + length xs) S"
    and fits: "written q + length xs \<le> length S"
  shows "carries S (put xs q)"
proof -
  have i: "invar q" and r: "readc q \<le> written q"
    using carriesD [OF c] by auto
  let ?m = "min (room q) (length xs)"
  have "take (room q) xs = piece (written q) (written q + ?m) S"
    using d by (metis add_left_mono min.commute min_add_distrib_right take_piece)
  moreover have "contents q = piece (readc q) (written q) S"
    using carriesD [OF c] by auto
  ultimately have "contents (put xs q) = piece (readc q) (written q + ?m) S"
    using i r by (simp add: contents_put piece_append)
  then show ?thesis
    using i fits by (auto simp: carries_def channel_simps)
qed

lemma carries_pop:
  assumes c: "carries S q"
  shows "carries S (pop n q)"
proof -
  have i: "invar q" and b: "readc q + length (contents q) = written q"
    and k: "contents q = piece (readc q) (written q) S"
    using carriesD [OF c] balance by auto
  have "drop n (contents q) = piece (readc q + n) (written q) S"
    using k by simp
  also have "\<dots> = piece (readc q + min n (length (contents q))) (written q) S"
    using b by (cases "n \<le> length (contents q)") auto
  finally show ?thesis
    using c i by (simp add: carries_def channel_simps)
qed

lemma carries_front:
  assumes "carries S q"
  shows "take n (contents q) = piece (readc q) (min (written q) (readc q + n)) S"
  using carriesD(3) [OF assms] by simp

end

interpretation bsq: byte_channel bs_que bs_capacity bs_writtensize bs_readsize
  "\<lambda>xs b. snd (bs_write xs b)" bs_pop_output bs_inv
  by unfold_locales (auto simp: bs_inv_def)

abbreviation bs_carries :: "byte list \<Rightarrow> byte_stream \<Rightarrow> bool" where
  "bs_carries \<equiv> bsq.carries"

section \<open>Whole runs\<close>

text \<open>
  A run of the stream is a list of calls by its writer and its reader; it yields the bytes
  accepted by the writes, the bytes returned by the reads, and the final stream.
\<close>

datatype bs_call = Write "byte list" | Read nat | End_Input | Set_Error

fun bs_run :: "bs_call list \<Rightarrow> byte_stream \<Rightarrow> byte list \<times> byte list \<times> byte_stream" where
  "bs_run [] b = ([], [], b)"
| "bs_run (Write d # cs) b =
     (let (n, b') = bs_write d b; (acc, out, b'') = bs_run cs b' in (take n d @ acc, out, b''))"
| "bs_run (Read n # cs) b =
     (let (d, b') = bs_read n b; (acc, out, b'') = bs_run cs b' in (acc, d @ out, b''))"
| "bs_run (End_Input # cs) b = bs_run cs (bs_end_input b)"
| "bs_run (Set_Error # cs) b = bs_run cs (bs_set_error b)"

lemma bs_run_fifo:
  assumes "bs_run cs b = (acc, out, b')" and "bs_inv b"
  shows "bs_que b @ acc = out @ bs_que b' \<and> bs_inv b' \<and>
    bs_writtensize b' = bs_writtensize b + length acc \<and>
    bs_readsize b' = bs_readsize b + length out \<and> bs_maximumcapacity b' = bs_maximumcapacity b"
  using assms
proof (induction cs b arbitrary: acc out b' rule: bs_run.induct)
  case (2 d cs b)
  obtain acc1 where r: "bs_run cs (snd (bs_write d b)) = (acc1, out, b')"
    and acc: "acc = take (fst (bs_write d b)) d @ acc1"
    using "2.prems"(1) by (auto split: prod.splits)
  have "take (fst (bs_write d b)) d = take (bs_capacity b) d"
    by (simp add: bs_write_count min_def)
  then show ?case
    using "2.IH" [OF refl prod.collapse r] "2.prems"(2) acc by (auto simp: bs_write_count)
next
  case (3 n cs b)
  obtain out1 where r: "bs_run cs (bs_pop_output n b) = (acc, out1, b')"
    and out: "out = take n (bs_que b) @ out1"
    using "3.prems"(1) by (auto simp: bs_read_def split: prod.splits)
  have e: "bs_que b @ acc = take n (bs_que b) @ drop n (bs_que b) @ acc"
    by (metis append.assoc append_take_drop_id)
  show ?case
    unfolding e using "3.IH" [OF refl bs_read_def [symmetric] r] "3.prems"(2) out by auto
qed auto

text \<open>
  C23. The stream is a bounded first-in first-out queue over every run: what was accepted is
  what was read followed by what is still buffered, so every byte comes out once, in order,
  the counters are exact and the buffer never exceeds the capacity.
\<close>

theorem byte_stream_fifo:
  assumes "bs_run cs (byte_stream_new c) = (acc, out, b)"
  shows "acc = out @ bs_que b \<and> bs_bytes_written b = length acc \<and> bs_bytes_read b = length out \<and>
    bs_buffer_size b + bs_remaining_capacity b = c \<and> (bs_buffer_empty b \<longleftrightarrow> out = acc)"
proof -
  have r: "acc = out @ bs_que b" "bs_inv b" "bs_writtensize b = length acc"
    "bs_readsize b = length out" "bs_maximumcapacity b = c"
    using bs_run_fifo [OF assms] by auto
  then show ?thesis
    using bs_buffer_empty_iff [of b]
    by (auto simp: bs_inv_def bs_bytes_written_def bs_bytes_read_def bs_buffer_size_def
        bs_remaining_capacity_def)
qed

theorem byte_stream_fifo_witness:
  "[1, 2, 3] = [1, 2] @ bs_que (snd (snd (bs_run [Write [1, 2], Read 5, Write [3]] (byte_stream_new 4))))"
proof -
  have r: "bs_run [Write [1, 2], Read 5, Write [3]] (byte_stream_new 4) =
      ([1, 2, 3], [1, 2], snd (snd (bs_run [Write [1, 2], Read 5, Write [3]] (byte_stream_new 4))))"
    by (simp add: bs_op_defs)
  show ?thesis
    using byte_stream_fifo [OF r] by simp
qed

text \<open>A write accepts exactly the bytes that fit, and a read returns what a peek shows and leaves the rest.\<close>

theorem byte_stream_write_read:
  assumes "bs_inv b"
  shows "fst (bs_write d b) = min (bs_remaining_capacity b) (length d) \<and>
    bs_remaining_capacity (snd (bs_write d b)) = bs_remaining_capacity b - fst (bs_write d b) \<and>
    bs_inv (snd (bs_write d b)) \<and>
    fst (bs_read n b) @ bs_que (snd (bs_read n b)) = bs_que b \<and>
    length (fst (bs_read n b)) = min n (bs_buffer_size b) \<and> bs_inv (snd (bs_read n b))"
  using assms by (auto simp: bs_write_count bs_remaining_capacity_def bs_read_def bs_buffer_size_def)

end
