(* ===== verification/Reassembler_Insert.thy ===== *)
theory Reassembler_Insert
  imports Stream_Reassembler
begin

text \<open>
  The recursive insertion of \<open>libsponge/stream_reassembler.cc\<close>: one call adds at most one
  node, between a node that ends before it and a node that starts after it. The rule at the
  end carries any invariant of the node list and the remaining capacity through the whole
  recursion.
\<close>

section \<open>One call of the insertion\<close>

lemma insert_linklist_stop:
  "data = [] \<or> remain = 0 \<Longrightarrow> insert_linklist data index pre suf eof remain = (pre @ suf, remain)"
  by (auto simp: insert_linklist.simps)

lemma insert_linklist_empty:
  assumes "data \<noteq> []" "0 < remain" "w = min (length data) remain" "pre @ suf = []"
  shows "insert_linklist data index pre suf eof remain =
    ([mk_node (take w data) index (w = length data \<and> eof)], remain - w)"
  using assms unfolding insert_linklist.simps [of data index pre suf eof remain]
  by (simp add: Let_def)

lemma insert_linklist_head:
  assumes "data \<noteq> []" "0 < remain" "w = min (length data) remain"
    and "pre @ suf = h # hs" "index < nd_blockstart h" "v = min w (nd_blockstart h - index)"
  shows "insert_linklist data index pre suf eof remain =
    insert_linklist (drop v data) (index + v) [mk_node (take v data) index False] (pre @ suf) eof
      (remain - v)"
  using assms unfolding insert_linklist.simps [of data index pre suf eof remain]
  by (simp add: Let_def)

lemma insert_linklist_covered:
  assumes "data \<noteq> []" "0 < remain" "w = min (length data) remain"
    and "pre @ suf = h # hs" "nd_blockstart h \<le> index" "insert_scan index w suf = None"
  shows "insert_linklist data index pre suf eof remain = (pre @ suf, remain)"
  using assms unfolding insert_linklist.simps [of data index pre suf eof remain]
  by (simp add: Let_def)

lemma insert_linklist_tail:
  assumes ne: "data \<noteq> []" "0 < remain" and w: "w = min (length data) remain"
    and h: "pre @ suf = h # hs" "nd_blockstart h \<le> index"
    and sc: "insert_scan index w suf = Some (before, p, [])"
    and off: "off = nd_blockend p + 1 - index" and v: "v = min w (length data - off)"
  shows "insert_linklist data index pre suf eof remain =
    (pre @ before @ [p, mk_node (take v (drop off data)) (index + off)
       (v + off = length data \<and> eof)], remain - v)"
proof -
  have o: "(if index > nd_blockend p then 0 else nd_blockend p + 1 - index) = off"
    by (simp add: off)
  show ?thesis
    using ne h sc unfolding insert_linklist.simps [of data index pre suf eof remain]
    by (simp add: o Let_def v flip: w)
qed

lemma insert_linklist_between:
  assumes ne: "data \<noteq> []" "0 < remain" and w: "w = min (length data) remain"
    and h: "pre @ suf = h # hs" "nd_blockstart h \<le> index" and pos: "0 < index"
    and sc: "insert_scan index w suf = Some (before, p, q # qs)"
    and pq: "nd_blockend p < nd_blockstart q"
    and off: "off = nd_blockend p + 1 - index"
    and v: "v = min (min w (length data - off)) (nd_blockstart q - (index + off))"
  shows "insert_linklist data index pre suf eof remain =
    insert_linklist (drop (off + v) data) (index + (off + v))
      (pre @ before @ [p, mk_node (take v (drop off data)) (index + off) False]) (q # qs) eof
      (remain - v)"
proof -
  have iq: "index \<le> nd_blockstart q"
    using insert_scan_split [OF sc] by simp
  have o: "(if index > nd_blockend p then 0 else nd_blockend p + 1 - index) = off"
    by (simp add: off)
  have g: "sub64 (sub64 (nd_blockstart q) (max (index - Suc 0) (nd_blockend p))) (Suc 0) =
      nd_blockstart q - (index + off)"
    using iq pos pq by (simp add: off max_def)
  show ?thesis
    using ne h pos sc unfolding insert_linklist.simps [of data index pre suf eof remain]
    by (simp add: o g Let_def v add.assoc flip: w)
qed

section \<open>An invariant rule for the insertion\<close>

text \<open>
  Every call either leaves the list alone or adds one node that holds a part of the data,
  after the end of its predecessor and before the start of its successor.
\<close>

definition fits_between :: "node list \<Rightarrow> node \<Rightarrow> node list \<Rightarrow> bool" where
  "fits_between ns1 n ns2 \<longleftrightarrow>
     (ns1 \<noteq> [] \<longrightarrow> nd_blockend (last ns1) + 1 \<le> nd_blockstart n) \<and>
     (ns2 \<noteq> [] \<longrightarrow> nd_blockstart n + length (nd_data n) \<le> nd_blockstart (hd ns2))"

inductive one_insert :: "byte list \<Rightarrow> nat \<Rightarrow> bool \<Rightarrow> node list \<Rightarrow> nat \<Rightarrow> node list \<Rightarrow> nat \<Rightarrow> bool"
  for data index eof where
  "part_node data index eof n \<Longrightarrow> fits_between ns1 n ns2 \<Longrightarrow> length (nd_data n) \<le> remain \<Longrightarrow>
   0 < length (nd_data n) \<or> ns1 \<noteq> [] \<Longrightarrow>
   ns = ns1 @ ns2 \<Longrightarrow> ns' = ns1 @ n # ns2 \<Longrightarrow> remain' = remain - length (nd_data n) \<Longrightarrow>
   one_insert data index eof ns remain ns' remain'"

lemma one_insert_empty:
  assumes "data \<noteq> []" "0 < remain" "w = min (length data) remain"
  shows "one_insert data index eof [] remain
    [mk_node (take w data) index (w = length data \<and> eof)] (remain - w)"
  by (rule one_insert.intros [OF part_node_prefix [of w data "w = length data \<and> eof" eof index],
        of "[]" "[]"])
    (use assms in \<open>auto simp: fits_between_def\<close>)

lemma one_insert_head:
  assumes "data \<noteq> []" "0 < remain" "w = min (length data) remain"
    and "ns = h # hs" "index < nd_blockstart h" "v = min w (nd_blockstart h - index)"
  shows "one_insert data index eof ns remain (mk_node (take v data) index False # ns) (remain - v)"
  by (rule one_insert.intros [OF part_node_prefix [of v data False eof index], of "[]" ns])
    (use assms in \<open>auto simp: fits_between_def\<close>)

lemma one_insert_after:
  assumes "off < length data" "nd_blockend p + 1 \<le> index + off" "off + v \<le> length data" "v \<le> remain"
    and "after \<noteq> [] \<Longrightarrow> index + off + v \<le> nd_blockstart (hd after)"
    and "e \<Longrightarrow> eof \<and> off + v = length data"
  shows "one_insert data index eof (xs @ p # after) remain
    (xs @ p # mk_node (take v (drop off data)) (index + off) e # after) (remain - v)"
  by (rule one_insert.intros [OF part_nodeI [of off v data e eof "index + off" index],
        of "xs @ [p]" after])
    (use assms in \<open>auto simp: fits_between_def\<close>)

lemma insert_linklist_scan:
  assumes ne: "data \<noteq> []" "0 < remain" and w: "w = min (length data) remain"
    and h: "pre @ suf = h # hs" "nd_blockstart h \<le> index" and pos: "0 < index"
    and sc: "insert_scan index w suf = Some (before, p, after)"
    and adj: "\<And>q qs. after = q # qs \<Longrightarrow> nd_blockend p < nd_blockstart q"
  obtains (added) ns' remain' where
      "insert_linklist data index pre suf eof remain = (ns', remain')"
      "one_insert data index eof (pre @ suf) remain ns' remain'"
  | (more) k pre' suf' remain' where
      "insert_linklist data index pre suf eof remain =
         insert_linklist (drop k data) (index + k) pre' suf' eof remain'"
      "k \<le> length data" "length suf' < length suf"
      "one_insert data index eof (pre @ suf) remain (pre' @ suf') remain'"
proof -
  define off where "off = nd_blockend p + 1 - index"
  have split: "suf = before @ p # after" and pe: "nd_blockend p < index + w - 1"
    and aft: "after \<noteq> [] \<Longrightarrow> index \<le> nd_blockstart (hd after)"
    using insert_scan_split [OF sc] by auto
  have wl: "0 < w" "w \<le> length data" "w \<le> remain"
    using ne by (auto simp: w)
  have off: "off < w" "nd_blockend p + 1 \<le> index + off"
    using pe wl by (auto simp: off_def)
  show thesis
  proof (cases after)
    case Nil
    define v where "v = min w (length data - off)"
    show thesis
      using insert_linklist_tail [OF ne w h sc [unfolded Nil] off_def v_def]
        one_insert_after [of off data p index v remain "[]" "v + off = length data \<and> eof" eof "pre @ before"]
        off wl Nil split by (intro added) (auto simp: v_def)
  next
    case (Cons q qs)
    define v where "v = min (min w (length data - off)) (nd_blockstart q - (index + off))"
    have "index + off \<le> nd_blockstart q"
      using adj aft Cons by (auto simp: off_def)
    then have "index + off + v \<le> nd_blockstart q" "off + v \<le> length data" "v \<le> remain"
      using off(1) wl unfolding v_def by linarith+
    then show thesis
      using one_insert_after [of off data p index v remain after False eof "pre @ before"]
        off wl Cons split
      by (intro more [OF insert_linklist_between [OF ne w h pos sc [unfolded Cons] adj [OF Cons]
              off_def v_def]]) auto
  qed
qed

text \<open>The whole call: it stops, adds a last node, or adds one and calls itself on the rest.\<close>

lemma insert_linklist_step:
  assumes pos: "0 < index"
    and adj: "\<And>xs p q ys. pre @ suf = xs @ p # q # ys \<Longrightarrow> nd_blockend p < nd_blockstart q"
  obtains (stop) "insert_linklist data index pre suf eof remain = (pre @ suf, remain)"
  | (added) ns' remain' where
      "insert_linklist data index pre suf eof remain = (ns', remain')"
      "one_insert data index eof (pre @ suf) remain ns' remain'"
  | (more) k pre' suf' remain' where
      "insert_linklist data index pre suf eof remain =
         insert_linklist (drop k data) (index + k) pre' suf' eof remain'"
      "k \<le> length data" "data \<noteq> []" "0 < k \<or> length suf' < length suf"
      "one_insert data index eof (pre @ suf) remain (pre' @ suf') remain'"
proof (cases "data = [] \<or> remain = 0")
  case False
  define w where "w = min (length data) remain"
  from False have ne: "data \<noteq> []" "0 < remain"
    by auto
  show thesis
  proof (cases "pre @ suf")
    case Nil
    show thesis
      using one_insert_empty [OF ne w_def, of index eof] Nil
      by (intro added [OF insert_linklist_empty [OF ne w_def Nil]]) simp
  next
    case (Cons h hs)
    show thesis
    proof (cases "index < nd_blockstart h")
      case True
      define v where "v = min w (nd_blockstart h - index)"
      have "0 < v"
        using True ne by (simp add: v_def w_def)
      then show thesis
        using one_insert_head [OF ne w_def Cons True v_def] ne(1)
        by (intro more [OF insert_linklist_head [OF ne w_def Cons True v_def]])
          (simp_all add: v_def w_def)
    next
      case False
      then have le: "nd_blockstart h \<le> index" by simp
      show thesis
      proof (cases "insert_scan index w suf")
        case None
        then show thesis
          by (intro stop insert_linklist_covered [OF ne w_def Cons le])
      next
        case (Some res)
        then obtain before p after where sc: "insert_scan index w suf = Some (before, p, after)"
          by (cases res) auto
        have "nd_blockend p < nd_blockstart q" if "after = q # qs" for q qs
          using that adj [of "pre @ before" p q qs] insert_scan_split [OF sc] by simp
        then show thesis
        proof (rule insert_linklist_scan [OF ne w_def Cons le pos sc, of eof], goal_cases)
          case (3 k pre' suf' r')
          then show ?case
            by (intro more [of k pre' suf' r']) (simp_all add: ne)
        qed (simp, rule added)
      qed
    qed
  qed
qed (rule stop [OF insert_linklist_stop])

lemma insert_linklist_invariant:
  assumes adj: "\<And>xs p q ys r. Inv (xs @ p # q # ys) r \<Longrightarrow> nd_blockend p < nd_blockstart q"
    and add: "\<And>ns r ns' r'. Inv ns r \<Longrightarrow> one_insert data0 index0 eof ns r ns' r' \<Longrightarrow> Inv ns' r'"
    and start: "Inv (pre @ suf) remain" and pos: "0 < index"
    and part: "\<And>n. part_node data index eof n \<Longrightarrow> part_node data0 index0 eof n"
    and res: "insert_linklist data index pre suf eof remain = (ns', remain')"
  shows "Inv ns' remain'"
  using start pos part res
proof (induction "(length data, length suf)" arbitrary: data index pre suf remain
    rule: wf_induct_rule [OF wf_lex_prod [OF wf_less_than wf_less_than]])
  case 1
  have add': "Inv ns' r'" if "Inv ns r" "one_insert data index eof ns r ns' r'" for ns r ns' r'
    using that(2) by (cases) (auto intro!: add [OF that(1)] one_insert.intros "1.prems"(3))
  have adj': "nd_blockend p < nd_blockstart q" if "pre @ suf = xs @ p # q # ys" for xs p q ys
    using adj "1.prems"(1) that by metis
  show ?case
  proof (rule insert_linklist_step [where pre = pre and suf = suf and data = data
        and index = index and eof = eof and remain = remain], goal_cases)
    case more: (5 k pre' suf' r')
    have "((length (drop k data), length suf'), length data, length suf) \<in> less_than <*lex*> less_than"
      using more(2-4) by auto
    then show ?thesis
      using more "1.prems" by (elim "1.hyps") (auto intro: add' part_node_drop)
  qed (use "1.prems" adj' add' in auto)
qed

end
