(* ===== verification/Reassembler_Correct.thy ===== *)
theory Reassembler_Correct
  imports Reassembler_Insert
begin

text \<open>
  Correctness of the stream reassembler: pushes that tell the truth about the sender's stream
  and stay inside the advertised window reassemble a prefix of that stream, keep the stored
  nodes disjoint and account for every stored byte; a push that reaches the first missing
  byte makes progress. Concrete runs show what the code does outside the window, and with
  end marks on data that is already stored.
\<close>

section \<open>The invariant\<close>

text \<open>The nodes hold the right bytes of the stream \<open>S\<close>, and an end mark is at its end.\<close>

definition node_ok :: "byte list \<Rightarrow> node \<Rightarrow> bool" where
  "node_ok S n \<longleftrightarrow>
     nd_blockend n + 1 = nd_blockstart n + length (nd_data n) \<and>
     nd_blockend n + 1 \<le> length S \<and> piece (nd_blockstart n) (nd_blockend n + 1) S = nd_data n \<and>
     (nd_eof n \<longrightarrow> nd_blockend n + 1 = length S)"

text \<open>
  A node ends inside the window, whose right edge is \<open>lim\<close>; the byte of a zero-window probe
  is the exception.
\<close>

definition node_fits :: "nat \<Rightarrow> node \<Rightarrow> bool" where
  "node_fits lim n \<longleftrightarrow> nd_blockend n + 1 \<le> lim \<or> length (nd_data n) \<le> 1"

abbreviation nodes_apart :: "node list \<Rightarrow> bool" where
  "nodes_apart \<equiv> successively (\<lambda>a b. nd_blockend a < nd_blockstart b)"

definition stored :: "node list \<Rightarrow> nat" where
  "stored ns = sum_list (map (\<lambda>n. length (nd_data n)) ns)"

lemma stored_simps [simp]:
  "stored [] = 0" "stored (n # ns) = length (nd_data n) + stored ns"
  "stored (ns @ ms) = stored ns + stored ms"
  by (simp_all add: stored_def)

definition nodes_inv :: "byte list \<Rightarrow> nat \<Rightarrow> nat \<Rightarrow> node list \<Rightarrow> nat \<Rightarrow> bool" where
  "nodes_inv S lim cap ns remain \<longleftrightarrow>
     (\<forall>n \<in> set ns. node_ok S n \<and> node_fits lim n) \<and> nodes_apart ns \<and> remain + stored ns = cap"

text \<open>The output carries a prefix of \<open>S\<close>, ends only with all of it, and the nodes are in order.\<close>

definition parts_inv :: "byte list \<Rightarrow> nat \<Rightarrow> node list \<Rightarrow> byte_stream \<Rightarrow> nat \<Rightarrow> bool" where
  "parts_inv S cap ns out remain \<longleftrightarrow>
     bs_carries S out \<and> bs_maximumcapacity out = cap \<and>
     (bs_end out \<longrightarrow> bs_writtensize out = length S) \<and>
     nodes_inv S (bs_readsize out + cap) cap ns remain"

definition ra_inv :: "byte list \<Rightarrow> reassembler \<Rightarrow> bool" where
  "ra_inv S r \<longleftrightarrow> parts_inv S (ra_capacity r) (ra_nodes r) (ra_output r) (ra_remaincapacity r)"

text \<open>A push that is honest about \<open>S\<close> and ends inside the window (or is a one-byte probe).\<close>

definition honest :: "byte list \<Rightarrow> byte list \<Rightarrow> nat \<Rightarrow> bool \<Rightarrow> bool" where
  "honest S data index eof \<longleftrightarrow>
     index + length data \<le> length S \<and> piece index (index + length data) S = data \<and>
     (eof \<longrightarrow> index + length data = length S)"

definition in_window :: "reassembler \<Rightarrow> byte list \<Rightarrow> nat \<Rightarrow> bool" where
  "in_window r data index \<longleftrightarrow>
     index + length data \<le> bs_readsize (ra_output r) + ra_capacity r \<or> length data \<le> 1"

lemma honest_drop:
  assumes "honest S data index eof" "k \<le> length data"
  shows "honest S (drop k data) (index + k) eof"
proof -
  have "drop k (piece index (index + length data) S) = drop k data"
    using assms by (simp only: honest_def)
  then show ?thesis
    using assms by (simp add: honest_def)
qed

section \<open>Insertion\<close>

lemma part_node_ok:
  assumes h: "honest S data index eof" and p: "part_node data index eof n" and pos: "0 < index"
    and win: "index + length data \<le> lim \<or> length data \<le> 1"
  shows "node_ok S n \<and> node_fits lim n"
proof -
  obtain k l e where kl: "k + l \<le> length data" and n: "n = mk_node (take l (drop k data)) (index + k) e"
    and e: "e \<longrightarrow> eof \<and> k + l = length data"
    using p by (auto simp: part_node_def)
  have d: "take l (drop k data) = piece (index + k) (index + k + l) S"
  proof -
    have "take l (drop k data) = take l (drop k (piece index (index + length data) S))"
      using h by (simp only: honest_def)
    also have "\<dots> = piece (index + k) (min (index + length data) (index + k + l)) S"
      by (simp add: add.assoc)
    also have "min (index + length data) (index + k + l) = index + k + l"
      using kl by simp
    finally show ?thesis .
  qed
  have "length (take l (drop k data)) = l"
    using kl by simp
  then show ?thesis
    using d h e kl pos win by (auto simp: n node_ok_def node_fits_def honest_def)
qed

lemma nodes_inv_add:
  assumes i: "nodes_inv S lim cap ns r" and a: "one_insert data index eof ns r ns' r'"
    and h: "honest S data index eof" and pos: "0 < index"
    and win: "index + length data \<le> lim \<or> length data \<le> 1"
  shows "nodes_inv S lim cap ns' r'"
  using a
proof cases
  case (1 n ns1 ns2)
  have n: "node_ok S n \<and> node_fits lim n"
    by (rule part_node_ok [OF h 1(1) pos win])
  have "nodes_apart (ns1 @ ns2)"
    using i 1 by (simp add: nodes_inv_def)
  then have "nodes_apart (ns1 @ n # ns2)"
    using 1(2) n by (cases ns1 rule: rev_cases; cases ns2)
      (auto simp: fits_between_def node_ok_def successively_append_iff successively_Cons)
  then show ?thesis
    using i 1 n by (auto simp: nodes_inv_def)
qed

lemma nodes_inv_insert:
  assumes i: "nodes_inv S lim cap ns r" and h: "honest S data index eof" and pos: "0 < index \<or> r = 0"
    and win: "index + length data \<le> lim \<or> length data \<le> 1"
    and res: "insert_linklist data index [] ns eof r = (ns', r')"
  shows "nodes_inv S lim cap ns' r'"
proof (cases "r = 0")
  case True
  then show ?thesis
    using res i insert_linklist_stop [of data r index "[]" ns eof] by simp
next
  case False
  then have p: "0 < index"
    using pos by simp
  show ?thesis
  proof (rule insert_linklist_invariant [where Inv = "nodes_inv S lim cap"])
    show "nd_blockend p < nd_blockstart q" if "nodes_inv S lim cap (xs @ p # q # ys) r" for xs p q ys r
      using that by (auto simp: nodes_inv_def successively_append_iff)
    show "nodes_inv S lim cap ns' r'"
      if "nodes_inv S lim cap ns r" "one_insert data index eof ns r ns' r'" for ns r ns' r'
      using nodes_inv_add [OF that h p win] .
  qed (use i res p in auto)
qed

section \<open>Moving data to the output\<close>

lemma parts_inv_room:
  "parts_inv S cap ns out remain \<Longrightarrow>
     bs_capacity out + bs_writtensize out = bs_readsize out + cap \<and> bs_writtensize out \<le> length S"
  using bsq.carriesD [of S out] by (auto simp: parts_inv_def bs_inv_def)

lemma parts_inv_write:
  assumes i: "parts_inv S cap ns out remain" and h: "honest S d (bs_writtensize out) e"
  shows "parts_inv S cap ns (snd (bs_write d out)) remain"
proof -
  have "bs_carries S (snd (bs_write d out))"
    using i h by (intro bsq.carries_put) (auto simp: parts_inv_def honest_def)
  moreover have "bs_end out \<Longrightarrow> d = []"
    using i h by (auto simp: parts_inv_def honest_def)
  ultimately show ?thesis
    using i by (auto simp: parts_inv_def)
qed

lemma parts_inv_end:
  assumes "parts_inv S cap ns out remain" "bs_writtensize out = length S"
  shows "parts_inv S cap ns (bs_end_input out) remain"
  using assms by (auto simp: parts_inv_def bsq.carries_def)

lemma parts_inv_unlink:
  "parts_inv S cap (h # hs) out remain \<Longrightarrow> parts_inv S cap hs out (remain + length (nd_data h))"
  by (auto simp: parts_inv_def nodes_inv_def successively_Cons)

lemma node_tail_honest:
  assumes "node_ok S h" "nd_blockstart h \<le> w" "w \<le> nd_blockend h + 1"
  shows "honest S (drop (w - nd_blockstart h) (nd_data h)) w (nd_eof h)"
proof -
  have "honest S (nd_data h) (nd_blockstart h) (nd_eof h)"
    using assms(1) unfolding node_ok_def honest_def by metis
  then show ?thesis
    using honest_drop [of S "nd_data h" "nd_blockstart h" "nd_eof h" "w - nd_blockstart h"] assms
    by (simp add: node_ok_def)
qed

text \<open>
  The head node, when it reaches past what is written, always fits the output as a whole: the
  branch that splits it is never taken.
\<close>

lemma head_fits:
  assumes i: "parts_inv S cap (h # hs) out remain" and "0 < bs_capacity out"
    and "nd_blockstart h \<le> bs_writtensize out"
  shows "length (nd_data h) - (bs_writtensize out - nd_blockstart h) \<le> bs_capacity out"
  using assms parts_inv_room [OF i]
  by (auto simp: parts_inv_def nodes_inv_def node_fits_def node_ok_def)

lemma parts_inv_consume:
  assumes i: "parts_inv S cap (h # hs) out remain" and room: "0 < bs_capacity out"
    and start: "nd_blockstart h \<le> bs_writtensize out" and more: "bs_writtensize out \<le> nd_blockend h"
    and d: "d = drop (bs_writtensize out - nd_blockstart h) (nd_data h)"
    and out': "out' = (if nd_eof h then bs_end_input (snd (bs_write d out)) else snd (bs_write d out))"
  shows "parts_inv S cap hs out' (remain + length (nd_data h))" "bs_writtensize out' = nd_blockend h + 1"
    "bs_readsize out' = bs_readsize out"
proof -
  have ok: "node_ok S h"
    using i by (simp add: parts_inv_def nodes_inv_def)
  have hon: "honest S d (bs_writtensize out) (nd_eof h)"
    unfolding d using node_tail_honest [OF ok start] more by simp
  have "length d \<le> bs_capacity out"
    using head_fits [OF i room start] by (simp add: d)
  moreover have "bs_writtensize out + length d = nd_blockend h + 1"
    using ok start more by (simp add: d node_ok_def)
  ultimately have w: "bs_writtensize (snd (bs_write d out)) = nd_blockend h + 1"
    by simp
  then show "bs_writtensize out' = nd_blockend h + 1" "bs_readsize out' = bs_readsize out"
    by (simp_all add: out')
  show "parts_inv S cap hs out' (remain + length (nd_data h))"
    using parts_inv_write [OF parts_inv_unlink [OF i] hon] w ok
    by (auto simp: out' node_ok_def intro!: parts_inv_end)
qed

text \<open>The three ways an iteration of the loop goes in a state that satisfies the invariant.\<close>

lemma fetch_nodes_stop:
  "bs_capacity out = 0 \<or> bs_writtensize out < nd_blockstart h \<Longrightarrow>
     fetch_nodes (h # hs) out remain = (h # hs, out, remain)"
  by (auto simp: bs_remaining_capacity_def bs_bytes_written_def)

lemma fetch_nodes_old:
  "0 < bs_capacity out \<Longrightarrow> nd_blockstart h \<le> bs_writtensize out \<Longrightarrow>
     nd_blockend h < bs_writtensize out \<Longrightarrow>
     fetch_nodes (h # hs) out remain = fetch_nodes hs out (remain + length (nd_data h))"
  by (auto simp: bs_remaining_capacity_def bs_bytes_written_def)

lemma fetch_nodes_consume:
  assumes i: "parts_inv S cap (h # hs) out remain" and room: "0 < bs_capacity out"
    and start: "nd_blockstart h \<le> bs_writtensize out" and more: "bs_writtensize out \<le> nd_blockend h"
    and d: "d = drop (bs_writtensize out - nd_blockstart h) (nd_data h)"
    and out': "out' = (if nd_eof h then bs_end_input (snd (bs_write d out)) else snd (bs_write d out))"
  shows "fetch_nodes (h # hs) out remain = fetch_nodes hs out' (remain + length (nd_data h))"
  using head_fits [OF i room start] room start more
  by (simp add: d out' bs_remaining_capacity_def bs_bytes_written_def Let_def)

declare fetch_nodes.simps(2) [simp del]

lemma fetch_nodes_inv:
  assumes "fetch_nodes ns out remain = (ns', out', remain')" "parts_inv S cap ns out remain"
  shows "parts_inv S cap ns' out' remain' \<and> bs_readsize out' = bs_readsize out \<and>
    bs_writtensize out \<le> bs_writtensize out' \<and> (bs_end out \<longrightarrow> bs_end out') \<and>
    (ns' = [] \<or> bs_capacity out' = 0 \<or> bs_writtensize out' < nd_blockstart (hd ns'))"
  using assms
proof (induction ns arbitrary: out remain)
  case (Cons h hs)
  consider (stop) "bs_capacity out = 0 \<or> bs_writtensize out < nd_blockstart h"
    | (old) "0 < bs_capacity out" "nd_blockstart h \<le> bs_writtensize out" "nd_blockend h < bs_writtensize out"
    | (consume) "0 < bs_capacity out" "nd_blockstart h \<le> bs_writtensize out"
        "bs_writtensize out \<le> nd_blockend h"
    by linarith
  then show ?case
  proof cases
    case stop
    then show ?thesis
      using Cons.prems fetch_nodes_stop [OF stop] by auto
  next
    case old
    then show ?thesis
      using Cons.IH [OF _ parts_inv_unlink] Cons.prems by (simp add: fetch_nodes_old)
  next
    case consume
    note c = parts_inv_consume [OF Cons.prems(2) consume refl refl]
    show ?thesis
      using Cons.IH [OF _ c(1)] Cons.prems(1) c(2,3) consume(3)
      unfolding fetch_nodes_consume [OF Cons.prems(2) consume refl refl] by auto
  qed
qed auto

lemma ra_inv_fetch:
  assumes "ra_inv S r"
  shows "ra_inv S (fetch_valid_data r)"
    "bs_readsize (ra_output (fetch_valid_data r)) = bs_readsize (ra_output r)"
    "bs_writtensize (ra_output r) \<le> bs_writtensize (ra_output (fetch_valid_data r))"
    "ra_capacity (fetch_valid_data r) = ra_capacity r"
    "bs_end (ra_output r) \<Longrightarrow> bs_end (ra_output (fetch_valid_data r))"
  using fetch_nodes_inv [of "ra_nodes r" "ra_output r" "ra_remaincapacity r"] assms
  by (auto simp: ra_inv_def fetch_valid_data_def split: prod.splits)

section \<open>The public operations keep the invariant\<close>

lemma ra_inv_new: "ra_inv S (reassembler_new c)"
  by (simp add: ra_inv_def parts_inv_def nodes_inv_def reassembler_new_def bsq.carries_def)

lemma ra_inv_insert:
  assumes i: "ra_inv S r" and h: "honest S data index eof"
    and pos: "0 < index \<or> ra_remaincapacity r = 0"
    and win: "in_window r data index"
  shows "ra_inv S (insert_to_linklist data index eof r)"
    "ra_output (insert_to_linklist data index eof r) = ra_output r"
    "ra_capacity (insert_to_linklist data index eof r) = ra_capacity r"
  using assms nodes_inv_insert [OF _ h pos]
  by (auto simp: ra_inv_def parts_inv_def insert_to_linklist_def in_window_def split: prod.splits)

text \<open>What a push does before it calls \<open>fetch_valid_data\<close>.\<close>

lemma push_substring_early:
  assumes "bs_writtensize (ra_output r) < index"
  shows "push_substring data index eof r = fetch_valid_data (insert_to_linklist data index eof r)"
  using assms by (simp add: push_substring_def bs_bytes_written_def)

lemma push_substring_old:
  assumes "index + length data < bs_writtensize (ra_output r)"
  shows "push_substring data index eof r = r"
  using assms by (simp add: push_substring_def bs_bytes_written_def)

lemma push_substring_whole:
  assumes "index \<le> bs_writtensize (ra_output r)" "bs_writtensize (ra_output r) \<le> index + length data"
    and "d = drop (bs_writtensize (ra_output r) - index) data" "length d \<le> bs_capacity (ra_output r)"
    and "out = snd (bs_write d (ra_output r))"
  shows "push_substring data index eof r =
    fetch_valid_data (r\<lparr>ra_output := if eof then bs_end_input out else out\<rparr>)"
  using assms by (simp add: push_substring_def bs_bytes_written_def bs_remaining_capacity_def Let_def)

lemma push_substring_split:
  assumes "index \<le> bs_writtensize (ra_output r)" "bs_writtensize (ra_output r) \<le> index + length data"
    and "d = drop (bs_writtensize (ra_output r) - index) data" "bs_capacity (ra_output r) = c" "c < length d"
  shows "push_substring data index eof r =
    fetch_valid_data (insert_to_linklist (drop c d) (bs_writtensize (ra_output r) + c) eof
      (r\<lparr>ra_output := snd (bs_write (take c d) (ra_output r))\<rparr>))"
  using assms by (simp add: push_substring_def bs_bytes_written_def bs_remaining_capacity_def Let_def)

lemma ra_inv_room:
  assumes "ra_inv S r"
  shows "bs_capacity (ra_output r) + bs_writtensize (ra_output r) =
      bs_readsize (ra_output r) + ra_capacity r" "bs_readsize (ra_output r) \<le> bs_writtensize (ra_output r)"
    "bs_writtensize (ra_output r) \<le> length S" "ra_remaincapacity r \<le> ra_capacity r"
  using parts_inv_room [OF assms [unfolded ra_inv_def]] bsq.carriesD(4) [of S "ra_output r"] assms
  by (auto simp: ra_inv_def parts_inv_def nodes_inv_def)

lemma write_nothing [simp]: "r\<lparr>ra_output := snd (bs_write [] (ra_output r))\<rparr> = r"
  by (simp add: bs_write_def Let_def)

lemma ra_inv_probe:
  assumes i: "ra_inv S r" and win: "in_window r data index"
    and start: "index \<le> bs_writtensize (ra_output r)"
    and big: "bs_capacity (ra_output r) < length (drop (bs_writtensize (ra_output r) - index) data)"
  shows "index = bs_writtensize (ra_output r)" "length data = 1" "bs_capacity (ra_output r) = 0"
    "0 < index \<or> ra_remaincapacity r = 0"
  using assms ra_inv_room [OF i] by (auto simp: in_window_def)

lemma ra_inv_push_whole:
  assumes i: "ra_inv S r" and h: "honest S data index eof"
    and start: "index \<le> bs_writtensize (ra_output r)"
    and reach: "bs_writtensize (ra_output r) \<le> index + length data"
    and d: "d = drop (bs_writtensize (ra_output r) - index) data"
    and fits: "length d \<le> bs_capacity (ra_output r)"
    and out: "out = snd (bs_write d (ra_output r))"
    and r': "r' = r\<lparr>ra_output := if eof then bs_end_input out else out\<rparr>"
  shows "ra_inv S r'" "bs_writtensize (ra_output r') = index + length data"
    "bs_readsize (ra_output r') = bs_readsize (ra_output r)" "ra_capacity r' = ra_capacity r"
    "bs_end (ra_output r') \<longleftrightarrow> eof \<or> bs_end (ra_output r)"
proof -
  have hd: "honest S d (bs_writtensize (ra_output r)) eof"
    using honest_drop [OF h, of "bs_writtensize (ra_output r) - index"] start reach
    by (simp add: d)
  have w: "bs_writtensize out = index + length data"
    using start reach fits by (simp add: out d)
  then show "bs_writtensize (ra_output r') = index + length data"
    "bs_readsize (ra_output r') = bs_readsize (ra_output r)" "ra_capacity r' = ra_capacity r"
    "bs_end (ra_output r') \<longleftrightarrow> eof \<or> bs_end (ra_output r)"
    by (simp_all add: r' out)
  have "eof \<Longrightarrow> bs_writtensize out = length S"
    using w h by (simp add: honest_def)
  then show "ra_inv S r'"
    using parts_inv_write [OF i [unfolded ra_inv_def] hd]
    by (auto simp: r' ra_inv_def out intro: parts_inv_end)
qed

lemma push_substring_inv:
  assumes i: "ra_inv S r" and h: "honest S data index eof" and win: "in_window r data index"
    and r': "r' = push_substring data index eof r"
  shows "ra_inv S r' \<and> bs_readsize (ra_output r') = bs_readsize (ra_output r) \<and>
    ra_capacity r' = ra_capacity r \<and> bs_writtensize (ra_output r) \<le> bs_writtensize (ra_output r') \<and>
    (bs_end (ra_output r) \<longrightarrow> bs_end (ra_output r')) \<and>
    (index \<le> bs_writtensize (ra_output r) \<and> (length data \<noteq> 1 \<or> 0 < bs_capacity (ra_output r)) \<longrightarrow>
       index + length data \<le> bs_writtensize (ra_output r') \<and> (eof \<longrightarrow> bs_end (ra_output r')))"
proof -
  let ?w = "bs_writtensize (ra_output r)" and ?c = "bs_capacity (ra_output r)"
  have last: "eof \<Longrightarrow> \<not> index + length data < ?w"
    using h ra_inv_room(3) [OF i] by (auto simp: honest_def)
  consider (early) "?w < index" | (old) "index + length data < ?w"
    | (whole) "index \<le> ?w" "?w \<le> index + length data" "length (drop (?w - index) data) \<le> ?c"
    | (probe) "index \<le> ?w" "?w \<le> index + length data" "?c < length (drop (?w - index) data)"
    by linarith
  then show ?thesis
  proof cases
    case early
    note ins = ra_inv_insert [OF i h _ win]
    show ?thesis
      using ra_inv_fetch [OF ins(1)] ins(2,3) early unfolding r' push_substring_early [OF early] by auto
  next
    case old
    then show ?thesis
      using i last by (auto simp: r' push_substring_old)
  next
    case whole
    note w = ra_inv_push_whole [OF i h whole(1,2) refl whole(3) refl refl]
    show ?thesis
      using ra_inv_fetch [OF w(1)] w(2-) whole(2)
      unfolding r' push_substring_whole [OF whole(1,2) refl whole(3) refl] by auto
  next
    case probe
    note p = ra_inv_probe [OF i win probe(1,3)]
    have e: "push_substring data index eof r = fetch_valid_data (insert_to_linklist data index eof r)"
      using push_substring_split [OF probe(1,2) refl refl probe(3)] p by simp
    note ins = ra_inv_insert [OF i h p(4) win]
    show ?thesis
      using ra_inv_fetch [OF ins(1)] ins(2,3) p unfolding r' e by auto
  qed
qed

lemma ra_inv_read:
  assumes "ra_inv S r"
  shows "ra_inv S (r\<lparr>ra_output := bs_pop_output n (ra_output r)\<rparr>)"
proof -
  have "node_fits lim' m" if "node_fits lim m" "lim \<le> lim'" for lim lim' m
    using that by (auto simp: node_fits_def)
  then show ?thesis
    using assms bsq.carries_pop [of S "ra_output r" n]
    by (fastforce simp: ra_inv_def parts_inv_def nodes_inv_def)
qed

section \<open>Every run inside the window\<close>

text \<open>
  A run of the reassembler with capacity \<open>C\<close>: honest pushes inside the window in any order,
  with any overlaps and repetitions, interleaved with reads of the output. The last argument
  collects what the reads returned.
\<close>

inductive ra_reachable :: "nat \<Rightarrow> byte list \<Rightarrow> reassembler \<Rightarrow> byte list \<Rightarrow> bool" for C S where
  ra_start: "ra_reachable C S (reassembler_new C) []"
| ra_push: "ra_reachable C S r out \<Longrightarrow> honest S data index eof \<Longrightarrow> in_window r data index \<Longrightarrow>
    ra_reachable C S (push_substring data index eof r) out"
| ra_read: "ra_reachable C S r out \<Longrightarrow> bs_read n (ra_output r) = (d, b) \<Longrightarrow>
    ra_reachable C S (r\<lparr>ra_output := b\<rparr>) (out @ d)"

lemma read_extends:
  assumes c: "bs_carries S b" and r: "bs_read n b = (d, b')"
  shows "take (bs_readsize b) S @ d = take (bs_readsize b') S"
proof -
  have b': "d = take n (bs_que b)" "b' = bs_pop_output n b"
    using r by (simp_all add: bs_read_def)
  have "d = piece (bs_readsize b) (min (bs_writtensize b) (bs_readsize b + n)) S"
    unfolding b' by (rule bsq.carries_front [OF c])
  moreover have "bs_readsize b' = min (bs_writtensize b) (bs_readsize b + n)"
    using bsq.balance [OF bsq.carriesD(1) [OF c]] by (auto simp: b')
  moreover have "bs_readsize b \<le> bs_readsize b'"
    by (simp add: b')
  ultimately show ?thesis
    by (simp add: take_piece_append)
qed

lemma ra_reachable_inv:
  assumes "ra_reachable C S r out"
  shows "ra_inv S r \<and> ra_capacity r = C \<and> out = take (bs_readsize (ra_output r)) S"
  using assms
proof (induction rule: ra_reachable.induct)
  case ra_start
  then show ?case
    using ra_inv_new [of S C] by (simp add: reassembler_new_def)
next
  case (ra_push r out data index eof)
  then show ?case
    using push_substring_inv [of S r data index eof] by auto
next
  case (ra_read r out n d b)
  have "bs_carries S (ra_output r)"
    using ra_read.IH by (simp add: ra_inv_def parts_inv_def)
  moreover have "b = bs_pop_output n (ra_output r)"
    using ra_read.hyps(2) by (simp add: bs_read_def)
  ultimately show ?case
    using ra_read.IH ra_inv_read [of S r n] read_extends [OF _ ra_read.hyps(2)] by simp
qed

text \<open>
  C3. Whatever the order, overlap and repetition of the honest pushes inside the window, and
  however the reads are interleaved, the bytes read followed by the bytes buffered are a
  prefix of the sender's stream; the output ends only with the whole of it, and a reader that
  sees the end of the output has read exactly the sender's stream.
\<close>

theorem reassembler_prefix:
  assumes "ra_reachable C S r out"
  shows "out @ bs_que (ra_output r) = take (bs_bytes_written (ra_output r)) S \<and>
    bs_bytes_written (ra_output r) \<le> length S \<and>
    (bs_input_ended (ra_output r) \<longrightarrow> out @ bs_que (ra_output r) = S) \<and>
    (bs_eof (ra_output r) \<longrightarrow> out = S)"
proof -
  let ?o = "ra_output r"
  have i: "ra_inv S r" and out: "out = take (bs_readsize ?o) S"
    using ra_reachable_inv [OF assms] by auto
  then have c: "bs_carries S ?o" and e: "bs_end ?o \<Longrightarrow> bs_writtensize ?o = length S"
    by (simp_all add: ra_inv_def parts_inv_def)
  have "out @ bs_que ?o = take (bs_writtensize ?o) S"
    using bsq.carriesD(3,4) [OF c] by (simp add: out take_piece_append)
  then show ?thesis
    using e out bsq.carriesD(2) [OF c] by (auto simp: bs_defs)
qed

theorem reassembler_prefix_witness:
  "\<exists>r. ra_reachable 8 [1, 2, 3] r [] \<and> bs_que (ra_output r) = take (bs_bytes_written (ra_output r)) [1, 2, 3]"
proof -
  have "ra_reachable 8 [1, 2, 3] (push_substring [2, 3] 1 True (reassembler_new 8)) []"
    by (intro ra_push ra_start) (simp_all add: honest_def piece_def in_window_def reassembler_new_def)
  then show ?thesis
    using reassembler_prefix by fastforce
qed

text \<open>The stream positions the stored nodes hold.\<close>

definition positions :: "node list \<Rightarrow> nat set" where
  "positions ns = (\<Union>n \<in> set ns. {nd_blockstart n ..< nd_blockstart n + length (nd_data n)})"

lemma nodes_apart_sorted:
  assumes "nodes_apart ns" and "\<forall>n \<in> set ns. nd_blockend n + 1 = nd_blockstart n + length (nd_data n)"
  shows "sorted_wrt (\<lambda>a b. nd_blockstart a + length (nd_data a) \<le> nd_blockstart b) ns"
  using assms
proof (induction ns)
  case (Cons a ns)
  have "nd_blockstart a + length (nd_data a) \<le> nd_blockstart b" if "b \<in> set ns" for b
    using that Cons by (cases ns) force+
  then show ?case
    using Cons by (auto simp: successively_Cons)
qed simp

lemma card_positions:
  "sorted_wrt (\<lambda>a b. nd_blockstart a + length (nd_data a) \<le> nd_blockstart b) ns \<Longrightarrow>
     card (positions ns) = stored ns"
proof (induction ns)
  case (Cons a ns)
  have "positions (a # ns) = {nd_blockstart a ..< nd_blockstart a + length (nd_data a)} \<union> positions ns"
    by (simp add: positions_def)
  moreover have "{nd_blockstart a ..< nd_blockstart a + length (nd_data a)} \<inter> positions ns = {}"
    using Cons.prems by (fastforce simp: positions_def)
  moreover have "finite (positions ns)"
    by (simp add: positions_def)
  ultimately show ?case
    using Cons by (simp add: card_Un_disjoint)
qed (simp add: positions_def)

text \<open>
  C22. The accounting is exact: the stored nodes are in order and pairwise disjoint, the
  number of unassembled bytes is the number of distinct stream positions they hold, it never
  exceeds the capacity, and the reassembler reports itself empty just when it holds none.
\<close>

theorem reassembler_accounting:
  assumes "ra_reachable C S r out"
  shows "sorted_wrt (\<lambda>a b. nd_blockstart a + length (nd_data a) \<le> nd_blockstart b) (ra_nodes r) \<and>
    ra_unassembled_bytes r = card (positions (ra_nodes r)) \<and> ra_unassembled_bytes r \<le> C \<and>
    (ra_empty r \<longleftrightarrow> positions (ra_nodes r) = {})"
proof -
  have i: "ra_inv S r" and C: "ra_capacity r = C"
    using ra_reachable_inv [OF assms] by auto
  then have n: "nodes_apart (ra_nodes r)" "\<forall>n \<in> set (ra_nodes r). node_ok S n"
    and acc: "ra_remaincapacity r + stored (ra_nodes r) = C"
    by (auto simp: ra_inv_def parts_inv_def nodes_inv_def)
  then have s: "sorted_wrt (\<lambda>a b. nd_blockstart a + length (nd_data a) \<le> nd_blockstart b) (ra_nodes r)"
    by (intro nodes_apart_sorted) (auto simp: node_ok_def)
  moreover have "finite (positions (ra_nodes r))"
    by (simp add: positions_def)
  ultimately show ?thesis
    using card_positions [OF s] acc C by (auto simp: ra_unassembled_bytes_def ra_empty_def)
qed

theorem reassembler_accounting_witness:
  "ra_unassembled_bytes (push_substring [2, 3] 1 True (reassembler_new 8)) \<le> 8"
proof -
  have "ra_reachable 8 [1, 2, 3] (push_substring [2, 3] 1 True (reassembler_new 8)) []"
    by (intro ra_push ra_start) (simp_all add: honest_def piece_def in_window_def reassembler_new_def)
  from reassembler_accounting [OF this] show ?thesis
    by simp
qed

text \<open>
  C21. Progress: an honest push inside the window that starts at or before the first missing
  byte is assembled up to its end at once, and if it carries the end mark the output ends.
  Only a one-byte probe of a closed window can be left unassembled.
\<close>

theorem reassembler_progress:
  assumes "ra_reachable C S r out" and "honest S data index eof" and "in_window r data index"
    and "index \<le> bs_bytes_written (ra_output r)"
    and "length data = 1 \<Longrightarrow> 0 < bs_remaining_capacity (ra_output r)"
  shows "index + length data \<le> bs_bytes_written (ra_output (push_substring data index eof r)) \<and>
    (eof \<longrightarrow> bs_input_ended (ra_output (push_substring data index eof r)))"
  using push_substring_inv [OF _ assms(2,3) refl] ra_reachable_inv [OF assms(1)] assms(4,5)
  by (auto simp: bs_defs)

theorem reassembler_progress_witness:
  "bs_input_ended (ra_output (push_substring [1, 2, 3] 0 True (reassembler_new 8)))"
proof -
  have "honest [1, 2, 3] [1, 2, 3] 0 True" "in_window (reassembler_new 8) [1, 2, 3] 0"
    by (simp_all add: honest_def in_window_def reassembler_new_def)
  from reassembler_progress [OF ra_start this] show ?thesis
    by (simp add: bs_defs)
qed

section \<open>Outside the window, and end marks\<close>

datatype ra_call = Push "byte list" nat bool | Take nat

fun ra_run :: "ra_call list \<Rightarrow> reassembler \<Rightarrow> byte list \<times> reassembler" where
  "ra_run [] r = ([], r)"
| "ra_run (Push d i e # cs) r = ra_run cs (push_substring d i e r)"
| "ra_run (Take n # cs) r =
     (let (d, b) = bs_read n (ra_output r); (ds, r') = ra_run cs (r\<lparr>ra_output := b\<rparr>)
      in (d @ ds, r'))"

text \<open>Pushing beyond the first missing byte into an empty list, and pushing the next bytes.\<close>

lemma insert_first:
  "data \<noteq> [] \<Longrightarrow> length data \<le> remain \<Longrightarrow>
     insert_linklist data index [] [] eof remain = ([mk_node data index eof], remain - length data)"
  by (subst insert_linklist.simps) (cases data; auto simp: Let_def min_def)

lemma push_first_far:
  assumes "data \<noteq> []" "0 < index" "length data \<le> C" "bs_bytes_written out < index" "ra_nodes r = []"
    "ra_remaincapacity r = C" "ra_output r = out"
  shows "push_substring data index eof r =
    r\<lparr>ra_nodes := [mk_node data index eof], ra_remaincapacity := C - length data\<rparr>"
  using assms by (auto simp: push_substring_def insert_to_linklist_def insert_first fetch_valid_data_def fetch_nodes_stop bs_bytes_written_def Let_def)







text \<open>Without an end mark, stored or pushed, the output does not end.\<close>

definition no_mark :: "reassembler \<Rightarrow> bool" where
  "no_mark r \<longleftrightarrow> \<not> bs_end (ra_output r) \<and> (\<forall>n \<in> set (ra_nodes r). \<not> nd_eof n)"

lemma insert_no_mark:
  "\<not> eof \<Longrightarrow> \<forall>n \<in> set (pre @ suf). \<not> nd_eof n \<Longrightarrow> \<forall>n \<in> set (fst (insert_linklist data index pre suf eof remain)). \<not> nd_eof n"
proof (induction data index pre suf eof remain rule: insert_linklist.induct)
  case (1 data index pre suf eof remain)
  show ?case
  proof (cases "data = [] \<or> remain = 0")
    case True
    then show ?thesis
      using "1.prems" by (simp add: insert_linklist_stop)
  next
    case go: False
    then have ne: "data \<noteq> []" "0 < remain"
      by simp_all
    define w where "w = min (length data) remain"
    show ?thesis
    proof (cases "pre @ suf")
      case Nil
      then show ?thesis
        using "1.prems"(1) unfolding insert_linklist_empty [OF ne refl Nil] by simp
    next
      case (Cons h hs)
      show ?thesis
      proof (cases "index < nd_blockstart h")
        case True
        then show ?thesis
          using "1.IH"(1) [OF go refl Cons True refl] "1.prems" unfolding insert_linklist_head [OF ne refl Cons True refl] by simp
      next
        case False
        then have le: "nd_blockstart h \<le> index"
          by simp
        show ?thesis
        proof (cases "insert_scan index w suf")
          case None
          then show ?thesis
            using "1.prems"(2) unfolding insert_linklist_covered [OF ne w_def Cons le None] by simp
        next
          case (Some x)
          obtain before p after where x: "x = (before, p, after)"
            by (cases x)
          note sc = Some [unfolded x]
          have old: "\<not> nd_eof p" "\<forall>n \<in> set before. \<not> nd_eof n" "\<forall>n \<in> set after. \<not> nd_eof n" "\<forall>n \<in> set pre. \<not> nd_eof n"
            using insert_scan_split [OF sc] "1.prems"(2) by (simp_all add: ball_Un)
          show ?thesis
          proof (cases after)
            case after: Nil
            then show ?thesis
              using old "1.prems"(1) unfolding insert_linklist_tail [OF ne w_def Cons le sc [unfolded after] refl refl] by (simp add: ball_Un)
          next
            case after: (Cons q qs)
            define off where "off = (if index > nd_blockend p then 0 else nd_blockend p + 1 - index)"
            define ws where "ws = min (min w (length (drop off data)))
              (sub64 (sub64 (nd_blockstart q) (max (sub64 index 1) (nd_blockend p))) 1)"
            define temp where "temp = mk_node (take ws (drop off data)) (index + off) False"
            have e: "insert_linklist data index pre suf eof remain = insert_linklist (drop (off + ws) data) (nd_blockend temp + 1)
                (pre @ before @ [p, temp]) after eof (remain - ws)"
              unfolding insert_linklist.simps [of data index pre suf eof remain] using ne Cons False sc after
              by (simp add: Let_def off_def ws_def temp_def flip: w_def)
            have n: "\<forall>n \<in> set ((pre @ before @ [p, temp]) @ after). \<not> nd_eof n"
              using old by (auto simp: temp_def)
            show ?thesis
              unfolding e by (rule "1.IH"(2) [OF go w_def Cons False sc refl refl off_def after ws_def temp_def "1.prems"(1) n])
          qed
        qed
      qed
    qed
  qed
qed

lemma fetch_no_mark:
  "fetch_nodes ns out remain = (ns', out', remain') \<Longrightarrow> \<forall>n \<in> set ns. \<not> nd_eof n \<Longrightarrow>
     bs_end out' = bs_end out \<and> (\<forall>n \<in> set ns'. \<not> nd_eof n)"
proof (induction ns arbitrary: out remain)
  case (Cons h hs)
  show ?case
    using Cons.prems Cons.IH by (auto simp: fetch_nodes.simps(2) [of h] Let_def split: if_splits)
qed simp

lemma push_no_mark: "no_mark r \<Longrightarrow> no_mark (push_substring data index False r)"
proof -
  assume r: "no_mark r"
  have f: "no_mark (fetch_valid_data x)" if "no_mark x" for x
    using that fetch_no_mark [of "ra_nodes x" "ra_output x" "ra_remaincapacity x"]
    by (auto simp: no_mark_def fetch_valid_data_def split: prod.splits)
  have i: "no_mark (insert_to_linklist d j False x)" if "no_mark x" for d j x
    using that insert_no_mark [of False "[]" "ra_nodes x" d j "ra_remaincapacity x"]
    by (auto simp: no_mark_def insert_to_linklist_def split: prod.splits)
  have w: "no_mark (r\<lparr>ra_output := snd (bs_write d (ra_output r))\<rparr>)" for d
    using r by (simp add: no_mark_def)
  show ?thesis
    using r f i w by (simp add: push_substring_def Let_def)
qed

lemma run_no_mark:
  "no_mark r \<Longrightarrow> (\<And>d j e. Push d j e \<in> set cs \<Longrightarrow> \<not> e) \<Longrightarrow> no_mark (snd (ra_run cs r))"
proof (induction cs arbitrary: r)
  case (Cons c cs)
  show ?case
  proof (cases c)
    case (Push d j e)
    then have "\<not> e"
      using Cons.prems(2) [of d j e] by simp
    moreover have "no_mark (snd (ra_run cs (push_substring d j False r)))"
      by (rule Cons.IH [OF push_no_mark [OF Cons.prems(1)]]) (meson Cons.prems(2) list.set_intros(2))
    ultimately show ?thesis
      by (simp add: Push)
  next
    case (Take n)
    have "no_mark (r\<lparr>ra_output := snd (bs_read n (ra_output r))\<rparr>)"
      using Cons.prems(1) by (simp add: no_mark_def bs_read_def)
    then have "no_mark (snd (ra_run cs (r\<lparr>ra_output := snd (bs_read n (ra_output r))\<rparr>)))"
      by (rule Cons.IH) (meson Cons.prems(2) list.set_intros(2))
    then show ?thesis
      by (simp add: Take Let_def split_beta)
  qed
qed simp

text \<open>
  C26. An end mark can be lost. For every stream shorter than the capacity: its end arrives early
  with the mark, then the whole stream arrives without it. Both pushes are honest and inside the
  window; every byte is delivered and nothing is left stored, but the output has not ended, and
  it does not end in any run of further calls unless the mark is pushed again.
\<close>

theorem reassembler_eof_lost:
  assumes i: "0 < i" "i < length S" "length S < C"
    and cs: "\<And>d j e. Push d j e \<in> set cs \<Longrightarrow> \<not> e"
  shows "honest S (drop i S) i True \<and> honest S S 0 False \<and>
    (let (d, r) = ra_run [Push (drop i S) i True, Push S 0 False, Take (length S)] (reassembler_new C)
     in d = S \<and> ra_nodes r = [] \<and> \<not> bs_input_ended (ra_output (snd (ra_run cs r))))"
proof -
  have h: "honest S (drop i S) i True" "honest S S 0 False"
    using i by (auto simp: honest_def piece_def)
  have one: "push_substring (drop i S) i True (reassembler_new C) =
      (reassembler_new C)\<lparr>ra_nodes := [mk_node (drop i S) i True], ra_remaincapacity := C - (length S - i)\<rparr>"
    using i push_first_far [of "drop i S" i C "byte_stream_new C" "reassembler_new C" True]
    by (simp add: reassembler_new_def bs_bytes_written_def)
  define w where "w = snd (bs_write S (byte_stream_new C))"
  have w: "bs_que w = S" "bs_capacity w = C - length S" "bs_writtensize w = length S" "\<not> bs_end w"
    using i by (simp_all add: w_def)
  have two: "push_substring S 0 False (push_substring (drop i S) i True (reassembler_new C)) = (reassembler_new C)\<lparr>ra_output := w\<rparr>"
    unfolding one using i w
    by (simp add: push_substring_def reassembler_new_def bs_bytes_written_def bs_remaining_capacity_def w_def [symmetric]
        fetch_valid_data_def fetch_nodes_old Let_def)
  define r where "r = (reassembler_new C)\<lparr>ra_output := bs_pop_output (length S) w\<rparr>"
  have run: "ra_run [Push (drop i S) i True, Push S 0 False, Take (length S)] (reassembler_new C) = (S, r)"
    using two w by (simp add: bs_read_def r_def)
  have "no_mark r"
    using w by (simp add: no_mark_def r_def reassembler_new_def)
  then have "no_mark (snd (ra_run cs r))"
    using cs by (rule run_no_mark)
  then show ?thesis
    unfolding run using h by (simp add: no_mark_def bs_input_ended_def r_def reassembler_new_def)
qed

theorem reassembler_eof_lost_witness:
  "\<not> bs_input_ended (ra_output (snd (ra_run [Push [] 3 False, Take 5] (snd (ra_run
     [Push (drop 2 [1, 2, 3]) 2 True, Push [1, 2, 3] 0 False, Take (length [1, 2, 3 :: byte])] (reassembler_new 8))))))"
proof -
  have "\<not> e" if "Push d j e \<in> set [Push [] 3 False, Take 5]" for d j e
    using that by simp
  then show ?thesis
    using reassembler_eof_lost [of 2 "[1, 2, 3]" 8 "[Push [] 3 False, Take 5]"] by (simp add: Let_def split_beta del: ra_run.simps)
qed



end
