(* ===== verification/Net_Parser.thy ===== *)
theory Net_Parser
  imports Sponge_Prelude
begin

text \<open>
  The network-order integer parser and printer of \<open>libsponge/util/parser.hh\<close> and
  \<open>libsponge/util/parser.cc\<close>. The parser's buffer is the bytes it shows (see \<open>Buffers\<close>).
  The interface \<open>net_field\<close> is what the header codecs rely on: printing a field and
  parsing it back, the error for a short buffer, and errors that stick.
\<close>

unbundle bit_operations_syntax

section \<open>Parse results\<close>

datatype parse_result =
  NoError | BadChecksum | PacketTooShort | WrongIPVersion | HeaderTooShort | TruncatedPacket | Unsupported

text \<open>The position of an enumerator, and the names the array holds; there is no name for the last.\<close>

fun parse_result_index :: "parse_result \<Rightarrow> nat" where
  "parse_result_index NoError = 0"
| "parse_result_index BadChecksum = 1"
| "parse_result_index PacketTooShort = 2"
| "parse_result_index WrongIPVersion = 3"
| "parse_result_index HeaderTooShort = 4"
| "parse_result_index TruncatedPacket = 5"
| "parse_result_index Unsupported = 6"

definition parse_result_names :: "string list" where
  "parse_result_names = [''NoError'', ''BadChecksum'', ''PacketTooShort'', ''WrongIPVersion'',
     ''HeaderTooShort'', ''TruncatedPacket'']"

text \<open>\<open>None\<close> is a read past the end of the array, undefined behaviour.\<close>

definition as_string :: "parse_result \<Rightarrow> string option" where
  "as_string r =
     (if parse_result_index r < length parse_result_names
      then Some (parse_result_names ! parse_result_index r) else None)"

section \<open>The parser\<close>

record net_parser =
  np_buffer :: "byte list"
  np_error :: parse_result

definition net_parser_new :: "byte list \<Rightarrow> net_parser" where
  "net_parser_new buffer = \<lparr>np_buffer = buffer, np_error = NoError\<rparr>"

definition np_set_error :: "parse_result \<Rightarrow> net_parser \<Rightarrow> net_parser" where
  "np_set_error res p = p\<lparr>np_error := res\<rparr>"

definition np_has_error :: "net_parser \<Rightarrow> bool" where
  "np_has_error p \<longleftrightarrow> np_error p \<noteq> NoError"

definition np_check_size :: "nat \<Rightarrow> net_parser \<Rightarrow> net_parser" where
  "np_check_size sz p = (if sz > length (np_buffer p) then np_set_error PacketTooShort p else p)"

text \<open>
  \<open>_parse_int<T>\<close>; the word's length gives \<open>sizeof(T)\<close>. After the size check neither
  reading the bytes nor removing them can throw.
\<close>

definition np_parse_int :: "net_parser \<Rightarrow> 'a::len word \<times> net_parser" where
  "np_parse_int p =
     (let len = LENGTH('a) div 8;
          p = np_check_size len p
      in if np_has_error p then (0, p)
         else (foldl (\<lambda>ret x. push_bit 8 ret + ucast x) 0 (take len (np_buffer p)),
               p\<lparr>np_buffer := drop len (np_buffer p)\<rparr>))"

definition np_u32 :: "net_parser \<Rightarrow> u32 \<times> net_parser" where
  "np_u32 p = np_parse_int p"

definition np_u16 :: "net_parser \<Rightarrow> u16 \<times> net_parser" where
  "np_u16 p = np_parse_int p"

definition np_u8 :: "net_parser \<Rightarrow> u8 \<times> net_parser" where
  "np_u8 p = np_parse_int p"

definition np_remove_prefix :: "nat \<Rightarrow> net_parser \<Rightarrow> net_parser" where
  "np_remove_prefix n p =
     (let p = np_check_size n p
      in if np_has_error p then p else p\<lparr>np_buffer := drop n (np_buffer p)\<rparr>)"

section \<open>The printer\<close>

definition unparse_int :: "byte list \<Rightarrow> 'a::len word \<Rightarrow> byte list" where
  "unparse_int s val =
     (let len = LENGTH('a) div 8
      in foldl (\<lambda>s i. s @ [ucast (drop_bit ((len - i - 1) * 8) val AND 0xff)]) s [0 ..< len])"

definition unparse_u32 :: "byte list \<Rightarrow> u32 \<Rightarrow> byte list" where
  "unparse_u32 s val = unparse_int s val"

definition unparse_u16 :: "byte list \<Rightarrow> u16 \<Rightarrow> byte list" where
  "unparse_u16 s val = unparse_int s val"

definition unparse_u8 :: "byte list \<Rightarrow> u8 \<Rightarrow> byte list" where
  "unparse_u8 s val = unparse_int s val"

lemmas np_op_defs [net_defs] = net_parser_new_def np_set_error_def np_has_error_def np_check_size_def
  np_remove_prefix_def

section \<open>The bytes of a word\<close>

definition u8_bytes :: "u8 \<Rightarrow> byte list" where
  "u8_bytes v = [v]"

definition u16_bytes :: "u16 \<Rightarrow> byte list" where
  "u16_bytes v = [ucast (drop_bit 8 v), ucast v]"

definition u32_bytes :: "u32 \<Rightarrow> byte list" where
  "u32_bytes v = [ucast (drop_bit 24 v), ucast (drop_bit 16 v), ucast (drop_bit 8 v), ucast v]"

lemma bytes_length [simp]:
  "length (u8_bytes a) = 1" "length (u16_bytes b) = 2" "length (u32_bytes c) = 4"
  by (simp_all add: u8_bytes_def u16_bytes_def u32_bytes_def)

lemma ucast_and_ff: "ucast (v AND 0xff :: 'a::len word) = (ucast v :: 8 word)"
proof -
  have "(0xff :: 'a word) = mask 8"
    by (simp add: mask_eq_exp_minus_1)
  then have "v AND 0xff = take_bit 8 v"
    by (simp only: take_bit_eq_mask)
  then show ?thesis
    by (auto intro!: bit_eqI simp: bit_simps dest: bit_imp_le_length)
qed

lemma unparse_bytes [simp]:
  "unparse_u8 s a = s @ u8_bytes a"
  "unparse_u16 s b = s @ u16_bytes b"
  "unparse_u32 s c = s @ u32_bytes c"
  using ucast_and_ff [of a]
  by (simp_all add: unparse_u8_def unparse_u16_def unparse_u32_def unparse_int_def u8_bytes_def
      u16_bytes_def u32_bytes_def ucast_and_ff upt_rec)

lemma np_u8_bytes:
  "np_u8 \<lparr>np_buffer = u8_bytes v @ xs, np_error = NoError\<rparr> = (v, \<lparr>np_buffer = xs, np_error = NoError\<rparr>)"
  by (simp add: np_u8_def np_parse_int_def net_defs u8_bytes_def)

lemma np_u16_bytes:
  "np_u16 \<lparr>np_buffer = u16_bytes v @ xs, np_error = NoError\<rparr> = (v, \<lparr>np_buffer = xs, np_error = NoError\<rparr>)"
proof -
  have "push_bit 8 (ucast (ucast (drop_bit 8 v) :: 8 word) :: u16) + ucast (ucast v :: 8 word) =
      push_bit 8 (ucast (ucast (drop_bit 8 v) :: 8 word) :: u16) OR ucast (ucast v :: 8 word)"
    by (rule disjunctive_add) (auto simp: bit_simps)
  also have "\<dots> = v"
    by (rule bit_eqI) (auto simp: bit_simps)
  finally show ?thesis
    by (simp add: np_u16_def np_parse_int_def net_defs u16_bytes_def)
qed

lemma np_u32_bytes:
  "np_u32 \<lparr>np_buffer = u32_bytes v @ xs, np_error = NoError\<rparr> = (v, \<lparr>np_buffer = xs, np_error = NoError\<rparr>)"
proof -
  let ?b = "\<lambda>n. ucast (ucast (drop_bit n v) :: 8 word) :: u32"
  have s: "push_bit 8 x + ucast (y :: 8 word) = push_bit 8 x OR ucast y" for x :: u32 and y
    by (rule disjunctive_add) (auto simp: bit_simps dest: bit_imp_le_length)
  have "push_bit 8 (push_bit 8 (push_bit 8 (?b 24) OR ?b 16) OR ?b 8) OR ucast (ucast v :: 8 word) = v"
  proof (rule bit_eqI)
    fix n
    show "bit (push_bit 8 (push_bit 8 (push_bit 8 (?b 24) OR ?b 16) OR ?b 8) OR ucast (ucast v :: 8 word)) n
        \<longleftrightarrow> bit v n"
      by (cases "n < 8"; cases "n < 16"; cases "n < 24")
        (auto simp: bit_simps dest: bit_imp_le_length)
  qed
  then show ?thesis
    by (simp add: np_u32_def np_parse_int_def net_defs u32_bytes_def s)
qed

lemma byte_bit_high [simp]:
  "\<not> bit (b :: byte) (8 + n)" "\<not> bit (b :: byte) (16 + n)" "\<not> bit (b :: byte) (24 + n)"
  by (auto dest: bit_imp_le_length)

text \<open>Every string of the right length is the encoding of some word.\<close>

lemma u8_bytes_onto: "length xs = 1 \<Longrightarrow> \<exists>v. u8_bytes v = xs"
  by (cases xs) (auto simp: u8_bytes_def)

lemma u16_bytes_onto: "length xs = 2 \<Longrightarrow> \<exists>v. u16_bytes v = xs"
proof -
  assume "length xs = 2"
  then obtain a b where xs: "xs = [a, b]"
    by (auto simp: length_Suc_conv numeral_2_eq_2)
  have "u16_bytes (push_bit 8 (ucast a) OR ucast b) = xs"
    unfolding xs u16_bytes_def by (auto intro!: bit_eqI simp: bit_simps dest: bit_imp_le_length)
  then show ?thesis ..
qed

lemma u32_bytes_onto: "length xs = 4 \<Longrightarrow> \<exists>v. u32_bytes v = xs"
proof -
  assume "length xs = 4"
  then obtain a b c d where xs: "xs = [a, b, c, d]"
    by (auto simp: length_Suc_conv eval_nat_numeral)
  have "u32_bytes (push_bit 24 (ucast a) OR push_bit 16 (ucast b) OR push_bit 8 (ucast c) OR ucast d) = xs"
    unfolding xs u32_bytes_def by (auto intro!: bit_eqI simp: bit_simps dest: bit_imp_le_length)
  then show ?thesis ..
qed

text \<open>The parser state after \<open>n\<close> bytes of \<open>b\<close> were asked for: read, or the error for a short buffer.\<close>

definition np_after :: "byte list \<Rightarrow> nat \<Rightarrow> net_parser \<Rightarrow> bool" where
  "np_after b n p \<longleftrightarrow>
     (if n \<le> length b then np_error p = NoError \<and> np_buffer p = drop n b
      else np_error p = PacketTooShort)"

lemma np_after_new [simp]: "np_after b 0 (net_parser_new b)"
  by (simp add: np_after_def net_parser_new_def)

lemma np_after_remove_prefix: "np_after b n p \<Longrightarrow> np_after b (n + k) (np_remove_prefix k p)"
  by (auto simp: np_after_def net_defs Let_def add.commute split: if_splits)

section \<open>The interface of a field\<close>

text \<open>
  What the header codecs rely on for a fixed-width field: parsing what was printed gives the
  value and the rest, a buffer that is too short is reported and left alone, an earlier error
  sticks, and every string of the field's width is the print of a value.
\<close>

locale net_field =
  fixes dec :: "net_parser \<Rightarrow> 'v \<times> net_parser"
    and enc :: "'v \<Rightarrow> byte list"
    and width :: nat
    and nul :: 'v
  assumes dec_enc:
      "dec \<lparr>np_buffer = enc v @ xs, np_error = NoError\<rparr> = (v, \<lparr>np_buffer = xs, np_error = NoError\<rparr>)"
    and enc_width: "length (enc v) = width"
    and dec_short: "length (np_buffer p) < width \<Longrightarrow> dec p = (nul, p\<lparr>np_error := PacketTooShort\<rparr>)"
    and dec_stuck: "np_error p \<noteq> NoError \<Longrightarrow> width \<le> length (np_buffer p) \<Longrightarrow> dec p = (nul, p)"
    and enc_onto: "length xs = width \<Longrightarrow> \<exists>v. enc v = xs"
begin

lemma enc_inject: "enc v = enc w \<longleftrightarrow> v = w"
  using dec_enc by (metis fst_conv)

lemma dec_print:
  assumes "width \<le> length xs"
  shows "\<exists>v. enc v = take width xs \<and>
    dec \<lparr>np_buffer = xs, np_error = NoError\<rparr> = (v, \<lparr>np_buffer = drop width xs, np_error = NoError\<rparr>)"
proof -
  have "length (take width xs) = width"
    using assms by simp
  then obtain v where v: "enc v = take width xs"
    using enc_onto by blast
  then show ?thesis
    using dec_enc [of v "drop width xs"] by auto
qed

lemma dec_result:
  assumes "np_error p = NoError" "dec p = (v, p')"
  shows "np_error p' = (if width \<le> length (np_buffer p) then NoError else PacketTooShort)"
    "np_buffer p' = (if width \<le> length (np_buffer p) then drop width (np_buffer p) else np_buffer p)"
proof -
  have p: "p = \<lparr>np_buffer = np_buffer p, np_error = NoError\<rparr>"
    using assms(1) by simp
  show "np_error p' = (if width \<le> length (np_buffer p) then NoError else PacketTooShort)"
    "np_buffer p' = (if width \<le> length (np_buffer p) then drop width (np_buffer p) else np_buffer p)"
    using assms(2) dec_print [of "np_buffer p"] dec_short [of p] p by (auto simp: not_le)
qed

lemma dec_after:
  assumes a: "np_after b n p" and d: "dec p = (v, p')"
  shows "np_after b (n + width) p'"
    and "n + width \<le> length b \<Longrightarrow> enc v = piece n (n + width) b"
proof -
  show "np_after b (n + width) p'"
  proof (cases "n \<le> length b")
    case True
    then show ?thesis
      using a dec_result [OF _ d] by (auto simp: np_after_def add.commute)
  next
    case False
    then show ?thesis
      using a d dec_stuck [of p] dec_short [of p]
      by (cases "width \<le> length (np_buffer p)") (auto simp: np_after_def)
  qed
  assume n: "n + width \<le> length b"
  then have p: "p = \<lparr>np_buffer = drop n b, np_error = NoError\<rparr>"
    using a by (simp add: np_after_def)
  then show "enc v = piece n (n + width) b"
    using dec_print [of "drop n b"] d n by (auto simp: piece_def)
qed

lemma dec_error_sticks:
  "np_error p \<noteq> NoError \<Longrightarrow> dec p = (v, p') \<Longrightarrow> np_error p' \<noteq> NoError"
  using dec_stuck [of p] dec_short [of p] by (cases "width \<le> length (np_buffer p)") auto

end

lemma np_parse_int_short:
  "length (np_buffer p) < LENGTH('a::len) div 8 \<Longrightarrow>
     np_parse_int p = (0 :: 'a word, p\<lparr>np_error := PacketTooShort\<rparr>)"
  by (simp add: np_parse_int_def net_defs Let_def)

lemma np_parse_int_stuck:
  "np_error p \<noteq> NoError \<Longrightarrow> LENGTH('a::len) div 8 \<le> length (np_buffer p) \<Longrightarrow>
     np_parse_int p = (0 :: 'a word, p)"
  by (simp add: np_parse_int_def net_defs Let_def)

interpretation f8: net_field np_u8 u8_bytes 1 0
  by unfold_locales
    (rule np_u8_bytes | auto simp: u8_bytes_onto np_u8_def np_parse_int_short np_parse_int_stuck)+

interpretation f16: net_field np_u16 u16_bytes 2 0
  by unfold_locales
    (rule np_u16_bytes | auto simp: u16_bytes_onto np_u16_def np_parse_int_short np_parse_int_stuck)+

interpretation f32: net_field np_u32 u32_bytes 4 0
  by unfold_locales
    (rule np_u32_bytes | auto simp: u32_bytes_onto np_u32_def np_parse_int_short np_parse_int_stuck)+

lemmas field_dec_enc = f8.dec_enc f16.dec_enc f32.dec_enc

lemma np_remove_prefix_ok:
  "np_remove_prefix (length ys) \<lparr>np_buffer = ys @ xs, np_error = NoError\<rparr> =
     \<lparr>np_buffer = xs, np_error = NoError\<rparr>"
  by (simp add: net_defs)

section \<open>Properties\<close>

text \<open>
  Printing integers in network order and parsing them back is the identity: a 32-bit, a
  16-bit and an 8-bit value printed one after the other are parsed back in that order with
  the rest of the buffer untouched, the most significant byte first.
\<close>

theorem parser_roundtrip:
  "let s = unparse_u8 (unparse_u16 (unparse_u32 [] a) b) c;
       (a', p) = np_u32 (net_parser_new (s @ rest));
       (b', p) = np_u16 p;
       (c', p) = np_u8 p
   in s = [ucast (drop_bit 24 a), ucast (drop_bit 16 a), ucast (drop_bit 8 a), ucast a,
        ucast (drop_bit 8 b), ucast b, c] \<and>
      (a', b', c') = (a, b, c) \<and> np_buffer p = rest \<and> \<not> np_has_error p"
  by (simp add: net_parser_new_def field_dec_enc np_has_error_def)
    (simp add: u32_bytes_def u16_bytes_def u8_bytes_def)

text \<open>
  Every parse result but one has a printable name: for \<open>Unsupported\<close>, the seventh
  enumerator, the table of six names is read past its end.
\<close>

theorem as_string_out_of_bounds: "as_string r = None \<longleftrightarrow> r = Unsupported"
  by (cases r) (simp_all add: as_string_def parse_result_names_def)

end
