(* ===== verification/Internet_Checksum.thy ===== *)
theory Internet_Checksum
  imports Net_Parser
begin

text \<open>
  The Internet checksum of \<open>libsponge/util/util.cc\<close>: the running 32-bit sum with its parity
  bit, the folding loop of \<open>value\<close>, their meaning over the natural numbers, that a checksum
  put where the packet had zeros verifies, and that a change of one byte is noticed.
\<close>

section \<open>The class\<close>

record internet_checksum =
  ck_sum :: u32
  ck_parity :: bool

definition internet_checksum_new :: "u32 \<Rightarrow> internet_checksum" where
  "internet_checksum_new initial_sum = \<lparr>ck_sum = initial_sum, ck_parity = False\<rparr>"

definition ck_step :: "internet_checksum \<Rightarrow> byte \<Rightarrow> internet_checksum" where
  "ck_step c x =
     (let val = ucast x :: u16;
          val = (if \<not> ck_parity c then push_bit 8 val else val)
      in c\<lparr>ck_sum := ck_sum c + ucast val, ck_parity := \<not> ck_parity c\<rparr>)"

definition ck_add :: "byte list \<Rightarrow> internet_checksum \<Rightarrow> internet_checksum" where
  "ck_add data c = foldl ck_step c data"

lemma fold_halves:
  fixes n :: nat
  assumes "0xffff < n"
  shows "n div 65536 + n mod 65536 < n" "(n div 65536 + n mod 65536) mod 65535 = n mod 65535"
    "0 < n div 65536 + n mod 65536"
proof -
  have n: "n = 65536 * (n div 65536) + n mod 65536"
    by simp
  have "0 < n div 65536"
    using assms by (simp add: div_greater_zero_iff)
  then show "n div 65536 + n mod 65536 < n" "0 < n div 65536 + n mod 65536"
    using n by linarith+
  have "n = 65535 * (n div 65536) + (n div 65536 + n mod 65536)"
    using n by linarith
  then show "(n div 65536 + n mod 65536) mod 65535 = n mod 65535"
    by (metis mod_mult_self4)
qed

lemma unat_fold_step: "unat (drop_bit 16 (r :: u32) + (r AND 0xffff)) = unat r div 65536 + unat r mod 65536"
proof -
  have m: "(0xffff :: u32) = mask 16"
    by (simp add: mask_eq_exp_minus_1)
  have h: "unat (drop_bit 16 r) = unat r div 65536" "unat (r AND 0xffff) = unat r mod 65536"
    unfolding m by (simp_all add: unat_drop_bit_eq drop_bit_eq_div take_bit_eq_mask [symmetric]
        unsigned_take_bit_eq take_bit_eq_mod unat_div unat_mod)
  have "unat r < 2 ^ 32"
    using unat_less_2pow [of r] by simp
  then have "unat r div 65536 + unat r mod 65536 < 2 ^ 32"
    by (cases "0xffff < unat r") (use fold_halves(1) [of "unat r"] in auto)
  then show ?thesis
    by (simp add: unat_word_ariths h)
qed

text \<open>The loop of \<open>value\<close>.\<close>

function ck_fold :: "u32 \<Rightarrow> u32" where
  "ck_fold ret = (if ret > 0xffff then ck_fold (drop_bit 16 ret + (ret AND 0xffff)) else ret)"
  by pat_completeness auto
termination
proof (relation "measure unat", goal_cases)
  case (2 ret)
  then have "0xffff < unat ret"
    by (simp add: word_less_nat_alt)
  then show ?case
    using fold_halves(1) [of "unat ret"] by (simp add: unat_fold_step)
qed simp

declare ck_fold.simps [simp del]

definition ck_value :: "internet_checksum \<Rightarrow> u16" where
  "ck_value c = ucast (NOT (ck_fold (ck_sum c)))"

section \<open>Its meaning\<close>

text \<open>The sum of the 16-bit big-endian words of a string; the flag says which half comes first.\<close>

fun be_sum :: "bool \<Rightarrow> byte list \<Rightarrow> nat" where
  "be_sum par [] = 0"
| "be_sum par (x # xs) = (if par then unat x else 256 * unat x) + be_sum (\<not> par) xs"

lemma be_sum_append: "be_sum p (xs @ ys) = be_sum p xs + be_sum (p \<noteq> odd (length xs)) ys"
proof (induction xs arbitrary: p)
  case (Cons x xs)
  then show ?case
    by (cases p; cases "even (length xs)") simp_all
qed simp

lemma be_sum_u16: "be_sum False (u16_bytes v) = unat v"
proof -
  have "unat v < 65536"
    using unat_less_2pow [of v] by simp
  then have "unat v div 256 < 256"
    by linarith
  then show ?thesis
    by (simp add: u16_bytes_def unat_ucast_mod unat_drop_bit_eq drop_bit_eq_div unat_div)
qed

lemma ck_step_sum:
  assumes "unat (ck_sum c) + (if ck_parity c then unat x else 256 * unat x) < 2 ^ 32"
  shows "unat (ck_sum (ck_step c x)) = unat (ck_sum c) + (if ck_parity c then unat x else 256 * unat x)"
proof -
  have "unat x < 256"
    using unat_less_2pow [of x] by simp
  then have "unat (ucast x :: u16) = unat x" "unat (push_bit 8 (ucast x :: u16)) = 256 * unat x"
    by (simp_all add: unat_ucast_up unat_word_ariths push_bit_eq_mult)
  then have "unat (ucast (if \<not> ck_parity c then push_bit 8 (ucast x) else ucast x :: u16) :: u32) =
      (if ck_parity c then unat x else 256 * unat x)"
    by (simp add: unat_ucast_up)
  then show ?thesis
    using assms by (simp add: ck_step_def Let_def unat_word_ariths)
qed

lemma ck_add_sum:
  "unat (ck_sum c) + be_sum (ck_parity c) xs < 2 ^ 32 \<Longrightarrow>
     unat (ck_sum (ck_add xs c)) = unat (ck_sum c) + be_sum (ck_parity c) xs"
proof (induction xs arbitrary: c)
  case (Cons x xs)
  have s: "unat (ck_sum (ck_step c x)) = unat (ck_sum c) + (if ck_parity c then unat x else 256 * unat x)"
    using Cons.prems by (intro ck_step_sum) auto
  have p: "ck_parity (ck_step c x) = (\<not> ck_parity c)"
    by (simp add: ck_step_def Let_def)
  show ?case
    using Cons.IH [of "ck_step c x"] Cons.prems by (simp add: s p ck_add_def)
qed (simp add: ck_add_def)

lemma ck_fold_spec:
  "unat (ck_fold r) < 65536 \<and> unat (ck_fold r) mod 65535 = unat r mod 65535 \<and> (ck_fold r = 0 \<longleftrightarrow> r = 0)"
proof (induction r rule: ck_fold.induct)
  case (1 r)
  show ?case
  proof (cases "r > 0xffff")
    case True
    then have n: "0xffff < unat r"
      by (simp add: word_less_nat_alt)
    let ?s = "drop_bit 16 r + (r AND 0xffff)"
    have "ck_fold r = ck_fold ?s"
      using True by (subst ck_fold.simps) simp
    moreover have "?s \<noteq> 0" "r \<noteq> 0"
      using fold_halves(3) [OF n] n by (auto simp: word_unat_eq_iff unat_fold_step)
    ultimately show ?thesis
      using "1.IH" [OF True] fold_halves(2) [OF n] by (simp add: unat_fold_step)
  next
    case False
    then show ?thesis
      by (subst ck_fold.simps, simp add: word_less_nat_alt not_less)
        (subst (1 2) ck_fold.simps, simp add: word_less_nat_alt not_less)
  qed
qed

lemma ck_value_fold: "unat (ck_value c) = 65535 - unat (ck_fold (ck_sum c))"
proof -
  let ?f = "ck_fold (ck_sum c)"
  have f: "unat ?f < 65536"
    using ck_fold_spec by blast
  have "unat (NOT ?f) = 2 ^ 32 - 1 - unat ?f"
  proof -
    have m: "unat (- 1 :: u32) = 2 ^ 32 - 1"
      by (simp add: unsigned_minus_1_eq_mask mask_eq_exp_minus_1)
    have "NOT ?f = - 1 - ?f"
      by (simp add: not_eq_complement)
    then show ?thesis
      using f by (simp add: unat_sub_if' m)
  qed
  also have "\<dots> = 65535 - unat ?f + 65536 * 65535"
    using f by simp
  finally have "unat (NOT ?f) mod 65536 = 65535 - unat ?f"
    by (simp only: mod_mult_self2) simp
  then show ?thesis
    by (simp add: ck_value_def unat_ucast_mod)
qed

text \<open>A sum verifies just when it is a positive multiple of \<open>2 ^ 16 - 1\<close>.\<close>

lemma ck_value_zero: "ck_value c = 0 \<longleftrightarrow> ck_sum c \<noteq> 0 \<and> unat (ck_sum c) mod 65535 = 0"
proof -
  define f where "f = unat (ck_fold (ck_sum c))"
  have f: "f < 65536" "f mod 65535 = unat (ck_sum c) mod 65535" "f = 0 \<longleftrightarrow> ck_sum c = 0"
    using ck_fold_spec [of "ck_sum c"] by (auto simp: f_def word_unat_eq_iff)
  have "ck_value c = 0 \<longleftrightarrow> f = 65535"
    using f(1) by (simp add: word_unat_eq_iff ck_value_fold flip: f_def) linarith
  also have "\<dots> \<longleftrightarrow> f \<noteq> 0 \<and> f mod 65535 = 0"
    using f(1) by (auto simp: mod_eq_0_iff_dvd dvd_def)
  finally show ?thesis
    using f(2,3) by simp
qed

lemma ck_value_complement:
  "\<exists>k. unat (ck_sum c) + unat (ck_value c) = 65535 * k \<and> 0 < unat (ck_sum c) + unat (ck_value c)"
proof -
  define f where "f = unat (ck_fold (ck_sum c))"
  have f: "f < 65536" "f mod 65535 = unat (ck_sum c) mod 65535" "f = 0 \<longleftrightarrow> ck_sum c = 0"
    using ck_fold_spec [of "ck_sum c"] by (auto simp: f_def word_unat_eq_iff)
  have v: "unat (ck_value c) = 65535 - f"
    by (simp add: ck_value_fold f_def)
  have "(unat (ck_sum c) + (65535 - f)) mod 65535 = (f + (65535 - f)) mod 65535"
    by (rule mod_add_cong) (simp_all add: f(2))
  also have "\<dots> = 0"
    using f(1) by simp
  finally show ?thesis
    using f(1,3) v by (auto simp: mod_eq_0_iff_dvd dvd_def word_unat_eq_iff)
qed

lemma checksum_verifies_aux:
  assumes len: "even (length pre)"
    and bound: "unat init + be_sum False (pre @ [0, 0] @ post) + 65535 < 2 ^ 32"
    and v: "v = ck_value (ck_add (pre @ [0, 0] @ post) (internet_checksum_new init))"
  shows "ck_value (ck_add (pre @ u16_bytes v @ post) (internet_checksum_new init)) = 0"
proof -
  define c0 where "c0 = ck_add (pre @ [0, 0] @ post) (internet_checksum_new init)"
  define c1 where "c1 = ck_add (pre @ u16_bytes v @ post) (internet_checksum_new init)"
  have b: "be_sum False (pre @ u16_bytes v @ post) = be_sum False (pre @ [0, 0] @ post) + unat v"
    using len by (simp add: be_sum_append be_sum_u16)
  have "unat v < 65536"
    using unat_less_2pow [of v] by simp
  then have "unat (ck_sum c0) = unat init + be_sum False (pre @ [0, 0] @ post)"
    "unat (ck_sum c1) = unat init + be_sum False (pre @ u16_bytes v @ post)"
    using bound ck_add_sum [of "internet_checksum_new init"] b
    by (simp_all add: c0_def c1_def internet_checksum_new_def)
  then have s: "unat (ck_sum c1) = unat (ck_sum c0) + unat (ck_value c0)"
    using b by (simp add: v c0_def)
  then show ?thesis
    using ck_value_complement [of c0]
    unfolding ck_value_zero c1_def [symmetric] by (auto simp: word_unat_eq_iff)
qed

section \<open>Properties\<close>

text \<open>
  Filling in the checksum makes the packet verify: computed over a packet whose checksum
  field (at an even offset) is zero, and then written into that field, the checksum of the
  result is 0, for every initial sum (the pseudo-header), as long as the 32-bit sum cannot
  overflow.
\<close>

theorem checksum_verifies:
  assumes len: "even (length pre)"
    and bound: "unat init + be_sum False (pre @ [0, 0] @ post) + 65535 < 2 ^ 32"
    and v: "v = ck_value (ck_add (pre @ [0, 0] @ post) (internet_checksum_new init))"
  shows "ck_value (ck_add (pre @ u16_bytes v @ post) (internet_checksum_new init)) = 0"
  by (rule checksum_verifies_aux [OF assms])

theorem checksum_verifies_witness:
  "ck_value (ck_add ([1, 2] @ u16_bytes (ck_value (ck_add ([1, 2] @ [0, 0] @ [9]) (internet_checksum_new 7))) @ [9])
     (internet_checksum_new 7)) = 0"
  by (rule checksum_verifies) simp_all

text \<open>
  A changed byte is noticed: when a packet verifies, no packet that differs from it in
  exactly one byte does.
\<close>

theorem checksum_detects_byte_change:
  assumes ok: "ck_value (ck_add (pre @ x # post) (internet_checksum_new init)) = 0"
    and diff: "x \<noteq> y"
    and bound: "unat init + be_sum False (pre @ x # post) < 2 ^ 32"
      "unat init + be_sum False (pre @ y # post) < 2 ^ 32"
  shows "ck_value (ck_add (pre @ y # post) (internet_checksum_new init)) \<noteq> 0"
proof
  assume ok': "ck_value (ck_add (pre @ y # post) (internet_checksum_new init)) = 0"
  define w :: nat where "w = (if odd (length pre) then 1 else 256)"
  define r where "r = unat init + be_sum False pre + be_sum (\<not> odd (length pre)) post"
  have s: "unat init + be_sum False (pre @ z # post) = r + w * unat z" for z
    by (simp add: be_sum_append w_def r_def)
  have m: "(r + w * unat x) mod 65535 = 0" "(r + w * unat y) mod 65535 = 0"
    using ok ok' bound ck_add_sum [of "internet_checksum_new init"]
    by (simp_all add: ck_value_zero internet_checksum_new_def s)
  have xy: "unat x < 256" "unat y < 256" "unat x \<noteq> unat y"
    using unat_less_2pow [of x] unat_less_2pow [of y] diff by (simp_all add: word_unat_eq_iff)
  have w: "w * unat x \<le> 256 * 255" "w * unat y \<le> 256 * 255"
    using xy by (auto simp: w_def)
  have "r + w * unat x = r + w * unat y"
    by (rule mod_eq_close [of _ 65535]) (use m w in linarith)+
  then show False
    using xy by (auto simp: w_def split: if_splits)
qed

theorem checksum_detects_byte_change_witness:
  "ck_value (ck_add ([0xff, 0xff] @ 1 # []) (internet_checksum_new 0)) \<noteq> 0"
proof (rule checksum_detects_byte_change)
  show "ck_value (ck_add ([0xff, 0xff] @ 0 # []) (internet_checksum_new 0)) = 0"
    by code_simp
qed simp_all

section \<open>The sum with a carry at every step\<close>

text \<open>
  The Internet checksum as its specification (RFC 1071) words it: the sixteen-bit words are added in one's
  complement, the carry out of every addition is added back at once, and the result is complemented.
\<close>

definition ones_add :: "nat \<Rightarrow> nat \<Rightarrow> nat" where
  "ones_add a b = (if a + b < 65536 then a + b else a + b - 65535)"

fun ones_sum :: "nat \<Rightarrow> bool \<Rightarrow> byte list \<Rightarrow> nat" where
  "ones_sum acc par [] = acc"
| "ones_sum acc par (x # xs) = ones_sum (ones_add acc (if par then unat x else 256 * unat x)) (\<not> par) xs"

lemma ones_add_spec:
  assumes "a < 65536" "b < 65536"
  shows "ones_add a b < 65536" "ones_add a b mod 65535 = (a + b) mod 65535" "ones_add a b = 0 \<longleftrightarrow> a + b = 0"
  using assms by (auto simp: ones_add_def le_mod_geq)

lemma ones_sum_spec:
  assumes "acc < 65536"
  shows "ones_sum acc par xs < 65536 \<and> ones_sum acc par xs mod 65535 = (acc + be_sum par xs) mod 65535 \<and>
    (ones_sum acc par xs = 0 \<longleftrightarrow> acc + be_sum par xs = 0)"
  using assms
proof (induction acc par xs rule: ones_sum.induct)
  case (2 acc par x xs)
  define w where "w = (if par then unat x else 256 * unat x)"
  have "unat x < 256"
    using unat_less_2pow [of x] by simp
  then have "w < 65536"
    by (simp add: w_def)
  note a = ones_add_spec [OF "2.prems" this]
  have "(ones_add acc w + be_sum (\<not> par) xs) mod 65535 = (acc + w + be_sum (\<not> par) xs) mod 65535"
    using a(2) by (metis mod_add_left_eq)
  then show ?case
    using "2.IH" [folded w_def, OF a(1)] a(3) by (simp add: w_def [symmetric] add.assoc)
qed simp

lemma residue_unique:
  fixes f g :: nat
  assumes "f < 65536" "g < 65536" "f mod 65535 = g mod 65535" "f = 0 \<longleftrightarrow> g = 0"
  shows "f = g"
proof -
  have "n = 65535 \<or> n mod 65535 = n" if "n < 65536" for n :: nat
    using that by (cases "n = 65535") auto
  then show ?thesis
    using assms by (metis mod_self neq0_conv)
qed

text \<open>
  C40. Adding 16-bit words into a 32-bit accumulator and folding the carries at the end gives the same checksum as adding
  each carry back at once, on every packet short enough for the accumulator.
\<close>

theorem checksum_equals_reference:
  assumes "unat init + be_sum False xs < 2 ^ 32"
  shows "unat (ck_value (ck_add xs (internet_checksum_new init))) =
    65535 - ones_sum (ones_add (unat init div 65536) (unat init mod 65536)) False xs"
proof -
  let ?n = "unat init + be_sum False xs" and ?r = "ck_sum (ck_add xs (internet_checksum_new init))"
  let ?a = "ones_add (unat init div 65536) (unat init mod 65536)"
  have r: "unat ?r = ?n"
    using ck_add_sum [of "internet_checksum_new init" xs] assms by (simp add: internet_checksum_new_def)
  have i: "unat init < 2 ^ 32"
    using unat_less_2pow [of init] by simp
  then have "unat init div 65536 < 65536"
    by (simp add: less_mult_imp_div_less)
  note a = ones_add_spec [OF this, of "unat init mod 65536"]
  have am: "?a mod 65535 = unat init mod 65535"
  proof -
    have "unat init = unat init div 65536 + unat init mod 65536 + (unat init div 65536) * 65535"
      using div_mult_mod_eq [of "unat init" 65536] by simp
    then show ?thesis
      using a(2) by (metis mod_mult_self1 mod_less_divisor zero_less_numeral)
  qed
  then have "(?a + be_sum False xs) mod 65535 = ?n mod 65535"
    by (metis mod_add_left_eq)
  then have s: "ones_sum ?a False xs < 65536" "ones_sum ?a False xs mod 65535 = ?n mod 65535"
    "ones_sum ?a False xs = 0 \<longleftrightarrow> ?n = 0"
    using ones_sum_spec [of ?a False xs] a by auto
  have z: "unat (w :: u32) = 0 \<longleftrightarrow> w = 0" for w
    by (simp add: word_unat_eq_iff)
  have "unat (ck_fold ?r) = 0 \<longleftrightarrow> ?n = 0" "unat (ck_fold ?r) < 65536" "unat (ck_fold ?r) mod 65535 = ?n mod 65535"
    unfolding r [symmetric] z using ck_fold_spec [of ?r] by simp_all
  then have "ones_sum ?a False xs = unat (ck_fold ?r)"
    by (intro residue_unique [OF s(1)]) (simp_all only: s)
  then show ?thesis
    by (simp add: ck_value_fold)
qed

theorem checksum_equals_reference_witness:
  "unat (ck_value (ck_add [0xff, 0xff, 0x80, 1, 7] (internet_checksum_new 0x12345))) =
     65535 - ones_sum (ones_add 1 0x2345) False [0xff, 0xff, 0x80, 1, 7]"
  using checksum_equals_reference [of "0x12345" "[0xff, 0xff, 0x80, 1, 7]"] by simp

end
