(* ===== verification/Wrapping_Integers.thy ===== *)
theory Wrapping_Integers
  imports Sponge_Prelude
begin

text \<open>
  The 32-bit sequence numbers of \<open>libsponge/wrapping_integers.hh\<close> and
  \<open>libsponge/wrapping_integers.cc\<close>: the class \<open>WrappingInt32\<close>, its operators, and the two
  conversions between a 32-bit number relative to an initial sequence number and a 64-bit
  absolute one. All arithmetic is on words of the source's widths.
\<close>

section \<open>The class and its operators\<close>

type_synonym wrapping_int32 = u32

definition raw_value :: "wrapping_int32 \<Rightarrow> u32" where
  "raw_value a = a"

text \<open>\<open>operator-\<close> on two wrapping integers returns an \<open>int32_t\<close>, the signed reading of the difference.\<close>

definition wi_diff :: "wrapping_int32 \<Rightarrow> wrapping_int32 \<Rightarrow> int" where
  "wi_diff a b = sint (raw_value a - raw_value b)"

definition wi_eq :: "wrapping_int32 \<Rightarrow> wrapping_int32 \<Rightarrow> bool" where
  "wi_eq a b \<longleftrightarrow> raw_value a = raw_value b"

definition wi_neq :: "wrapping_int32 \<Rightarrow> wrapping_int32 \<Rightarrow> bool" where
  "wi_neq a b \<longleftrightarrow> \<not> wi_eq a b"

definition wi_plus :: "wrapping_int32 \<Rightarrow> u32 \<Rightarrow> wrapping_int32" where
  "wi_plus a b = raw_value a + b"

definition wi_minus :: "wrapping_int32 \<Rightarrow> u32 \<Rightarrow> wrapping_int32" where
  "wi_minus a b = wi_plus a (- b)"

section \<open>Conversions\<close>

definition wrap :: "u64 \<Rightarrow> wrapping_int32 \<Rightarrow> wrapping_int32" where
  "wrap n isn =
     (let loop = push_bit 32 (1 :: u64);
          additive = n mod loop;
          additive' = ucast (ucast additive :: u32) :: u64
      in wi_plus isn (ucast additive'))"

definition unwrap :: "wrapping_int32 \<Rightarrow> wrapping_int32 \<Rightarrow> u64 \<Rightarrow> u64" where
  "unwrap n isn checkpoint =
     (let wrapcheckpoint = wrap checkpoint isn;
          distance = word_of_int (wi_diff n wrapcheckpoint) :: u32
      in if distance < push_bit 31 1
         then checkpoint + ucast distance
         else let temp_ans = checkpoint - (push_bit 32 1 - ucast distance)
              in if temp_ans > checkpoint then checkpoint + ucast distance else temp_ans)"

section \<open>Their numeric meaning\<close>

lemma wrap_eq: "wrap n isn = isn + ucast n"
proof -
  have "ucast (n mod 4294967296 :: u64) = (ucast n :: u32)"
    by (simp add: word_unat_eq_iff unat_ucast_mod unat_mod)
  moreover have "ucast (ucast (x :: u64) :: u64) = (ucast x :: u32)"
    and "ucast (ucast (y :: u32) :: u64) = y" for x :: u64 and y
    using unat_less_2pow [of y]
    by (simp_all add: word_unat_eq_iff unat_ucast_mod [where 'c = 32] unat_ucast_up)
  ultimately show ?thesis
    by (simp add: wrap_def wi_plus_def raw_value_def)
qed

lemma unat_wrap: "unat (wrap n isn) = (unat isn + unat n) mod 2 ^ 32"
  by (simp add: wrap_eq unat_word_ariths unat_ucast_mod mod_add_right_eq)

lemma wi_diff_word: "word_of_int (wi_diff a b) = a - b"
  by (simp add: wi_diff_def raw_value_def)

text \<open>
  The distance from the wrapped checkpoint to \<open>n\<close> leads from the checkpoint to a number
  that wraps to \<open>n\<close>.
\<close>

lemma wrap_distance: "wrap (c + ucast (n - wrap c isn)) isn = n"
proof -
  have "ucast (c + ucast d :: u64) = (ucast c + d :: u32)" for d :: u32
    by (simp add: word_unat_eq_iff unat_ucast_mod [where 'c = 32] unat_ucast_up unat_word_ariths mod_mod_cancel
        mod_add_left_eq)
  then show ?thesis
    by (simp add: wrap_eq)
qed

lemma unwrap_eq:
  "unwrap n isn c =
     (let d = n - wrap c isn
      in if unat d < 2 ^ 31 then c + ucast d
         else if unat c < 2 ^ 32 - unat d then c + ucast d
         else c + ucast d - 4294967296)"
proof -
  define d where "d = n - wrap c isn"
  have b: "unat d < 2 ^ 32" "unat c < 2 ^ 64"
    using unat_less_2pow [of d] unat_less_2pow [of c] by simp_all
  have u: "unat (4294967296 - ucast d :: u64) = 2 ^ 32 - unat d"
    using b by (simp add: unat_sub_if' unat_ucast_up)
  have "c < c - (4294967296 - ucast d :: u64) \<longleftrightarrow> unat c < 2 ^ 32 - unat d"
    using b by (auto simp: word_less_nat_alt unat_sub_if' [of c] u)
  moreover have "d < 2147483648 \<longleftrightarrow> unat d < 2 ^ 31"
    by (simp add: word_less_nat_alt)
  ultimately show ?thesis
    by (simp add: unwrap_def wi_diff_word Let_def d_def)
qed


lemma ucast_diff_u32: "ucast (m - k :: u64) = (ucast m - ucast k :: u32)"
proof transfer
  fix m k :: int
  have "take_bit 32 (take_bit 64 m - take_bit 64 k) =
      take_bit 32 (take_bit 32 (take_bit 64 m) - take_bit 32 (take_bit 64 k))"
    by (simp only: take_bit_diff)
  also have "\<dots> = take_bit 32 (m - k)"
    by (simp add: take_bit_diff)
  finally show "take_bit LENGTH(32) (take_bit LENGTH(64) (m - k)) =
      take_bit LENGTH(32) (take_bit LENGTH(64) m - take_bit LENGTH(64) k)"
    by simp
qed

lemma wrap_minus_loop: "wrap (m - 4294967296) isn = wrap m isn"
  by (simp add: wrap_eq ucast_diff_u32)

text \<open>Two absolute numbers with the same wrapped form are congruent modulo \<open>2 ^ 32\<close>.\<close>

lemma wrap_eq_iff: "wrap m isn = wrap n isn \<longleftrightarrow> unat m mod 2 ^ 32 = unat n mod 2 ^ 32"
  by (simp add: wrap_eq word_unat_eq_iff [of "ucast m"] unat_ucast_mod)

lemma unat_unwrap_cong: "unat (unwrap (wrap m isn) isn c) mod 2 ^ 32 = unat m mod 2 ^ 32"
proof -
  have "wrap (unwrap (wrap m isn) isn c) isn = wrap m isn"
    using wrap_distance [of c "wrap m isn" isn]
    by (simp add: unwrap_eq Let_def wrap_minus_loop)
  then show ?thesis
    by (simp add: wrap_eq_iff)
qed

text \<open>
  The exact result. The only case in which it is not the nearest number is an addition that leaves 64 bits.
\<close>

definition unwrap_overflows :: "wrapping_int32 \<Rightarrow> wrapping_int32 \<Rightarrow> u64 \<Rightarrow> bool" where
  "unwrap_overflows n isn c \<longleftrightarrow> unat (n - wrap c isn) < 2 ^ 31 \<and> 2 ^ 64 \<le> unat c + unat (n - wrap c isn)"

lemma unat_unwrap_full:
  assumes d: "d = unat (n - wrap c isn)"
  shows "unat (unwrap n isn c) =
     (if d < 2 ^ 31 then (if unat c + d < 2 ^ 64 then unat c + d else unat c + d - 2 ^ 64)
      else if unat c + d < 2 ^ 32 then unat c + d else unat c + d - 2 ^ 32)"
proof -
  define w where "w = n - wrap c isn"
  have b: "unat w < 2 ^ 32" "unat c < 2 ^ 64" and dw: "d = unat w"
    using unat_less_2pow [of w] unat_less_2pow [of c] d by (simp_all add: w_def)
  have s: "unat (c + ucast w :: u64) = (if unat c + d < 2 ^ 64 then unat c + d else unat c + d - 2 ^ 64)"
    using b unfolding dw by (simp add: unat_word_ariths unat_ucast_up mod_if)
  have m: "unat (c + ucast w - 4294967296 :: u64) = unat c + d - 2 ^ 32" if "2 ^ 32 \<le> unat c + d" "2 ^ 31 \<le> d"
  proof -
    have "4294967296 - ucast w = (word_of_nat (2 ^ 32 - d) :: u64)"
      using b unfolding dw by (simp add: word_unat_eq_iff unat_sub_if' unat_ucast_up unat_of_nat)
    then have "c + ucast w - 4294967296 = c - word_of_nat (2 ^ 32 - d)"
      by (simp add: algebra_simps)
    moreover have "unat (word_of_nat (2 ^ 32 - d) :: u64) = 2 ^ 32 - d"
      by (simp add: unat_of_nat)
    ultimately have "unat (c + ucast w - 4294967296) = unat c - (2 ^ 32 - d)"
      using that by (simp only: unat_sub_if') simp
    then show ?thesis
      using that b(1) dw by simp
  qed
  have e: "unwrap n isn c =
      (if d < 2 ^ 31 then c + ucast w else if unat c < 2 ^ 32 - d then c + ucast w
       else c + ucast w - 4294967296)"
    unfolding unwrap_eq Let_def dw w_def by (rule refl)
  have "unat c < 2 ^ 32 - d \<longleftrightarrow> unat c + d < 2 ^ 32"
    by arith
  then show ?thesis
    unfolding e using s m by auto
qed

lemma unwrap_near_checkpoint:
  assumes "\<not> unwrap_overflows n isn c" and r: "r = unat (unwrap n isn c)"
  shows "r < unat c + 2 ^ 31 \<and> unat c \<le> r + 2 ^ 31 \<or> unat c < 2 ^ 31 \<and> r < 2 ^ 32 \<and> unat c \<le> r"
proof -
  define d where "d = unat (n - wrap c isn)"
  have "d < 2 ^ 32"
    using unat_less_2pow [of "n - wrap c isn"] by (simp add: d_def)
  then show ?thesis
    using assms(1) unfolding unwrap_overflows_def r unat_unwrap_full [OF d_def] d_def [symmetric]
    by (simp split: if_split) linarith
qed

lemma wrap_unwrap: "wrap (unwrap n isn c) isn = n"
  using wrap_distance [of c n isn] by (simp add: unwrap_eq Let_def wrap_minus_loop)

text \<open>A number that overflows is almost a whole round away, and the one a loop below the checkpoint is nearer.\<close>

lemma unwrap_overflow_far:
  assumes "unwrap_overflows n isn c"
  shows "\<exists>m. wrap m isn = n \<and> \<bar>int (unat m) - int (unat c)\<bar> < \<bar>int (unat (unwrap n isn c)) - int (unat c)\<bar>"
proof -
  define d where "d = unat (n - wrap c isn)"
  have o: "d < 2 ^ 31" "2 ^ 64 \<le> unat c + d" "unat c < 2 ^ 64"
    using assms unat_less_2pow [of c] by (simp_all add: unwrap_overflows_def d_def)
  have r: "unat (unwrap n isn c) = unat c + d - 2 ^ 64"
    using o unfolding unat_unwrap_full [OF d_def] by simp
  have m: "unat (unwrap n isn c - 4294967296) = unat c + d - 2 ^ 32"
    using o by (simp add: unat_sub_if' r)
  show ?thesis
    by (rule exI [of _ "unwrap n isn c - 4294967296"]) (use o r m in \<open>simp add: wrap_minus_loop wrap_unwrap\<close>)
qed

lemma unat_wrap_diff: "unat (wrap n isn - wrap c isn) = unat (n - c) mod 2 ^ 32"
proof -
  have "wrap n isn - wrap c isn = ucast (n - c)"
    by (simp add: wrap_eq ucast_diff_u32)
  then show ?thesis
    by (simp add: unat_ucast_mod)
qed

lemma unwrap_wrap_aux:
  assumes n: "unat n < unat c + 2 ^ 31" and c: "unat c \<le> unat n + 2 ^ 31"
  shows "unwrap (wrap n isn) isn c = n"
proof -
  have b: "unat n < 2 ^ 64" "unat c < 2 ^ 64"
    using unat_less_2pow [of n] unat_less_2pow [of c] by simp_all
  have o: "\<not> unwrap_overflows (wrap n isn) isn c"
  proof (cases "unat c \<le> unat n")
    case True
    then have "unat (n - c) = unat n - unat c"
      by (simp only: unat_sub_if') simp
    then show ?thesis
      using True n b by (simp add: unwrap_overflows_def unat_wrap_diff)
  next
    case False
    define k where "k = unat c - unat n"
    have k: "0 < k" "k \<le> 2 ^ 31" "unat (n - c) = (2 ^ 32 - k) + (2 ^ 32 - 1) * 2 ^ 32"
      using False c b by (simp_all add: k_def unat_sub_if')
    then have "unat (n - c) mod 2 ^ 32 = 2 ^ 32 - k"
      by (simp only: mod_mult_self1) simp
    then show ?thesis
      using k by (simp add: unwrap_overflows_def unat_wrap_diff)
  qed
  define r where "r = unat (unwrap (wrap n isn) isn c)"
  have "r = unat n"
  proof (rule mod_eq_close [of _ "2 ^ 32"])
    show "r mod 2 ^ 32 = unat n mod 2 ^ 32"
      unfolding r_def by (rule unat_unwrap_cong)
    show "r < unat n + 2 ^ 32" "unat n < r + 2 ^ 32"
      using unwrap_near_checkpoint [OF o r_def] n c by auto
  qed
  then show ?thesis
    by (simp add: word_unat_eq_iff r_def)
qed

lemma window_closest:
  fixes r c m :: nat
  assumes "r < c + 2 ^ 31 \<and> c \<le> r + 2 ^ 31 \<or> c < 2 ^ 31 \<and> r < 2 ^ 32 \<and> c \<le> r"
    and "m + 2 ^ 32 \<le> r \<or> r + 2 ^ 32 \<le> m"
  shows "\<bar>int r - int c\<bar> \<le> \<bar>int m - int c\<bar>"
  using assms by auto

section \<open>Correctness\<close>

text \<open>
  C10. \<open>unwrap\<close> inverts \<open>wrap\<close>: an absolute sequence number that lies within \<open>2 ^ 31\<close> of the
  checkpoint is recovered exactly from its 32-bit form, for every initial sequence number.
\<close>

theorem unwrap_wrap:
  assumes "unat n < unat c + 2 ^ 31" and "unat c \<le> unat n + 2 ^ 31"
  shows "unwrap (wrap n isn) isn c = n"
  using assms by (rule unwrap_wrap_aux)

theorem unwrap_wrap_witness: "unwrap (wrap 10000000000 4294967290) 4294967290 9000000000 = 10000000000"
  by (rule unwrap_wrap) simp_all

text \<open>
  C24. What the comment on \<open>unwrap\<close> promises, and when it holds, for every checkpoint: the result wraps back to \<open>n\<close>, and
  no other absolute sequence number with that 32-bit form is closer to the checkpoint, except exactly when \<open>n\<close> lies less than
  \<open>2 ^ 31\<close> ahead of the checkpoint and adding that distance leaves 64 bits. Then the sum wraps around to a number near 0, and the
  number \<open>2 ^ 32\<close> below the sum would have been closer.
\<close>

theorem unwrap_closest:
  "wrap (unwrap n isn c) isn = n \<and>
    ((\<forall>m. wrap m isn = n \<longrightarrow>
       \<bar>int (unat (unwrap n isn c)) - int (unat c)\<bar> \<le> \<bar>int (unat m) - int (unat c)\<bar>) \<longleftrightarrow>
     \<not> (unat (n - wrap c isn) < 2 ^ 31 \<and> 2 ^ 64 \<le> unat c + unat (n - wrap c isn)))"
proof -
  have "\<bar>int (unat (unwrap n isn c)) - int (unat c)\<bar> \<le> \<bar>int (unat m) - int (unat c)\<bar>"
    if o: "\<not> unwrap_overflows n isn c" and m: "wrap m isn = n" for m
  proof -
    define r where "r = unat (unwrap n isn c)"
    have k: "r mod 2 ^ 32 = unat m mod 2 ^ 32"
      using wrap_unwrap [of n isn c] m unfolding r_def by (metis wrap_eq_iff)
    have far: "unat m + 2 ^ 32 \<le> r \<or> r + 2 ^ 32 \<le> unat m" if "r \<noteq> unat m"
      using that mod_eq_close [OF k] by (meson not_le)
    show ?thesis
    proof (cases "r = unat m")
      case False
      then show ?thesis
        unfolding r_def [symmetric] by (intro window_closest [OF unwrap_near_checkpoint [OF o r_def]] far)
    qed (simp add: r_def)
  qed
  then show ?thesis
    using unwrap_overflow_far [of n isn c] wrap_unwrap [of n isn c]
    unfolding unwrap_overflows_def [symmetric] by (auto simp: not_less [symmetric])
qed

theorem unwrap_closest_witness:
  "\<bar>int (unat (unwrap 5 7 100)) - 100\<bar> \<le> \<bar>int (unat (8589934590 :: u64)) - 100\<bar> \<and>
    (\<exists>m. wrap m 0 = 0 \<and> \<bar>int (unat m) - int (unat (- 1 :: u64))\<bar> < \<bar>int (unat (unwrap 0 0 (- 1))) - int (unat (- 1 :: u64))\<bar>)"
proof
  have "wrap 8589934590 7 = 5" "unat (5 - wrap 100 7) = 4294967194"
    by (simp_all add: wrap_eq word_unat_eq_iff unat_word_ariths unat_ucast_mod)
  then show "\<bar>int (unat (unwrap 5 7 100)) - 100\<bar> \<le> \<bar>int (unat (8589934590 :: u64)) - 100\<bar>"
    using unwrap_closest [of 5 7 100] by auto
  have "0 - wrap (- 1) 0 = 1"
    by code_simp
  moreover have "unat (- 1 :: u64) = 18446744073709551615"
    using unat_sub_if' [of "0 :: u64" 1] by simp
  ultimately have "unat (0 - wrap (- 1) 0) = 1" "unat (- 1 :: u64) = 18446744073709551615"
    by simp_all
  then show "\<exists>m. wrap m 0 = 0 \<and> \<bar>int (unat m) - int (unat (- 1 :: u64))\<bar> < \<bar>int (unat (unwrap 0 0 (- 1))) - int (unat (- 1 :: u64))\<bar>"
    using unwrap_closest [of 0 0 "- 1"] by (auto simp: not_le)
qed

text \<open>Adding to an absolute number adds to its wrapped form; the sender and the receiver use this.\<close>

lemma wrap_add: "wrap (n + ucast k) isn = wi_plus (wrap n isn) k"
proof -
  have "ucast (n + ucast k :: u64) = (ucast n + k :: u32)"
    by (simp add: word_unat_eq_iff unat_ucast_mod [where 'c = 32] unat_ucast_up unat_word_ariths
        mod_mod_cancel mod_add_left_eq)
  then show ?thesis
    by (simp add: wrap_eq wi_plus_def raw_value_def)
qed

end
