(* ===== verification/TCP_Segment.thy ===== *)
theory TCP_Segment
  imports Internet_Checksum Wrapping_Integers
begin

text \<open>
  TCP headers and segments: \<open>libsponge/tcp_helpers/tcp_header.hh\<close>, \<open>tcp_header.cc\<close>,
  \<open>tcp_segment.hh\<close> and \<open>tcp_segment.cc\<close>. Parsing and printing of headers are inverse to
  each other, a serialized segment parses back with a checksum that verifies, and what the
  segment parser lets through.
\<close>

section \<open>TCPHeader\<close>

record tcp_header =
  sport :: u16
  dport :: u16
  seqno :: wrapping_int32
  ackno :: wrapping_int32
  doff :: u8
  urg :: bool
  ack :: bool
  psh :: bool
  rst :: bool
  syn :: bool
  fin :: bool
  win :: u16
  cksum :: u16
  uptr :: u16

definition TCPHeader_LENGTH :: nat where
  "TCPHeader_LENGTH = 20"

definition tcp_header_new :: tcp_header where
  "tcp_header_new = \<lparr>sport = 0, dport = 0, seqno = 0, ackno = 0, doff = of_nat (TCPHeader_LENGTH div 4),
     urg = False, ack = False, psh = False, rst = False, syn = False, fin = False,
     win = 0, cksum = 0, uptr = 0\<rparr>"

text \<open>\<open>parse\<close> overwrites every field on every path, so the header it was called on does not matter.\<close>

definition tcp_header_parse :: "net_parser \<Rightarrow> parse_result \<times> tcp_header \<times> net_parser" where
  "tcp_header_parse p =
     (let (sp, p) = np_u16 p;
          (dp, p) = np_u16 p;
          (sq, p) = np_u32 p;
          (ak, p) = np_u32 p;
          (db, p) = np_u8 p;
          (fl, p) = np_u8 p;
          (wn, p) = np_u16 p;
          (ck, p) = np_u16 p;
          (up, p) = np_u16 p;
          h = \<lparr>sport = sp, dport = dp, seqno = sq, ackno = ak, doff = drop_bit 4 db,
               urg = (fl AND 0b100000 \<noteq> 0), ack = (fl AND 0b010000 \<noteq> 0),
               psh = (fl AND 0b001000 \<noteq> 0), rst = (fl AND 0b000100 \<noteq> 0),
               syn = (fl AND 0b000010 \<noteq> 0), fin = (fl AND 0b000001 \<noteq> 0),
               win = wn, cksum = ck, uptr = up\<rparr>
      in if doff h < 5 then (HeaderTooShort, h, p)
         else let p = np_remove_prefix (unat (doff h) * 4 - TCPHeader_LENGTH) p
              in if np_has_error p then (np_error p, h, p) else (NoError, h, p))"

definition tcp_flag_byte :: "tcp_header \<Rightarrow> u8" where
  "tcp_flag_byte h =
     (if urg h then 0b100000 else 0) OR (if ack h then 0b010000 else 0) OR
     (if psh h then 0b001000 else 0) OR (if rst h then 0b000100 else 0) OR
     (if syn h then 0b000010 else 0) OR (if fin h then 0b000001 else 0)"

text \<open>\<open>resize\<close> cuts the string or extends it with zero bytes.\<close>

definition resize :: "nat \<Rightarrow> byte list \<Rightarrow> byte list" where
  "resize n s = take n s @ replicate (n - length s) 0"

definition tcp_header_serialize :: "tcp_header \<Rightarrow> byte list result" where
  "tcp_header_serialize h =
     (if doff h < 5 then Inl (Runtime_Error ''TCP header too short'')
      else let ret = [];
               ret = unparse_u16 ret (sport h);
               ret = unparse_u16 ret (dport h);
               ret = unparse_u32 ret (raw_value (seqno h));
               ret = unparse_u32 ret (raw_value (ackno h));
               ret = unparse_u8 ret (push_bit 4 (doff h));
               ret = unparse_u8 ret (tcp_flag_byte h);
               ret = unparse_u16 ret (win h);
               ret = unparse_u16 ret (cksum h);
               ret = unparse_u16 ret (uptr h)
           in Inr (resize (4 * unat (doff h)) ret))"

definition tcp_header_eq :: "tcp_header \<Rightarrow> tcp_header \<Rightarrow> bool" where
  "tcp_header_eq h other \<longleftrightarrow>
     wi_eq (seqno h) (seqno other) \<and> wi_eq (ackno h) (ackno other) \<and> doff h = doff other \<and>
     urg h = urg other \<and> ack h = ack other \<and> psh h = psh other \<and> rst h = rst other \<and>
     syn h = syn other \<and> fin h = fin other \<and> win h = win other \<and> uptr h = uptr other"

section \<open>TCPSegment\<close>

record tcp_segment =
  header :: tcp_header
  payload :: "byte list"

definition tcp_segment_new :: tcp_segment where
  "tcp_segment_new = \<lparr>header = tcp_header_new, payload = []\<rparr>"

definition tcp_segment_parse :: "byte list \<Rightarrow> u32 \<Rightarrow> tcp_segment \<Rightarrow> parse_result \<times> tcp_segment" where
  "tcp_segment_parse buffer datagram_layer_checksum seg =
     (let check = ck_add buffer (internet_checksum_new datagram_layer_checksum)
      in if ck_value check \<noteq> 0 then (BadChecksum, seg)
         else let (_, h, p) = tcp_header_parse (net_parser_new buffer)
              in (np_error p, seg\<lparr>header := h, payload := np_buffer p\<rparr>))"

definition length_in_sequence_space :: "tcp_segment \<Rightarrow> nat" where
  "length_in_sequence_space seg =
     length (payload seg) + (if syn (header seg) then 1 else 0) + (if fin (header seg) then 1 else 0)"

definition tcp_segment_serialize :: "u32 \<Rightarrow> tcp_segment \<Rightarrow> byte list result" where
  "tcp_segment_serialize datagram_layer_checksum seg =
     (let header_out = (header seg)\<lparr>cksum := 0\<rparr>
      in case tcp_header_serialize header_out of
           Inl e \<Rightarrow> Inl e
         | Inr bytes \<Rightarrow>
             let check = ck_add (payload seg) (ck_add bytes (internet_checksum_new datagram_layer_checksum));
                 header_out = header_out\<lparr>cksum := ck_value check\<rparr>
             in case tcp_header_serialize header_out of
                  Inl e \<Rightarrow> Inl e
                | Inr bytes \<Rightarrow> Inr (bytes @ payload seg))"

lemmas seg_defs [net_defs] = TCPHeader_LENGTH_def tcp_header_new_def tcp_segment_new_def

section \<open>The header codec\<close>

text \<open>The fixed part of a header, field by field, and its padding up to the advertised length.\<close>

definition tcp_fixed_bytes :: "tcp_header \<Rightarrow> byte list" where
  "tcp_fixed_bytes h = u16_bytes (sport h) @ u16_bytes (dport h) @ u32_bytes (seqno h) @
     u32_bytes (ackno h) @ u8_bytes (push_bit 4 (doff h)) @ u8_bytes (tcp_flag_byte h) @
     u16_bytes (win h) @ u16_bytes (cksum h) @ u16_bytes (uptr h)"

lemma length_tcp_fixed_bytes [simp]: "length (tcp_fixed_bytes h) = 20"
  by (simp add: tcp_fixed_bytes_def)

lemma tcp_header_serialize_eq:
  assumes "5 \<le> doff h"
  shows "tcp_header_serialize h =
    Inr (tcp_fixed_bytes h @ replicate (4 * unat (doff h) - 20) 0)"
proof -
  have "5 \<le> unat (doff h)"
    using assms by (simp add: word_le_nat_alt)
  then show ?thesis
    using assms by (simp add: tcp_header_serialize_def resize_def tcp_fixed_bytes_def Let_def
        raw_value_def not_less)
qed

lemma tcp_segment_serialize_length:
  assumes "5 \<le> doff (header seg)" "tcp_segment_serialize c seg = Inr bytes"
  shows "length bytes = 4 * unat (doff (header seg)) + length (payload seg)"
proof -
  have "5 \<le> unat (doff (header seg))"
    using assms(1) by (simp add: word_le_nat_alt)
  then show ?thesis
    using assms by (auto simp: tcp_segment_serialize_def tcp_header_serialize_eq Let_def)
qed

lemma flag_byte_flags [simp]:
  "(tcp_flag_byte h AND 0b100000 \<noteq> 0) = urg h" "(tcp_flag_byte h AND 0b010000 \<noteq> 0) = ack h"
  "(tcp_flag_byte h AND 0b001000 \<noteq> 0) = psh h" "(tcp_flag_byte h AND 0b000100 \<noteq> 0) = rst h"
  "(tcp_flag_byte h AND 0b000010 \<noteq> 0) = syn h" "(tcp_flag_byte h AND 0b000001 \<noteq> 0) = fin h"
  by (simp_all add: tcp_flag_byte_def)

lemma doff_nibble: "d < 16 \<Longrightarrow> drop_bit 4 (push_bit 4 d :: u8) = d"
proof -
  assume "d < 16"
  then have "unat d < 16"
    by (simp add: word_less_nat_alt)
  then show ?thesis
    by (simp add: word_unat_eq_iff push_bit_eq_mult drop_bit_eq_div unat_div unat_word_ariths)
qed

lemma tcp_header_parse_bytes:
  assumes "5 \<le> doff h" "doff h < 16" "length pad = 4 * unat (doff h) - 20"
  shows "tcp_header_parse (net_parser_new (tcp_fixed_bytes h @ pad @ rest)) =
    (NoError, h, \<lparr>np_buffer = rest, np_error = NoError\<rparr>)"
  using assms np_remove_prefix_ok [of pad rest]
  by (simp add: tcp_header_parse_def tcp_fixed_bytes_def net_parser_new_def field_dec_enc
      doff_nibble not_less TCPHeader_LENGTH_def mult.commute Let_def np_has_error_def)

text \<open>What the header parser consumes of an arbitrary buffer, and the data offset it reads.\<close>

lemma tcp_header_parse_any:
  assumes r: "tcp_header_parse (net_parser_new b) = (r, h, p)"
  shows "np_after b (20 + (if doff h < 5 then 0 else unat (doff h) * 4 - 20)) p"
    "20 \<le> length b \<Longrightarrow> doff h = drop_bit 4 (b ! 12)"
    "r = (if doff h < 5 then HeaderTooShort else np_error p)"
proof -
  obtain v1 p1 v2 p2 v3 p3 v4 p4 v5 p5 v6 p6 v7 p7 v8 p8 v9 p9 where
    d: "np_u16 (net_parser_new b) = (v1, p1)" "np_u16 p1 = (v2, p2)" "np_u32 p2 = (v3, p3)"
      "np_u32 p3 = (v4, p4)" "np_u8 p4 = (v5, p5)" "np_u8 p5 = (v6, p6)" "np_u16 p6 = (v7, p7)"
      "np_u16 p7 = (v8, p8)" "np_u16 p8 = (v9, p9)"
    by (metis surj_pair)
  note a1 = f16.dec_after(1) [OF np_after_new d(1)]
  note a2 = f16.dec_after(1) [OF a1 d(2)]
  note a3 = f32.dec_after(1) [OF a2 d(3)]
  note a4 = f32.dec_after(1) [OF a3 d(4)]
  note a5 = f8.dec_after [OF a4 d(5)]
  note a9 = f16.dec_after(1) [OF f16.dec_after(1) [OF f16.dec_after(1) [OF
        f8.dec_after(1) [OF a5(1) d(6)] d(7)] d(8)] d(9)]
  have "doff h = drop_bit 4 v5" and "p = (if doff h < 5 then p9
      else np_remove_prefix (unat (doff h) * 4 - 20) p9)"
    and "r = (if doff h < 5 then HeaderTooShort else np_error p)"
    using r by (auto simp: tcp_header_parse_def d Let_def TCPHeader_LENGTH_def np_has_error_def
        split: if_splits)
  moreover have "20 \<le> length b \<Longrightarrow> v5 = b ! 12"
    using a5(2) by (auto simp: u8_bytes_def piece_def take_Suc_conv_app_nth numeral_eq_Suc Cons_nth_drop_Suc)
  ultimately show "np_after b (20 + (if doff h < 5 then 0 else unat (doff h) * 4 - 20)) p"
    "20 \<le> length b \<Longrightarrow> doff h = drop_bit 4 (b ! 12)"
    "r = (if doff h < 5 then HeaderTooShort else np_error p)"
    using a9 np_after_remove_prefix [of b 20 p9 "unat (doff h) * 4 - 20"] by auto
qed

lemma be_sum_bound: "be_sum p xs \<le> 65280 * length xs"
proof (induction xs arbitrary: p)
  case (Cons x xs)
  have "unat x < 256"
    using unat_less_2pow [of x] by simp
  then show ?case
    using Cons [of "\<not> p"] by (cases p) simp_all
qed simp

lemma tcp_fixed_bytes_cksum:
  "tcp_fixed_bytes (h\<lparr>cksum := v\<rparr>) = take 16 (tcp_fixed_bytes h) @ u16_bytes v @ u16_bytes (uptr h)"
  by (simp add: tcp_fixed_bytes_def tcp_flag_byte_def)

lemma ck_add_append [simp]: "ck_add ys (ck_add xs c) = ck_add (xs @ ys) c"
  by (simp add: ck_add_def)

lemma tcp_segment_roundtrip_aux:
  assumes d: "5 \<le> doff (header seg)" "doff (header seg) < 16"
    and len: "4 * unat (doff (header seg)) + length (payload seg) \<le> 65535" and c: "unat c < 2 ^ 23"
  shows "\<exists>bytes v. tcp_segment_serialize c seg = Inr bytes \<and>
    tcp_segment_parse bytes c seg0 =
      (NoError, seg0\<lparr>header := (header seg)\<lparr>cksum := v\<rparr>, payload := payload seg\<rparr>)"
proof -
  let ?h = "header seg" and ?pad = "replicate (4 * unat (doff (header seg)) - 20) (0 :: byte)"
  let ?pre = "take 16 (tcp_fixed_bytes (header seg))" and ?post = "u16_bytes (uptr ?h) @ ?pad @ payload seg"
  have d5: "5 \<le> unat (doff ?h)"
    using d(1) by (simp add: word_le_nat_alt)
  define v where "v = ck_value (ck_add (?pre @ [0, 0] @ ?post) (internet_checksum_new c))"
  let ?out = "?pre @ u16_bytes v @ ?post"
  have zero: "u16_bytes 0 = [0, 0]"
    by (simp add: u16_bytes_def)
  have ser: "tcp_segment_serialize c seg = Inr ?out"
    using d(1) tcp_header_serialize_eq [of "?h\<lparr>cksum := 0\<rparr>"] tcp_header_serialize_eq [of "?h\<lparr>cksum := v\<rparr>"]
    by (simp add: tcp_segment_serialize_def Let_def tcp_fixed_bytes_cksum v_def zero)
  have "unat c + be_sum False (?pre @ [0, 0] @ ?post) + 65535 < 2 ^ 32"
    using be_sum_bound [of False "?pre @ [0, 0] @ ?post"] len c d5 by simp
  then have "ck_value (ck_add ?out (internet_checksum_new c)) = 0"
    by (intro checksum_verifies_aux [OF _ _ v_def]) simp_all
  moreover have "tcp_header_parse (net_parser_new ?out) =
      (NoError, ?h\<lparr>cksum := v\<rparr>, \<lparr>np_buffer = payload seg, np_error = NoError\<rparr>)"
    using tcp_header_parse_bytes [of "?h\<lparr>cksum := v\<rparr>" ?pad "payload seg"] d
    by (simp add: tcp_fixed_bytes_cksum)
  ultimately show ?thesis
    using ser by (auto simp: tcp_segment_parse_def Let_def)
qed

section \<open>Properties\<close>

text \<open>
  The header printer and the header parser are inverse: a header with a data offset
  between 5 and 15 words is printed as that many words, and parsing the bytes, whatever
  follows them, gives back every field and leaves exactly what follows.
\<close>

theorem tcp_header_roundtrip:
  assumes "5 \<le> doff h" "doff h < 16"
  shows "\<exists>bytes. tcp_header_serialize h = Inr bytes \<and> length bytes = 4 * unat (doff h) \<and>
    tcp_header_parse (net_parser_new (bytes @ rest)) = (NoError, h, \<lparr>np_buffer = rest, np_error = NoError\<rparr>)"
proof -
  have "5 \<le> unat (doff h)"
    using assms(1) by (simp add: word_le_nat_alt)
  then show ?thesis
    using tcp_header_serialize_eq [OF assms(1)]
      tcp_header_parse_bytes [OF assms, of "replicate (4 * unat (doff h) - 20) 0" rest]
    by simp
qed

theorem tcp_header_roundtrip_witness:
  "\<exists>bytes. tcp_header_serialize (tcp_header_new\<lparr>syn := True, win := 4000\<rparr>) = Inr bytes \<and>
     length bytes = 20"
  using tcp_header_roundtrip [of "tcp_header_new\<lparr>syn := True, win := 4000\<rparr>" "[]"]
  by (auto simp: net_defs)

text \<open>
  C29. A segment survives the wire: serialized over a pseudo-header sum and parsed with the same
  sum, it verifies and comes back with all its fields and its payload; only the checksum
  field has been filled in. The segment is at most 65535 bytes long, so no sum overflows.
\<close>

theorem tcp_segment_roundtrip:
  assumes d: "5 \<le> doff (header seg)" "doff (header seg) < 16"
    and len: "4 * unat (doff (header seg)) + length (payload seg) \<le> 65535" and c: "unat c < 2 ^ 23"
  shows "\<exists>bytes v. tcp_segment_serialize c seg = Inr bytes \<and>
    tcp_segment_parse bytes c seg0 =
      (NoError, seg0\<lparr>header := (header seg)\<lparr>cksum := v\<rparr>, payload := payload seg\<rparr>)"
  by (rule tcp_segment_roundtrip_aux [OF assms])

theorem tcp_segment_roundtrip_witness:
  "\<exists>bytes v. tcp_segment_serialize 99 \<lparr>header = tcp_header_new, payload = [1, 2, 3]\<rparr> = Inr bytes \<and>
     tcp_segment_parse bytes 99 tcp_segment_new =
       (NoError, \<lparr>header = tcp_header_new\<lparr>cksum := v\<rparr>, payload = [1, 2, 3]\<rparr>)"
  using tcp_segment_roundtrip [of "\<lparr>header = tcp_header_new, payload = [1, 2, 3]\<rparr>" 99 tcp_segment_new]
  by (auto simp: net_defs)

text \<open>The fields of a header, against the bytes it was read from.\<close>

definition tcp_fields :: "byte list \<Rightarrow> tcp_header \<Rightarrow> bool" where
  "tcp_fields b h \<longleftrightarrow>
     u16_bytes (sport h) = piece 0 2 b \<and> u16_bytes (dport h) = piece 2 4 b \<and> u32_bytes (seqno h) = piece 4 8 b \<and>
     u32_bytes (ackno h) = piece 8 12 b \<and> doff h = drop_bit 4 (b ! 12) \<and>
     (urg h \<longleftrightarrow> bit (b ! 13) 5) \<and> (ack h \<longleftrightarrow> bit (b ! 13) 4) \<and> (psh h \<longleftrightarrow> bit (b ! 13) 3) \<and>
     (rst h \<longleftrightarrow> bit (b ! 13) 2) \<and> (syn h \<longleftrightarrow> bit (b ! 13) 1) \<and> (fin h \<longleftrightarrow> bit (b ! 13) 0) \<and>
     u16_bytes (win h) = piece 14 16 b \<and> u16_bytes (cksum h) = piece 16 18 b \<and> u16_bytes (uptr h) = piece 18 20 b"

lemma flag_bit: "(v :: u8) AND 2 ^ n \<noteq> 0 \<longleftrightarrow> bit v n"
  by (simp add: bit_iff_and_push_bit_not_eq_0 push_bit_eq_mult)

lemma piece_byte: "i < length b \<Longrightarrow> u8_bytes v = piece i (i + 1) b \<Longrightarrow> v = b ! i"
  by (simp add: u8_bytes_def piece_def take_Suc_conv_app_nth Cons_nth_drop_Suc [symmetric])

lemma tcp_header_parse_fields:
  assumes r: "tcp_header_parse (net_parser_new b) = (r, h, p)" and l: "20 \<le> length b"
  shows "tcp_fields b h"
proof -
  obtain v1 p1 v2 p2 v3 p3 v4 p4 v5 p5 v6 p6 v7 p7 v8 p8 v9 p9 where
    d: "np_u16 (net_parser_new b) = (v1, p1)" "np_u16 p1 = (v2, p2)" "np_u32 p2 = (v3, p3)"
      "np_u32 p3 = (v4, p4)" "np_u8 p4 = (v5, p5)" "np_u8 p5 = (v6, p6)" "np_u16 p6 = (v7, p7)"
      "np_u16 p7 = (v8, p8)" "np_u16 p8 = (v9, p9)"
    by (metis surj_pair)
  note a1 = f16.dec_after [OF np_after_new d(1)]
  note a2 = f16.dec_after [OF a1(1) d(2)]
  note a3 = f32.dec_after [OF a2(1) d(3)]
  note a4 = f32.dec_after [OF a3(1) d(4)]
  note a5 = f8.dec_after [OF a4(1) d(5)]
  note a6 = f8.dec_after [OF a5(1) d(6)]
  note a7 = f16.dec_after [OF a6(1) d(7)]
  note a8 = f16.dec_after [OF a7(1) d(8)]
  note a9 = f16.dec_after [OF a8(1) d(9)]
  have h: "h = \<lparr>sport = v1, dport = v2, seqno = v3, ackno = v4, doff = drop_bit 4 v5,
               urg = (v6 AND 0b100000 \<noteq> 0), ack = (v6 AND 0b010000 \<noteq> 0),
               psh = (v6 AND 0b001000 \<noteq> 0), rst = (v6 AND 0b000100 \<noteq> 0),
               syn = (v6 AND 0b000010 \<noteq> 0), fin = (v6 AND 0b000001 \<noteq> 0),
               win = v7, cksum = v8, uptr = v9\<rparr>"
    using r by (auto simp: tcp_header_parse_def d Let_def split: if_splits)
  have v: "v5 = b ! 12" "v6 = b ! 13"
    using piece_byte [of 12 b v5] piece_byte [of 13 b v6] a5(2) a6(2) l by simp_all
  have "u16_bytes v1 = piece 0 2 b" "u16_bytes v2 = piece 2 4 b" "u32_bytes v3 = piece 4 8 b" "u32_bytes v4 = piece 8 12 b"
    "u16_bytes v7 = piece 14 16 b" "u16_bytes v8 = piece 16 18 b" "u16_bytes v9 = piece 18 20 b"
    using l a1(2) a2(2) a3(2) a4(2) a7(2) a8(2) a9(2) by (simp_all add: eval_nat_numeral)
  moreover have "(b ! 13 AND 32 \<noteq> 0) = bit (b ! 13) 5" "(b ! 13 AND 16 \<noteq> 0) = bit (b ! 13) 4" "(b ! 13 AND 8 \<noteq> 0) = bit (b ! 13) 3"
    "(b ! 13 AND 4 \<noteq> 0) = bit (b ! 13) 2" "(b ! 13 AND 2 \<noteq> 0) = bit (b ! 13) 1" "(b ! 13 AND 1 \<noteq> 0) = bit (b ! 13) 0"
    using flag_bit [of "b ! 13" 5] flag_bit [of "b ! 13" 4] flag_bit [of "b ! 13" 3] flag_bit [of "b ! 13" 2] flag_bit [of "b ! 13" 1]
      flag_bit [of "b ! 13" 0] by simp_all
  ultimately show ?thesis
    by (simp add: tcp_fields_def h v)
qed

text \<open>
  C30. What parsing arbitrary bytes as a segment does: a bad checksum wins and leaves the segment
  as it was, then a buffer shorter than 20 bytes or than its data offset is too short. From 20
  bytes on every field of the header is the one at its place in the buffer, and without an error
  the payload is what follows the header and its options. A data offset below the minimum is
  not an error: the header parser reports it, the segment parser drops the report, and the
  payload starts after 20 bytes.
\<close>

theorem tcp_segment_parse_result:
  "let (res, seg') = tcp_segment_parse b c seg; words = unat (drop_bit 4 (b ! 12) :: u8)
   in if ck_value (ck_add b (internet_checksum_new c)) \<noteq> 0 then res = BadChecksum \<and> seg' = seg
      else if length b < 20 then res = PacketTooShort
      else tcp_fields b (header seg') \<and>
        (if 5 \<le> words \<and> length b < 4 * words then res = PacketTooShort
         else res = NoError \<and> payload seg' = drop (max 20 (4 * words)) b)"
proof -
  obtain r h p where t: "tcp_header_parse (net_parser_new b) = (r, h, p)"
    by (metis surj_pair)
  have n: "doff h < 5 \<longleftrightarrow> unat (doff h) < 5"
    by (simp add: word_less_nat_alt)
  show ?thesis
    using tcp_header_parse_any(1,2) [OF t] tcp_header_parse_fields [OF t] unfolding n
    by (auto simp: tcp_segment_parse_def t Let_def np_after_def max_def mult.commute split: if_splits)
qed

end
