(* ===== verification/TCP_Receiver.thy ===== *)
theory TCP_Receiver
  imports Reassembler_Correct TCP_Segment
begin

text \<open>
  The receiver of \<open>libsponge/tcp_receiver.hh\<close> and \<open>libsponge/tcp_receiver.cc\<close>. A segment
  of the peer's stream, in whatever order it arrives, keeps the reassembled bytes a prefix of
  that stream; the acknowledgment number is the first missing position, and the right edge of
  the advertised window never moves left.
\<close>

section \<open>The receiver\<close>

record tcp_receiver =
  rcv_reassembler :: reassembler
  rcv_capacity :: nat
  rcv_isn :: wrapping_int32
  rcv_set_isn :: bool

definition tcp_receiver_new :: "nat \<Rightarrow> tcp_receiver" where
  "tcp_receiver_new capacity =
     \<lparr>rcv_reassembler = reassembler_new capacity, rcv_capacity = capacity, rcv_isn = 0,
      rcv_set_isn = False\<rparr>"

definition rcv_stream_out :: "tcp_receiver \<Rightarrow> byte_stream" where
  "rcv_stream_out r = ra_output (rcv_reassembler r)"

definition rcv_segment_received :: "tcp_segment \<Rightarrow> tcp_receiver \<Rightarrow> tcp_receiver" where
  "rcv_segment_received seg r =
     (let h = header seg;
          headerseq = seqno h;
          (r, headerseq) =
            (if syn h
             then (r\<lparr>rcv_isn := seqno h, rcv_set_isn := True\<rparr>, wi_plus headerseq 1)
             else (r, headerseq));
          eof = fin h
      in if rcv_set_isn r
         then let written = bs_bytes_written (rcv_stream_out r);
                  abs_seq_no = unat (unwrap headerseq (rcv_isn r) (of_nat written))
              in if abs_seq_no = 0 \<or> (abs_seq_no > written \<and> abs_seq_no - written > rcv_capacity r)
                 then r
                 else r\<lparr>rcv_reassembler :=
                        push_substring (payload seg) (abs_seq_no - 1) eof (rcv_reassembler r)\<rparr>
         else r)"

definition rcv_ackno :: "tcp_receiver \<Rightarrow> wrapping_int32 option" where
  "rcv_ackno r =
     (if \<not> rcv_set_isn r then None
      else let writtensize = bs_bytes_written (rcv_stream_out r) + 1
           in if bs_input_ended (rcv_stream_out r)
              then Some (wi_plus (rcv_isn r) (of_nat (writtensize + 1)))
              else Some (wi_plus (rcv_isn r) (of_nat writtensize)))"

definition rcv_window_size :: "tcp_receiver \<Rightarrow> nat" where
  "rcv_window_size r = sub64 (rcv_capacity r) (bs_buffer_size (rcv_stream_out r))"

definition rcv_unassembled_bytes :: "tcp_receiver \<Rightarrow> nat" where
  "rcv_unassembled_bytes r = ra_unassembled_bytes (rcv_reassembler r)"

text \<open>The application reads the inbound stream through the reference \<open>stream_out\<close> returns.\<close>

definition rcv_read :: "nat \<Rightarrow> tcp_receiver \<Rightarrow> byte list \<times> tcp_receiver" where
  "rcv_read n r =
     (let (d, b) = bs_read n (rcv_stream_out r)
      in (d, r\<lparr>rcv_reassembler := (rcv_reassembler r)\<lparr>ra_output := b\<rparr>\<rparr>))"

lemmas rcv_op_defs [rcv_defs] = tcp_receiver_new_def rcv_stream_out_def rcv_segment_received_def
  rcv_ackno_def rcv_window_size_def rcv_unassembled_bytes_def rcv_read_def

lemma ucast_u64_of_nat: "ucast (of_nat n :: u64) = (of_nat n :: u32)"
  by (simp add: word_unat_eq_iff unat_ucast_mod unat_of_nat mod_mod_cancel)

section \<open>Segments of a stream\<close>

text \<open>
  The segment is part of the stream \<open>S\<close> that starts with the sequence number \<open>isn\<close>, and \<open>n\<close>
  is its absolute sequence number: the SYN has number 0, byte \<open>i\<close> of \<open>S\<close> number \<open>i + 1\<close> and
  the FIN number \<open>length S + 1\<close>.
\<close>

definition seg_at :: "byte list \<Rightarrow> wrapping_int32 \<Rightarrow> nat \<Rightarrow> tcp_segment \<Rightarrow> bool" where
  "seg_at S isn n seg \<longleftrightarrow>
     seqno (header seg) = wrap (of_nat n) isn \<and> (syn (header seg) \<longleftrightarrow> n = 0) \<and>
     honest S (payload seg) (n - 1) (fin (header seg))"

text \<open>A segment without data and flags says nothing about the stream.\<close>

definition bare :: "tcp_segment \<Rightarrow> bool" where
  "bare seg \<longleftrightarrow> payload seg = [] \<and> \<not> syn (header seg) \<and> \<not> fin (header seg)"

section \<open>The invariant\<close>

definition rcv_inv :: "byte list \<Rightarrow> wrapping_int32 \<Rightarrow> tcp_receiver \<Rightarrow> bool" where
  "rcv_inv S isn r \<longleftrightarrow>
     ra_inv S (rcv_reassembler r) \<and> ra_capacity (rcv_reassembler r) = rcv_capacity r \<and>
     (rcv_set_isn r \<longrightarrow> rcv_isn r = isn)"

abbreviation rcv_written :: "tcp_receiver \<Rightarrow> nat" where
  "rcv_written r \<equiv> bs_writtensize (rcv_stream_out r)"

text \<open>The first stream position past the window; positions below it may be sent.\<close>

definition rcv_edge :: "tcp_receiver \<Rightarrow> nat" where
  "rcv_edge r = bs_readsize (rcv_stream_out r) + rcv_capacity r"

lemma rcv_inv_new: "rcv_inv S isn (tcp_receiver_new c)"
  using ra_inv_new [of S c] by (simp add: rcv_inv_def tcp_receiver_new_def reassembler_new_def)

lemma rcv_inv_written: "rcv_inv S isn r \<Longrightarrow> rcv_written r \<le> length S"
  using ra_inv_room(3) by (auto simp: rcv_inv_def rcv_stream_out_def)

lemma push_bare_inv:
  assumes "ra_inv S r" and r': "r' = push_substring [] i False r"
  shows "ra_inv S r' \<and> bs_readsize (ra_output r') = bs_readsize (ra_output r) \<and>
    ra_capacity r' = ra_capacity r \<and> bs_writtensize (ra_output r) \<le> bs_writtensize (ra_output r') \<and>
    (bs_end (ra_output r) \<longrightarrow> bs_end (ra_output r'))"
proof -
  have i: "insert_to_linklist [] i False r = r"
    by (simp add: insert_to_linklist_def insert_linklist_stop)
  consider "r' = r" | "r' = fetch_valid_data r"
    unfolding r'
    using i push_substring_early [of r i "[]" False] push_substring_old [of i "[]" r False]
      push_substring_whole [of i r "[]" "[]" _ False]
    by (cases "bs_writtensize (ra_output r)" i rule: linorder_cases) auto
  then show ?thesis
    using ra_inv_fetch [OF assms(1)] assms(1) by cases auto
qed

text \<open>The number a segment's position is recovered from, and what is done with it.\<close>

definition rcv_accept :: "tcp_segment \<Rightarrow> nat \<Rightarrow> tcp_receiver \<Rightarrow> tcp_receiver" where
  "rcv_accept seg a r =
     (if a = 0 \<or> rcv_written r + rcv_capacity r < a then r
      else r\<lparr>rcv_reassembler := push_substring (payload seg) (a - 1) (fin (header seg)) (rcv_reassembler r)\<rparr>)"

lemma rcv_segment_received_syn:
  "syn (header seg) \<Longrightarrow> rcv_segment_received seg r =
     rcv_accept seg (unat (unwrap (wi_plus (seqno (header seg)) 1) (seqno (header seg)) (of_nat (rcv_written r))))
       (r\<lparr>rcv_isn := seqno (header seg), rcv_set_isn := True\<rparr>)"
  by (auto simp: rcv_segment_received_def rcv_accept_def Let_def rcv_stream_out_def bs_bytes_written_def)

lemma rcv_segment_received_data:
  "\<not> syn (header seg) \<Longrightarrow> rcv_segment_received seg r =
     (if rcv_set_isn r
      then rcv_accept seg (unat (unwrap (seqno (header seg)) (rcv_isn r) (of_nat (rcv_written r)))) r else r)"
  by (auto simp: rcv_segment_received_def rcv_accept_def Let_def rcv_stream_out_def bs_bytes_written_def)

lemma unwrap_near:
  assumes "c < 2 ^ 31" "n < 2 ^ 31"
  shows "unat (unwrap (wrap (of_nat n) isn) isn (of_nat c)) = n"
proof -
  have "unat (of_nat n :: u64) = n" "unat (of_nat c :: u64) = c"
    using assms by (simp_all add: unat_of_nat_u64)
  moreover from this have "unwrap (wrap (of_nat n) isn) isn (of_nat c) = of_nat n"
    using assms by (intro unwrap_wrap_aux) simp_all
  ultimately show ?thesis
    by simp
qed

lemma wrap_small [simp]: "wrap 0 isn = isn" "wi_plus isn 1 = wrap 1 isn"
  by (simp_all add: wrap_eq wi_plus_def raw_value_def)

text \<open>What a step of the receiver keeps and moves.\<close>

definition rcv_mono :: "tcp_receiver \<Rightarrow> tcp_receiver \<Rightarrow> bool" where
  "rcv_mono r r' \<longleftrightarrow> rcv_edge r \<le> rcv_edge r' \<and> rcv_written r \<le> rcv_written r' \<and>
     rcv_capacity r' = rcv_capacity r \<and> (rcv_set_isn r \<longrightarrow> rcv_set_isn r') \<and>
     (bs_end (rcv_stream_out r) \<longrightarrow> bs_end (rcv_stream_out r'))"

lemma rcv_mono_refl [simp]: "rcv_mono r r"
  by (simp add: rcv_mono_def)

lemma rcv_mono_trans: "rcv_mono a b \<Longrightarrow> rcv_mono b c \<Longrightarrow> rcv_mono a c"
  by (auto simp: rcv_mono_def)

lemma rcv_accept_inv:
  assumes i: "rcv_inv S isn r"
    and seg: "bare seg \<or> honest S (payload seg) (a - 1) (fin (header seg)) \<and>
      (a - 1 + length (payload seg) \<le> rcv_edge r \<or> length (payload seg) \<le> 1)"
  shows "rcv_inv S isn (rcv_accept seg a r) \<and> rcv_mono r (rcv_accept seg a r) \<and>
    bs_readsize (rcv_stream_out (rcv_accept seg a r)) = bs_readsize (rcv_stream_out r)"
proof -
  let ?ra = "rcv_reassembler r"
  define ra where "ra = push_substring (payload seg) (a - 1) (fin (header seg)) ?ra"
  have ri: "ra_inv S ?ra"
    using i by (simp add: rcv_inv_def)
  have "ra_inv S ra \<and> bs_readsize (ra_output ra) = bs_readsize (ra_output ?ra) \<and>
    ra_capacity ra = ra_capacity ?ra \<and> bs_writtensize (ra_output ?ra) \<le> bs_writtensize (ra_output ra) \<and>
    (bs_end (ra_output ?ra) \<longrightarrow> bs_end (ra_output ra))"
    using seg
  proof
    assume "bare seg"
    then have "ra = push_substring [] (a - 1) False ?ra"
      by (simp add: bare_def ra_def)
    then show ?thesis
      by (rule push_bare_inv [OF ri])
  next
    assume h: "honest S (payload seg) (a - 1) (fin (header seg)) \<and>
      (a - 1 + length (payload seg) \<le> rcv_edge r \<or> length (payload seg) \<le> 1)"
    then have "in_window ?ra (payload seg) (a - 1)"
      using i by (simp add: in_window_def rcv_edge_def rcv_stream_out_def rcv_inv_def)
    then show ?thesis
      using push_substring_inv [OF ri conjunct1 [OF h] _ ra_def] by simp
  qed
  moreover have "rcv_accept seg a r = r \<or> rcv_accept seg a r = r\<lparr>rcv_reassembler := ra\<rparr>"
    by (simp add: rcv_accept_def ra_def)
  ultimately show ?thesis
    using i by (auto simp: rcv_inv_def rcv_mono_def rcv_edge_def rcv_stream_out_def)
qed

text \<open>
  The window a segment must respect: its bytes end before the edge, or it is the one byte
  that probes a closed window.
\<close>

definition seg_in_window :: "tcp_receiver \<Rightarrow> nat \<Rightarrow> tcp_segment \<Rightarrow> bool" where
  "seg_in_window r n seg \<longleftrightarrow> n - 1 + length (payload seg) \<le> rcv_edge r \<or> length (payload seg) \<le> 1"

lemma rcv_segment_inv:
  assumes i: "rcv_inv S isn r" and S: "length S + 2 < 2 ^ 31"
    and seg: "bare seg \<or> seg_at S isn n seg \<and> seg_in_window r n seg"
  shows "rcv_inv S isn (rcv_segment_received seg r) \<and> rcv_mono r (rcv_segment_received seg r) \<and>
    bs_readsize (rcv_stream_out (rcv_segment_received seg r)) = bs_readsize (rcv_stream_out r)"
proof (cases "syn (header seg)")
  case True
  then have s: "seg_at S isn 0 seg" "seg_in_window r 0 seg"
    using seg by (auto simp: bare_def seg_at_def)
  define r1 where "r1 = r\<lparr>rcv_isn := isn, rcv_set_isn := True\<rparr>"
  have r1: "rcv_inv S isn r1" "rcv_mono r r1" "rcv_edge r1 = rcv_edge r"
    "bs_readsize (rcv_stream_out r1) = bs_readsize (rcv_stream_out r)"
    using i by (simp_all add: r1_def rcv_inv_def rcv_mono_def rcv_edge_def rcv_stream_out_def)
  have "unat (unwrap (wrap 1 isn) isn (of_nat (rcv_written r))) = 1"
    using unwrap_near [of "rcv_written r" 1 isn] rcv_inv_written [OF i] S by simp
  then have e: "rcv_segment_received seg r = rcv_accept seg 1 r1"
    using True s by (simp add: rcv_segment_received_syn seg_at_def r1_def)
  have "rcv_inv S isn (rcv_accept seg 1 r1) \<and> rcv_mono r1 (rcv_accept seg 1 r1) \<and>
      bs_readsize (rcv_stream_out (rcv_accept seg 1 r1)) = bs_readsize (rcv_stream_out r1)"
    using s r1(3) by (intro rcv_accept_inv [OF r1(1)]) (simp add: seg_at_def seg_in_window_def)
  then show ?thesis
    using rcv_mono_trans [OF r1(2)] r1(4) by (simp add: e)
next
  case False
  show ?thesis
  proof (cases "rcv_set_isn r \<and> \<not> bare seg")
    case True
    then have s: "seg_at S isn n seg" "seg_in_window r n seg" and isn: "rcv_isn r = isn"
      using seg i by (auto simp: rcv_inv_def)
    have "n < 2 ^ 31" "rcv_written r < 2 ^ 31"
      using s(1) S rcv_inv_written [OF i] by (auto simp: seg_at_def honest_def)
    then have "rcv_segment_received seg r = rcv_accept seg n r"
      using True False s(1) isn by (simp add: rcv_segment_received_data seg_at_def unwrap_near)
    then show ?thesis
      using rcv_accept_inv [OF i, of seg n] s by (simp add: seg_at_def seg_in_window_def)
  next
    case b: False
    then show ?thesis
      using i rcv_accept_inv [OF i, of seg] by (auto simp: rcv_segment_received_data [OF False])
  qed
qed

lemma rcv_read_inv:
  assumes i: "rcv_inv S isn r" and r: "rcv_read n r = (d, r')"
  shows "rcv_inv S isn r'" "rcv_mono r r'"
    "take (bs_readsize (rcv_stream_out r)) S @ d = take (bs_readsize (rcv_stream_out r')) S"
proof -
  let ?ra = "rcv_reassembler r"
  have d: "bs_read n (ra_output ?ra) = (d, bs_pop_output n (ra_output ?ra))"
    and r': "r' = r\<lparr>rcv_reassembler := ?ra\<lparr>ra_output := bs_pop_output n (ra_output ?ra)\<rparr>\<rparr>"
    using r by (auto simp: rcv_read_def bs_read_def rcv_stream_out_def)
  have c: "bs_carries S (ra_output ?ra)"
    using i by (simp add: rcv_inv_def ra_inv_def parts_inv_def)
  show "rcv_inv S isn r'" "rcv_mono r r'"
    using i ra_inv_read [of S ?ra n]
    by (simp_all add: r' rcv_inv_def rcv_mono_def rcv_edge_def rcv_stream_out_def)
  show "take (bs_readsize (rcv_stream_out r)) S @ d = take (bs_readsize (rcv_stream_out r')) S"
    using read_extends [OF c d] by (simp add: r' rcv_stream_out_def)
qed

lemma rcv_inv_stream:
  assumes "rcv_inv S isn r"
  shows "take (bs_readsize (rcv_stream_out r)) S @ bs_que (rcv_stream_out r) = take (rcv_written r) S"
    "bs_end (rcv_stream_out r) \<Longrightarrow> rcv_written r = length S"
    "rcv_window_size r + rcv_written r = rcv_edge r"
    "rcv_written r \<le> length S"
proof -
  let ?o = "rcv_stream_out r"
  have i: "bs_carries S ?o" "bs_maximumcapacity ?o = rcv_capacity r"
    and e: "bs_end ?o \<Longrightarrow> rcv_written r = length S"
    using assms by (auto simp: rcv_inv_def ra_inv_def parts_inv_def rcv_stream_out_def)
  show "bs_end ?o \<Longrightarrow> rcv_written r = length S"
    by (rule e)
  show "take (bs_readsize ?o) S @ bs_que ?o = take (rcv_written r) S" "rcv_written r \<le> length S"
    using bsq.carriesD [OF i(1)] by (simp_all add: take_piece_append)
  have "bs_inv ?o"
    using i(1) bsq.carriesD(1) by blast
  then show "rcv_window_size r + rcv_written r = rcv_edge r"
    using i(2) unfolding bs_inv_def rcv_window_size_def rcv_edge_def bs_buffer_size_def by auto
qed

text \<open>The absolute number of the next position the receiver wants, the FIN included.\<close>

definition rcv_next :: "tcp_receiver \<Rightarrow> nat" where
  "rcv_next r = rcv_written r + 1 + (if bs_end (rcv_stream_out r) then 1 else 0)"

lemma rcv_ackno_eq: "rcv_set_isn r \<Longrightarrow> rcv_ackno r = Some (wrap (of_nat (rcv_next r)) (rcv_isn r))"
proof -
  have "wi_plus isn (of_nat n) = wrap (of_nat n) isn" for isn n
    by (simp add: wrap_eq wi_plus_def raw_value_def ucast_u64_of_nat)
  then show "rcv_set_isn r \<Longrightarrow> ?thesis"
    by (auto simp: rcv_ackno_def rcv_next_def bs_defs Let_def simp del: of_nat_Suc)
qed

section \<open>Every run\<close>

inductive rcv_reachable :: "nat \<Rightarrow> byte list \<Rightarrow> wrapping_int32 \<Rightarrow> tcp_receiver \<Rightarrow> byte list \<Rightarrow> bool"
  for C S isn where
  rcv_start: "rcv_reachable C S isn (tcp_receiver_new C) []"
| rcv_seg: "rcv_reachable C S isn r out \<Longrightarrow>
    bare seg \<or> seg_at S isn n seg \<and> seg_in_window r n seg \<Longrightarrow>
    rcv_reachable C S isn (rcv_segment_received seg r) out"
| rcv_take: "rcv_reachable C S isn r out \<Longrightarrow> rcv_read n r = (d, r') \<Longrightarrow>
    rcv_reachable C S isn r' (out @ d)"

lemma rcv_reachable_inv:
  assumes "rcv_reachable C S isn r out" "length S + 2 < 2 ^ 31"
  shows "rcv_inv S isn r \<and> out = take (bs_readsize (rcv_stream_out r)) S"
  using assms(1)
proof (induction rule: rcv_reachable.induct)
  case rcv_start
  show ?case
    using rcv_inv_new by (simp add: tcp_receiver_new_def rcv_stream_out_def reassembler_new_def)
next
  case (rcv_seg r out seg n)
  let ?r = "rcv_segment_received seg r"
  have "rcv_inv S isn ?r \<and> rcv_mono r ?r \<and>
      bs_readsize (rcv_stream_out ?r) = bs_readsize (rcv_stream_out r)"
    using rcv_segment_inv [OF _ assms(2) rcv_seg.hyps(2)] rcv_seg.IH by blast
  then show ?case
    using rcv_seg.IH by simp
next
  case (rcv_take r out n d r')
  then show ?case
    using rcv_read_inv [of S isn r n d r'] by simp
qed

text \<open>
  C9. Whatever segments of the peer's stream arrive, in whatever order, repeated, overlapping
  or with acknowledgments in between, as long as they respect the window: the bytes the
  application has read followed by those it can read are a prefix of the peer's stream, and
  when it sees the end it has read all of it.
\<close>

theorem receiver_delivers_prefix:
  assumes "rcv_reachable C S isn r out" and "length S + 2 < 2 ^ 31"
  shows "out @ bs_que (rcv_stream_out r) = take (bs_bytes_written (rcv_stream_out r)) S \<and>
    (bs_eof (rcv_stream_out r) \<longrightarrow> out = S)"
proof -
  have i: "rcv_inv S isn r" and out: "out = take (bs_readsize (rcv_stream_out r)) S"
    using rcv_reachable_inv [OF assms] by auto
  then show ?thesis
    using rcv_inv_stream(1,2) [OF i] by (auto simp: bs_defs)
qed

definition hello_syn :: tcp_segment where
  "hello_syn = \<lparr>header = tcp_header_new\<lparr>seqno := 4294967295, syn := True\<rparr>, payload = [104]\<rparr>"

lemma hello_reachable: "rcv_reachable 10 [104, 105] 4294967295 (rcv_segment_received hello_syn (tcp_receiver_new 10)) []"
  by (rule rcv_seg [OF rcv_start, where n = 0])
    (simp add: hello_syn_def seg_at_def seg_in_window_def honest_def piece_def net_defs wrap_eq)

theorem receiver_delivers_prefix_witness:
  "bs_que (rcv_stream_out (rcv_segment_received hello_syn (tcp_receiver_new 10))) =
    take (bs_bytes_written (rcv_stream_out (rcv_segment_received hello_syn (tcp_receiver_new 10)))) [104, 105]"
  using receiver_delivers_prefix [OF hello_reachable] by simp

text \<open>
  C31. The acknowledgment: none before the SYN; after it, the sequence number of the first
  byte that is missing, or the number after the FIN once the stream has ended. The window
  advertised with it ends exactly where the capacity beyond the bytes read ends.
\<close>

theorem receiver_ackno_window:
  assumes "rcv_reachable C S isn r out" and "length S + 2 < 2 ^ 31"
  shows "(rcv_ackno r = None \<longleftrightarrow> \<not> rcv_set_isn r) \<and>
    (rcv_set_isn r \<longrightarrow> rcv_ackno r =
       Some (wrap (of_nat (if bs_input_ended (rcv_stream_out r) then length S + 2
         else bs_bytes_written (rcv_stream_out r) + 1)) isn)) \<and>
    bs_bytes_written (rcv_stream_out r) + rcv_window_size r = length out + rcv_capacity r"
proof -
  have i: "rcv_inv S isn r" and out: "out = take (bs_readsize (rcv_stream_out r)) S"
    using rcv_reachable_inv [OF assms] by auto
  have "bs_readsize (rcv_stream_out r) \<le> rcv_written r"
    using i ra_inv_room(2) by (auto simp: rcv_inv_def rcv_stream_out_def)
  then have "length out = bs_readsize (rcv_stream_out r)"
    using rcv_inv_stream(4) [OF i] out by simp
  moreover have "rcv_set_isn r \<Longrightarrow> rcv_isn r = isn"
    using i by (simp add: rcv_inv_def)
  ultimately show ?thesis
    using rcv_ackno_eq [of r] rcv_inv_stream(2,3) [OF i]
    by (auto simp: bs_defs rcv_next_def rcv_edge_def rcv_ackno_def simp del: of_nat_Suc of_nat_add)
qed

theorem receiver_ackno_window_witness:
  "bs_bytes_written (rcv_stream_out (rcv_segment_received hello_syn (tcp_receiver_new 10))) +
     rcv_window_size (rcv_segment_received hello_syn (tcp_receiver_new 10)) =
   rcv_capacity (rcv_segment_received hello_syn (tcp_receiver_new 10))"
  using receiver_ackno_window [OF hello_reachable] by simp

text \<open>
  A SYN is taken at face value at any time: a second SYN with another sequence number
  moves the receiver's initial sequence number in the middle of a stream, and the
  acknowledgment number jumps with it.
\<close>

theorem receiver_second_syn_rebases:
  assumes "syn (header seg)"
  shows "rcv_isn (rcv_segment_received seg r) = seqno (header seg) \<and>
    rcv_ackno (rcv_segment_received seg r) =
      Some (wrap (of_nat (rcv_next (rcv_segment_received seg r))) (seqno (header seg)))"
proof -
  have "rcv_set_isn (rcv_segment_received seg r)" "rcv_isn (rcv_segment_received seg r) = seqno (header seg)"
    using assms by (simp_all add: rcv_segment_received_syn rcv_accept_def)
  then show ?thesis
    using rcv_ackno_eq by simp
qed

theorem receiver_second_syn_rebases_witness:
  "rcv_isn (rcv_segment_received (hello_syn\<lparr>header := (header hello_syn)\<lparr>seqno := 77\<rparr>\<rparr>)
     (rcv_segment_received hello_syn (tcp_receiver_new 10))) = 77"
  using receiver_second_syn_rebases [of "hello_syn\<lparr>header := (header hello_syn)\<lparr>seqno := 77\<rparr>\<rparr>"]
  by (simp add: hello_syn_def)

end
