(* ===== verification/TCP_Sender.thy ===== *)
theory TCP_Sender
  imports TCP_Receiver
begin

text \<open>
  The sender of \<open>libsponge/tcp_sender.hh\<close> and \<open>libsponge/tcp_sender.cc\<close>, with its
  retransmission timer. The 64-bit counters are natural numbers; the timer's fields and the
  count of retransmissions keep their 32 bits, the window and timeout arguments their 16.
\<close>

section \<open>Configuration constants\<close>

definition DEFAULT_CAPACITY :: nat where "DEFAULT_CAPACITY = 64000"

definition MAX_PAYLOAD_SIZE :: nat where "MAX_PAYLOAD_SIZE = 1000"

definition TIMEOUT_DFLT :: u16 where "TIMEOUT_DFLT = 1000"

definition MAX_RETX_ATTEMPTS :: u32 where "MAX_RETX_ATTEMPTS = 8"

section \<open>The retransmission timer\<close>

record timer =
  tm_active :: bool
  tm_expired :: bool
  tm_init_timeout :: u32
  tm_timeout :: u32
  tm_cur_time :: u32

definition timer_new :: "u16 \<Rightarrow> timer" where
  "timer_new retx_timeout =
     \<lparr>tm_active = False, tm_expired = False, tm_init_timeout = ucast retx_timeout,
      tm_timeout = ucast retx_timeout, tm_cur_time = 0\<rparr>"

definition timer_start :: "timer \<Rightarrow> timer" where
  "timer_start t = t\<lparr>tm_expired := False, tm_active := True, tm_cur_time := 0\<rparr>"

text \<open>The count of consecutive retransmissions is passed by reference: argument and result.\<close>

definition timer_expire :: "u16 \<Rightarrow> u32 \<Rightarrow> timer \<Rightarrow> timer \<times> u32" where
  "timer_expire win_size consecutive_num t =
     (if win_size \<noteq> 0 then (t\<lparr>tm_timeout := tm_timeout t * 2\<rparr>, consecutive_num + 1)
      else (t, consecutive_num))"

definition timer_tictoc :: "u16 \<Rightarrow> u32 \<Rightarrow> u32 \<Rightarrow> timer \<Rightarrow> timer \<times> u32" where
  "timer_tictoc win_size tictoc_time consecutive_num t =
     (if tm_active t
      then let t = t\<lparr>tm_cur_time := tm_cur_time t + tictoc_time\<rparr>
           in if tm_cur_time t \<ge> tm_timeout t
              then let (t, consecutive_num) =
                         timer_expire win_size consecutive_num (t\<lparr>tm_active := False\<rparr>)
                   in (t\<lparr>tm_expired := True\<rparr>, consecutive_num)
              else (t, consecutive_num)
      else (t, consecutive_num))"

definition timer_reset :: "timer \<Rightarrow> timer" where
  "timer_reset t = t\<lparr>tm_timeout := tm_init_timeout t\<rparr>"

definition timer_stop :: "timer \<Rightarrow> timer" where
  "timer_stop t = t\<lparr>tm_active := False\<rparr>"

section \<open>The sender\<close>

record tcp_sender =
  snd_isn :: wrapping_int32
  snd_segments_out :: "tcp_segment list"
  snd_initial_retransmission_timeout :: u32
  snd_stream :: byte_stream
  snd_next_seqno :: nat
  snd_window_sz :: nat
  snd_ackno :: nat
  snd_flight_bytes :: nat
  snd_set_fin :: bool
  snd_wait_ack :: "tcp_segment list"
  snd_timer :: timer
  snd_consecutive_transmit_num :: u32

text \<open>The random initial sequence number is an argument.\<close>

definition tcp_sender_new :: "nat \<Rightarrow> u16 \<Rightarrow> wrapping_int32 option \<Rightarrow> u32 \<Rightarrow> tcp_sender" where
  "tcp_sender_new capacity retx_timeout fixed_isn random =
     \<lparr>snd_isn = (case fixed_isn of Some i \<Rightarrow> i | None \<Rightarrow> random), snd_segments_out = [],
      snd_initial_retransmission_timeout = ucast retx_timeout,
      snd_stream = byte_stream_new capacity, snd_next_seqno = 0, snd_window_sz = 1, snd_ackno = 0,
      snd_flight_bytes = 0, snd_set_fin = False, snd_wait_ack = [], snd_timer = timer_new retx_timeout,
      snd_consecutive_transmit_num = 0\<rparr>"

definition snd_bytes_in_flight :: "tcp_sender \<Rightarrow> nat" where
  "snd_bytes_in_flight s = snd_flight_bytes s"

definition snd_next_seqno_wrapped :: "tcp_sender \<Rightarrow> wrapping_int32" where
  "snd_next_seqno_wrapped s = wrap (of_nat (snd_next_seqno s)) (snd_isn s)"

text \<open>
  The body of the loop of \<open>fill_window\<close> up to the update of \<open>_next_seqno\<close>: the segment built,
  its length in sequence space, and the sender after the read.
\<close>

definition make_segment :: "nat \<Rightarrow> tcp_sender \<Rightarrow> tcp_segment \<times> nat \<times> tcp_sender" where
  "make_segment win_size s =
     (let head = tcp_header_new\<lparr>seqno := snd_next_seqno_wrapped s\<rparr>;
          (head, seqlen) = (if snd_next_seqno s = 0 then (head\<lparr>syn := True\<rparr>, 1) else (head, 0));
          (buffer, stream) = bs_read (min (win_size - seqlen) MAX_PAYLOAD_SIZE) (snd_stream s);
          s = s\<lparr>snd_stream := stream\<rparr>;
          seqlen = seqlen + length buffer;
          (head, seqlen, s) =
            (if bs_eof stream \<and> seqlen < win_size
             then (head\<lparr>fin := True\<rparr>, seqlen + 1, s\<lparr>snd_set_fin := True\<rparr>) else (head, seqlen, s))
      in (\<lparr>header = head, payload = buffer\<rparr>, seqlen,
          s\<lparr>snd_next_seqno := snd_next_seqno s + seqlen\<rparr>))"

definition enqueue_segment :: "tcp_segment \<Rightarrow> nat \<Rightarrow> tcp_sender \<Rightarrow> tcp_sender" where
  "enqueue_segment seg seqlen s =
     s\<lparr>snd_flight_bytes := snd_flight_bytes s + seqlen,
       snd_segments_out := snd_segments_out s @ [seg],
       snd_timer := (if \<not> tm_active (snd_timer s) then timer_start (snd_timer s) else snd_timer s),
       snd_wait_ack := snd_wait_ack s @ [seg]\<rparr>"

text \<open>The loop; its measure is the rest of the window, which every segment sent makes smaller.\<close>

function fill_loop :: "nat \<Rightarrow> tcp_sender \<Rightarrow> tcp_sender" where
  "fill_loop win_size s =
     (if win_size > 0 \<and> \<not> snd_set_fin s
      then let (seg, seqlen, s) = make_segment win_size s
           in if seqlen > 0
              then let s = enqueue_segment seg seqlen s;
                       win_size = win_size - seqlen
                   in if win_size = 0 then s else fill_loop win_size s
              else s
      else s)"
  by pat_completeness auto
termination
  by (relation "measure fst") auto

declare fill_loop.simps [simp del]

definition fill_window :: "tcp_sender \<Rightarrow> tcp_sender" where
  "fill_window s =
     (if snd_set_fin s then s
      else let limit = snd_ackno s + (if snd_window_sz s \<noteq> 0 then snd_window_sz s else 1)
           in if limit \<le> snd_next_seqno s then s
              else fill_loop (limit - snd_next_seqno s) s)"

text \<open>The loop over \<open>_wait_ack\<close> of \<open>ack_received\<close>: what is left, the bytes in flight, and whether anything was acknowledged.\<close>

fun ack_loop ::
  "wrapping_int32 \<Rightarrow> nat \<Rightarrow> nat \<Rightarrow> tcp_segment list \<Rightarrow> nat \<Rightarrow> bool \<Rightarrow> tcp_segment list \<times> nat \<times> bool" where
  "ack_loop isn checkpoint abs_ack_no [] flight newdata = ([], flight, newdata)"
| "ack_loop isn checkpoint abs_ack_no (temp # rest) flight newdata =
     (let abs_seg_no = unat (unwrap (seqno (header temp)) isn (of_nat checkpoint))
      in if abs_ack_no \<ge> abs_seg_no + length_in_sequence_space temp
         then ack_loop isn checkpoint abs_ack_no rest
                (sub64 flight (length_in_sequence_space temp)) True
         else (temp # rest, flight, newdata))"

definition ack_received :: "wrapping_int32 \<Rightarrow> u16 \<Rightarrow> tcp_sender \<Rightarrow> tcp_sender" where
  "ack_received ackn window_size s =
     (let checkpoint = snd_next_seqno s;
          abs_ack_no = unat (unwrap ackn (snd_isn s) (of_nat checkpoint));
          s = s\<lparr>snd_ackno := abs_ack_no\<rparr>
      in if abs_ack_no > snd_next_seqno s then s
         else let s = s\<lparr>snd_window_sz := unat window_size\<rparr>;
                  (wait, flight, newdata) =
                    ack_loop (snd_isn s) checkpoint abs_ack_no (snd_wait_ack s) (snd_flight_bytes s) False;
                  s = s\<lparr>snd_wait_ack := wait, snd_flight_bytes := flight\<rparr>
              in if newdata
                 then let t = timer_reset (snd_timer s)
                      in s\<lparr>snd_timer := (if wait \<noteq> [] then timer_start t else timer_stop t),
                           snd_consecutive_transmit_num := 0\<rparr>
                 else s)"

definition snd_tick :: "nat \<Rightarrow> tcp_sender \<Rightarrow> tcp_sender" where
  "snd_tick ms s =
     (let (t, num) = timer_tictoc (of_nat (snd_window_sz s)) (of_nat ms)
            (snd_consecutive_transmit_num s) (snd_timer s);
          s = s\<lparr>snd_timer := t, snd_consecutive_transmit_num := num\<rparr>
      in if tm_expired t \<and> snd_wait_ack s \<noteq> []
         then s\<lparr>snd_segments_out := snd_segments_out s @ [hd (snd_wait_ack s)], snd_timer := timer_start t\<rparr>
         else s)"

definition send_empty_segment :: "tcp_sender \<Rightarrow> tcp_sender" where
  "send_empty_segment s =
     s\<lparr>snd_segments_out := snd_segments_out s @
         [\<lparr>header = tcp_header_new\<lparr>seqno := snd_next_seqno_wrapped s\<rparr>, payload = []\<rparr>]\<rparr>"

lemmas timer_defs [snd_defs] = timer_new_def timer_start_def timer_expire_def timer_tictoc_def
  timer_reset_def timer_stop_def

lemmas snd_op_defs [snd_defs] = tcp_sender_new_def snd_bytes_in_flight_def
  snd_next_seqno_wrapped_def make_segment_def enqueue_segment_def fill_window_def
  ack_received_def snd_tick_def send_empty_segment_def MAX_PAYLOAD_SIZE_def

end
