(* ===== verification/Sender_Correct.thy ===== *)
theory Sender_Correct
  imports TCP_Sender
begin

text \<open>
  Correctness of the sender: the segments in flight are consecutive pieces of the outgoing
  stream that end at the next sequence number, their lengths add up to the bytes in flight,
  what is sent respects the window and exhausts it when there is data, acknowledgments remove
  exactly the segments they cover, and the timer backs off exponentially.
\<close>

section \<open>Chains of segments\<close>

fun seg_chain :: "byte list \<Rightarrow> wrapping_int32 \<Rightarrow> nat \<Rightarrow> tcp_segment list \<Rightarrow> nat \<Rightarrow> bool" where
  "seg_chain S isn n [] m \<longleftrightarrow> n = m"
| "seg_chain S isn n (seg # segs) m \<longleftrightarrow>
     seg_at S isn n seg \<and> 0 < length_in_sequence_space seg \<and>
     seg_chain S isn (n + length_in_sequence_space seg) segs m"

lemma seg_chain_sum:
  "seg_chain S isn n segs m \<Longrightarrow> n + sum_list (map length_in_sequence_space segs) = m"
proof (induction segs arbitrary: n)
  case (Cons a segs)
  then have "n + length_in_sequence_space a + sum_list (map length_in_sequence_space segs) = m"
    by simp
  then show ?case
    by simp
qed simp

lemma seg_chain_le: "seg_chain S isn n segs m \<Longrightarrow> n \<le> m"
  using seg_chain_sum [of S isn n segs m] by linarith

lemma seg_chain_append:
  "seg_chain S isn n segs k \<Longrightarrow> seg_chain S isn k segs' m \<Longrightarrow> seg_chain S isn n (segs @ segs') m"
  by (induction segs arbitrary: n) simp_all

lemma seg_chain_member:
  "seg_chain S isn n segs m \<Longrightarrow> seg \<in> set segs \<Longrightarrow>
     \<exists>k. n \<le> k \<and> k + length_in_sequence_space seg \<le> m \<and> seg_at S isn k seg"
proof (induction segs arbitrary: n)
  case (Cons a segs)
  let ?n = "n + length_in_sequence_space a"
  have c: "seg_at S isn n a" "seg_chain S isn ?n segs m"
    using Cons.prems by simp_all
  show ?case
  proof (cases "seg = a")
    case True
    then show ?thesis
      using c seg_chain_le [OF c(2)] by blast
  next
    case False
    then obtain k where "?n \<le> k" "k + length_in_sequence_space seg \<le> m" "seg_at S isn k seg"
      using Cons.IH [OF c(2)] Cons.prems(2) by auto
    then show ?thesis
      by (intro exI [of _ k]) simp
  qed
qed simp

section \<open>The invariant\<close>

definition snd_core :: "byte list \<Rightarrow> tcp_sender \<Rightarrow> bool" where
  "snd_core S s \<longleftrightarrow>
     bs_carries S (snd_stream s) \<and> (bs_end (snd_stream s) \<longrightarrow> bs_writtensize (snd_stream s) = length S) \<and>
     (if snd_next_seqno s = 0 then bs_readsize (snd_stream s) = 0 \<and> \<not> snd_set_fin s
      else snd_next_seqno s = 1 + bs_readsize (snd_stream s) + (if snd_set_fin s then 1 else 0)) \<and>
     (snd_set_fin s \<longrightarrow> bs_eof (snd_stream s))"

definition snd_inv :: "byte list \<Rightarrow> tcp_sender \<Rightarrow> bool" where
  "snd_inv S s \<longleftrightarrow> snd_core S s \<and> snd_flight_bytes s \<le> snd_next_seqno s \<and>
     seg_chain S (snd_isn s) (snd_next_seqno s - snd_flight_bytes s) (snd_wait_ack s) (snd_next_seqno s)"

lemma snd_core_cong:
  "snd_stream s' = snd_stream s \<Longrightarrow> snd_next_seqno s' = snd_next_seqno s \<Longrightarrow>
   snd_set_fin s' = snd_set_fin s \<Longrightarrow> snd_core S s' = snd_core S s"
  by (simp add: snd_core_def)

lemma snd_inv_cong:
  "snd_stream s' = snd_stream s \<Longrightarrow> snd_next_seqno s' = snd_next_seqno s \<Longrightarrow>
   snd_set_fin s' = snd_set_fin s \<Longrightarrow> snd_isn s' = snd_isn s \<Longrightarrow> snd_wait_ack s' = snd_wait_ack s \<Longrightarrow>
   snd_flight_bytes s' = snd_flight_bytes s \<Longrightarrow> snd_inv S s' = snd_inv S s"
  by (simp add: snd_inv_def snd_core_def)

lemma snd_inv_new: "snd_inv S (tcp_sender_new c t fi rnd)"
  by (simp add: snd_inv_def snd_core_def tcp_sender_new_def bsq.carries_def)

lemma snd_core_bound: "snd_core S s \<Longrightarrow> snd_next_seqno s \<le> length S + 2"
  using bsq.carriesD(2,4) [of S "snd_stream s"] by (auto simp: snd_core_def split: if_splits)

text \<open>The fields of the sender that filling the window leaves alone.\<close>

definition snd_frame :: "tcp_sender \<Rightarrow> tcp_sender \<Rightarrow> bool" where
  "snd_frame s s' \<longleftrightarrow> snd_isn s' = snd_isn s \<and> snd_ackno s' = snd_ackno s \<and>
     snd_window_sz s' = snd_window_sz s \<and>
     snd_consecutive_transmit_num s' = snd_consecutive_transmit_num s \<and>
     bs_writtensize (snd_stream s') = bs_writtensize (snd_stream s) \<and>
     bs_end (snd_stream s') = bs_end (snd_stream s) \<and> bs_error (snd_stream s') = bs_error (snd_stream s) \<and>
     bs_maximumcapacity (snd_stream s') = bs_maximumcapacity (snd_stream s)"

lemma snd_frame_refl [simp]: "snd_frame s s"
  by (simp add: snd_frame_def)

lemma snd_frame_trans: "snd_frame a b \<Longrightarrow> snd_frame b c \<Longrightarrow> snd_frame a c"
  by (simp add: snd_frame_def)

section \<open>One segment\<close>

text \<open>What \<open>make_segment\<close> builds: \<open>d\<close> is the payload, \<open>y\<close> and \<open>f\<close> the room of SYN and FIN.\<close>

definition syn_room :: "tcp_sender \<Rightarrow> nat" where
  "syn_room s = (if snd_next_seqno s = 0 then 1 else 0)"

definition seg_data :: "nat \<Rightarrow> tcp_sender \<Rightarrow> byte list" where
  "seg_data ws s = take (min (ws - syn_room s) MAX_PAYLOAD_SIZE) (bs_que (snd_stream s))"

definition seg_rest :: "nat \<Rightarrow> tcp_sender \<Rightarrow> byte_stream" where
  "seg_rest ws s = bs_pop_output (min (ws - syn_room s) MAX_PAYLOAD_SIZE) (snd_stream s)"

definition seg_fin :: "nat \<Rightarrow> tcp_sender \<Rightarrow> bool" where
  "seg_fin ws s \<longleftrightarrow> bs_eof (seg_rest ws s) \<and> syn_room s + length (seg_data ws s) < ws"

definition seg_len :: "nat \<Rightarrow> tcp_sender \<Rightarrow> nat" where
  "seg_len ws s = syn_room s + length (seg_data ws s) + (if seg_fin ws s then 1 else 0)"

lemma make_segment_eq:
  "make_segment ws s =
    (\<lparr>header = tcp_header_new\<lparr>seqno := snd_next_seqno_wrapped s, syn := (snd_next_seqno s = 0), fin := seg_fin ws s\<rparr>,
      payload = seg_data ws s\<rparr>, seg_len ws s,
     s\<lparr>snd_stream := seg_rest ws s, snd_set_fin := (seg_fin ws s \<or> snd_set_fin s),
       snd_next_seqno := snd_next_seqno s + seg_len ws s\<rparr>)"
proof -
  have "bs_read (min (ws - syn_room s) MAX_PAYLOAD_SIZE) (snd_stream s) = (seg_data ws s, seg_rest ws s)"
    by (simp add: bs_read_def seg_data_def seg_rest_def)
  then show ?thesis
    by (cases "snd_next_seqno s = 0"; cases "seg_fin ws s")
      (auto simp: make_segment_def Let_def seg_len_def tcp_header_new_def syn_room_def seg_fin_def
        intro: tcp_sender.equality)
qed

lemma seg_rest_fields:
  "bs_readsize (seg_rest ws s) = bs_readsize (snd_stream s) + length (seg_data ws s)"
  "bs_writtensize (seg_rest ws s) = bs_writtensize (snd_stream s)"
  "bs_end (seg_rest ws s) = bs_end (snd_stream s)" "bs_error (seg_rest ws s) = bs_error (snd_stream s)"
  "bs_maximumcapacity (seg_rest ws s) = bs_maximumcapacity (snd_stream s)"
  "bs_que (seg_rest ws s) = drop (length (seg_data ws s)) (bs_que (snd_stream s))"
proof -
  have "drop k xs = drop (length (take k xs)) xs" for k and xs :: "byte list"
    by (simp add: min_def)
  then show "bs_que (seg_rest ws s) = drop (length (seg_data ws s)) (bs_que (snd_stream s))"
    unfolding seg_rest_def seg_data_def bs_pop_fields .
qed (simp_all add: seg_rest_def seg_data_def min.commute)

lemma seg_data_piece:
  assumes "bs_carries S (snd_stream s)"
  defines "a \<equiv> bs_readsize (snd_stream s)"
  shows "piece a (a + length (seg_data ws s)) S = seg_data ws s"
    "a + length (seg_data ws s) \<le> bs_writtensize (snd_stream s)" "bs_carries S (seg_rest ws s)"
proof -
  let ?k = "min (ws - syn_room s) MAX_PAYLOAD_SIZE"
  have bal: "a + length (bs_que (snd_stream s)) = bs_writtensize (snd_stream s)"
    unfolding a_def by (rule bsq.balance [OF bsq.carriesD(1) [OF assms(1)]])
  have "length (seg_data ws s) = min (length (bs_que (snd_stream s))) ?k"
    by (simp add: seg_data_def)
  then have "min (bs_writtensize (snd_stream s)) (a + ?k) = a + length (seg_data ws s)"
    using bal by linarith
  then show "piece a (a + length (seg_data ws s)) S = seg_data ws s"
    using bsq.carries_front [OF assms(1), of ?k] by (simp only: a_def seg_data_def)
  show "a + length (seg_data ws s) \<le> bs_writtensize (snd_stream s)"
    using bal by (simp add: seg_data_def)
  show "bs_carries S (seg_rest ws s)"
    unfolding seg_rest_def by (rule bsq.carries_pop [OF assms(1)])
qed

lemma seg_fin_end:
  assumes "snd_core S s" "seg_fin ws s"
  shows "bs_readsize (snd_stream s) + length (seg_data ws s) = length S"
  using assms by (auto simp: snd_core_def seg_fin_def bs_eof_def seg_rest_fields)

lemma seg_len_le: "0 < ws \<Longrightarrow> seg_len ws s \<le> ws"
  by (auto simp: seg_len_def seg_fin_def seg_data_def syn_room_def)

lemma make_segment_at:
  assumes core: "snd_core S s" and nf: "\<not> snd_set_fin s"
    and m: "make_segment ws s = (seg, len, s')"
  shows "seg_at S (snd_isn s) (snd_next_seqno s) seg" "len = length_in_sequence_space seg"
    "length (payload seg) \<le> MAX_PAYLOAD_SIZE" "\<not> ack (header seg)"
proof -
  let ?a = "bs_readsize (snd_stream s)"
  have c: "bs_carries S (snd_stream s)"
    using core by (simp add: snd_core_def)
  have idx: "snd_next_seqno s - 1 = ?a"
    using core nf by (auto simp: snd_core_def split: if_splits)
  have "bs_writtensize (snd_stream s) \<le> length S"
    using bsq.carriesD(2) [OF c] .
  then have "honest S (seg_data ws s) ?a (seg_fin ws s)"
    using seg_data_piece(1,2) [OF c] seg_fin_end [OF core] unfolding honest_def by (metis le_trans)
  then show "seg_at S (snd_isn s) (snd_next_seqno s) seg"
    unfolding seg_at_def idx using m by (auto simp: make_segment_eq snd_next_seqno_wrapped_def)
  show "len = length_in_sequence_space seg" "length (payload seg) \<le> MAX_PAYLOAD_SIZE" "\<not> ack (header seg)"
    using m by (auto simp: make_segment_eq seg_len_def length_in_sequence_space_def syn_room_def
        seg_data_def tcp_header_new_def)
qed

lemma make_segment_core:
  assumes core: "snd_core S s" and nf: "\<not> snd_set_fin s"
    and m: "make_segment ws s = (seg, len, s')"
  shows "snd_core S s'"
proof -
  have "bs_carries S (seg_rest ws s)"
    using seg_data_piece(3) core by (simp add: snd_core_def)
  then show ?thesis
    using m core nf by (auto simp: make_segment_eq snd_core_def seg_rest_fields seg_len_def
        syn_room_def seg_fin_def split: if_splits)
qed

lemma make_segment_frame:
  assumes "make_segment ws s = (seg, len, s')"
  shows "snd_next_seqno s' = snd_next_seqno s + len" "snd_frame s s'" "len = seg_len ws s"
    "snd_segments_out s' = snd_segments_out s" "snd_wait_ack s' = snd_wait_ack s"
    "snd_flight_bytes s' = snd_flight_bytes s" "snd_timer s' = snd_timer s"
  using assms by (auto simp: make_segment_eq snd_frame_def seg_rest_fields)

lemma make_segment_nothing:
  assumes "make_segment ws s = (seg, 0, s')" "0 < ws"
  shows "bs_que (snd_stream s') = []" "\<not> bs_eof (snd_stream s')"
proof -
  have z: "syn_room s = 0" "seg_data ws s = []" "\<not> seg_fin ws s" "s' = s\<lparr>snd_stream := seg_rest ws s\<rparr>"
    using assms by (auto simp: make_segment_eq seg_len_def split: if_splits)
  then show "bs_que (snd_stream s') = []"
    using assms(2) by (auto simp: seg_rest_fields seg_data_def MAX_PAYLOAD_SIZE_def)
  show "\<not> bs_eof (snd_stream s')"
    using z assms(2) by (simp add: seg_fin_def)
qed

section \<open>Filling the window\<close>

text \<open>
  The sender \<open>s'\<close> has sent the segments \<open>new\<close> since \<open>s\<close>: they continue the chain, wait
  for acknowledgment and are counted as in flight.
\<close>

definition snd_sent :: "byte list \<Rightarrow> tcp_sender \<Rightarrow> tcp_segment list \<Rightarrow> tcp_sender \<Rightarrow> bool" where
  "snd_sent S s new s' \<longleftrightarrow>
     snd_core S s' \<and> snd_frame s s' \<and> seg_chain S (snd_isn s) (snd_next_seqno s) new (snd_next_seqno s') \<and>
     snd_segments_out s' = snd_segments_out s @ new \<and> snd_wait_ack s' = snd_wait_ack s @ new \<and>
     snd_flight_bytes s' + snd_next_seqno s = snd_flight_bytes s + snd_next_seqno s' \<and>
     (\<forall>seg \<in> set new. length (payload seg) \<le> MAX_PAYLOAD_SIZE \<and> \<not> ack (header seg))"

lemma snd_sent_nothing: "snd_core S s' \<Longrightarrow> snd_frame s s' \<Longrightarrow> snd_next_seqno s' = snd_next_seqno s \<Longrightarrow>
    snd_segments_out s' = snd_segments_out s \<Longrightarrow> snd_wait_ack s' = snd_wait_ack s \<Longrightarrow>
    snd_flight_bytes s' = snd_flight_bytes s \<Longrightarrow> snd_sent S s [] s'"
  by (simp add: snd_sent_def)

lemma snd_sent_refl: "snd_core S s \<Longrightarrow> snd_sent S s [] s"
  by (simp add: snd_sent_def)

lemma snd_sent_trans: "snd_sent S a xs b \<Longrightarrow> snd_sent S b ys c \<Longrightarrow> snd_sent S a (xs @ ys) c"
proof -
  assume a: "snd_sent S a xs b" and b: "snd_sent S b ys c"
  then have "snd_isn b = snd_isn a"
    by (simp add: snd_sent_def snd_frame_def)
  then show ?thesis
    using a b by (auto simp: snd_sent_def intro: snd_frame_trans seg_chain_append)
qed

lemma enqueue_sent:
  assumes core: "snd_core S s" and nf: "\<not> snd_set_fin s"
    and m: "make_segment ws s = (seg, len, s1)" and len: "0 < len"
  shows "snd_sent S s [seg] (enqueue_segment seg len s1)"
proof -
  have "snd_core S (enqueue_segment seg len s1) = snd_core S s1"
    by (rule snd_core_cong) (simp_all add: enqueue_segment_def)
  then have "snd_core S (enqueue_segment seg len s1)"
    using make_segment_core [OF core nf m] by simp
  then show ?thesis
    using make_segment_at [OF core nf m] make_segment_frame [OF m] len
    by (simp add: snd_sent_def enqueue_segment_def snd_frame_def)
qed

text \<open>
  From \<open>s\<close>, with room for \<open>ws\<close> sequence numbers, the sender has sent what it could: no more
  than the room, and less only after the FIN or for lack of data.
\<close>

definition filled :: "byte list \<Rightarrow> tcp_sender \<Rightarrow> nat \<Rightarrow> tcp_sender \<Rightarrow> bool" where
  "filled S s ws s' \<longleftrightarrow> (\<exists>new. snd_sent S s new s') \<and> snd_next_seqno s' \<le> snd_next_seqno s + ws \<and>
     (snd_set_fin s' \<or> snd_next_seqno s' = snd_next_seqno s + ws \<or>
      bs_que (snd_stream s') = [] \<and> \<not> bs_eof (snd_stream s'))"

lemma filled_step:
  assumes "snd_sent S s xs s1" "snd_next_seqno s1 = snd_next_seqno s + len" "len \<le> ws"
    "filled S s1 (ws - len) s2"
  shows "filled S s ws s2"
  using assms snd_sent_trans [OF assms(1)] by (auto simp: filled_def)

lemma fill_loop_filled:
  assumes "snd_core S s"
  shows "filled S s ws (fill_loop ws s)"
  using assms
proof (induction ws s rule: fill_loop.induct)
  case (1 ws s)
  obtain seg len s1 where m: "make_segment ws s = (seg, len, s1)"
    by (metis surj_pair)
  note f = make_segment_frame [OF m]
  let ?s2 = "enqueue_segment seg len s1"
  consider (stop) "ws = 0 \<or> snd_set_fin s" | (empty) "0 < ws" "\<not> snd_set_fin s" "len = 0"
    | (send) "0 < ws" "\<not> snd_set_fin s" "0 < len"
    by blast
  then show ?case
  proof cases
    case stop
    then have "fill_loop ws s = s"
      by (subst fill_loop.simps) auto
    then show ?thesis
      using stop "1.prems" snd_sent_nothing [of S s s] by (auto simp: filled_def)
  next
    case empty
    then have "fill_loop ws s = s1"
      using m by (simp add: fill_loop.simps [of ws s])
    then show ?thesis
      using snd_sent_nothing [OF make_segment_core [OF "1.prems" empty(2) m]] f empty m
        make_segment_nothing [of ws s seg s1] by (auto simp: filled_def)
  next
    case send
    note sent = enqueue_sent [OF "1.prems" send(2) m send(3)]
    have nx: "snd_next_seqno ?s2 = snd_next_seqno s + len" "len \<le> ws"
      using f seg_len_le [OF send(1)] by (simp_all add: enqueue_segment_def)
    have e: "fill_loop ws s = (if ws - len = 0 then ?s2 else fill_loop (ws - len) ?s2)"
      using m send by (simp add: fill_loop.simps [of ws s] Let_def)
    have core2: "snd_core S ?s2"
      using sent by (simp add: snd_sent_def)
    have "filled S ?s2 (ws - len) (fill_loop ws s)"
    proof (cases "ws - len = 0")
      case True
      then show ?thesis
        using snd_sent_refl [OF core2] unfolding e by (auto simp: filled_def)
    next
      case False
      then show ?thesis
        using "1.IH" [OF _ m [symmetric] refl refl send(3) refl refl False core2] send(1,2) unfolding e by simp
    qed
    then show ?thesis
      by (rule filled_step [OF sent nx])
  qed
qed

text \<open>The window limit the sender works with: at least one past the acknowledgment.\<close>

definition snd_limit :: "tcp_sender \<Rightarrow> nat" where
  "snd_limit s = snd_ackno s + max 1 (snd_window_sz s)"

lemma fill_window_eq:
  "fill_window s = (if snd_set_fin s \<or> snd_limit s \<le> snd_next_seqno s then s
     else fill_loop (snd_limit s - snd_next_seqno s) s)"
  by (auto simp: fill_window_def snd_limit_def Let_def max_def)

lemma fill_window_sent:
  assumes "snd_core S s"
  shows "\<exists>new. snd_sent S s new (fill_window s)"
    "snd_next_seqno (fill_window s) \<le> max (snd_next_seqno s) (snd_limit s)"
    "snd_set_fin (fill_window s) \<or> snd_limit s \<le> snd_next_seqno (fill_window s) \<or>
       bs_que (snd_stream (fill_window s)) = [] \<and> \<not> bs_eof (snd_stream (fill_window s))"
  using fill_loop_filled [OF assms, of "snd_limit s - snd_next_seqno s"] snd_sent_nothing [OF assms, of s]
  by (auto simp: fill_window_eq filled_def)

lemma snd_sent_inv:
  assumes "snd_inv S s" "snd_sent S s new s'"
  shows "snd_inv S s'"
proof -
  have c: "seg_chain S (snd_isn s) (snd_next_seqno s - snd_flight_bytes s) (snd_wait_ack s @ new) (snd_next_seqno s')"
    using assms seg_chain_append by (auto simp: snd_inv_def snd_sent_def)
  have "snd_next_seqno s' - snd_flight_bytes s' = snd_next_seqno s - snd_flight_bytes s"
    "snd_flight_bytes s' \<le> snd_next_seqno s'"
    using assms by (auto simp: snd_inv_def snd_sent_def)
  then show ?thesis
    using c assms(2) by (simp add: snd_inv_def snd_sent_def snd_frame_def)
qed

section \<open>Acknowledgments\<close>

text \<open>
  The acknowledgment loop removes the segments that end at or before the acknowledged number
  and keeps the rest; what is in flight shrinks with it.
\<close>

lemma ack_loop_spec:
  assumes "seg_chain S isn (m - flight) wait m" "flight \<le> m" "m < 2 ^ 31"
    and "ack_loop isn m a wait flight nd = (wait', flight', nd')"
  shows "seg_chain S isn (m - flight') wait' m \<and> flight' \<le> flight \<and> m - flight' \<le> max (m - flight) a \<and>
    (\<exists>gone. wait = gone @ wait' \<and> (nd' \<longleftrightarrow> nd \<or> gone \<noteq> [])) \<and>
    (wait' \<noteq> [] \<longrightarrow> a < m - flight' + length_in_sequence_space (hd wait'))"
  using assms
proof (induction wait arbitrary: flight nd)
  case (Cons seg wait)
  let ?n = "m - flight" and ?l = "length_in_sequence_space seg"
  have c: "seg_at S isn ?n seg" "0 < ?l" "seg_chain S isn (?n + ?l) wait m"
    using Cons.prems(1) by simp_all
  have le: "?n + ?l \<le> m"
    using seg_chain_le [OF c(3)] .
  have u: "unat (unwrap (seqno (header seg)) isn (of_nat m)) = ?n"
    using c(1) Cons.prems(3) unwrap_near [of m ?n isn] by (simp add: seg_at_def)
  show ?case
  proof (cases "?n + ?l \<le> a")
    case True
    have fl: "flight - ?l \<le> m" "m - (flight - ?l) = ?n + ?l" "?l \<le> flight"
      using le Cons.prems(2) by auto
    have r: "ack_loop isn m a wait (flight - ?l) True = (wait', flight', nd')"
      using Cons.prems(4) True fl(3) by (simp add: u)
    have "seg_chain S isn (m - (flight - ?l)) wait m"
      using c(3) fl(2) by simp
    from Cons.IH [OF this fl(1) Cons.prems(3) r] show ?thesis
      using fl(2) True by (auto intro!: exI [of _ "seg # _"])
  next
    case False
    then show ?thesis
      using Cons.prems by (auto simp: u)
  qed
qed auto

text \<open>
  An acknowledgment of something not sent yet changes nothing but \<open>_ackno\<close>; any other one
  also sets the window and removes what it covers.
\<close>

lemma ack_received_future:
  assumes "snd_next_seqno s < unat (unwrap a (snd_isn s) (of_nat (snd_next_seqno s)))"
  shows "ack_received a w s = s\<lparr>snd_ackno := unat (unwrap a (snd_isn s) (of_nat (snd_next_seqno s)))\<rparr>"
  using assms by (simp add: ack_received_def Let_def)

lemma ack_received_core [simp]:
  "snd_stream (ack_received a w s) = snd_stream s" "snd_next_seqno (ack_received a w s) = snd_next_seqno s"
  "snd_set_fin (ack_received a w s) = snd_set_fin s" "snd_isn (ack_received a w s) = snd_isn s"
  "snd_segments_out (ack_received a w s) = snd_segments_out s"
  "snd_ackno (ack_received a w s) = unat (unwrap a (snd_isn s) (of_nat (snd_next_seqno s)))"
  by (simp_all add: ack_received_def Let_def split: prod.split)

lemma ack_received_inv:
  assumes i: "snd_inv S s" and bound: "length S + 2 < 2 ^ 31"
  shows "snd_inv S (ack_received a w s) \<and> set (snd_wait_ack (ack_received a w s)) \<subseteq> set (snd_wait_ack s)"
proof (cases "snd_next_seqno s < unat (unwrap a (snd_isn s) (of_nat (snd_next_seqno s)))")
  case True
  then show ?thesis
    using i snd_inv_cong [of "ack_received a w s" s S] by (simp add: ack_received_future)
next
  case False
  define an where "an = unat (unwrap a (snd_isn s) (of_nat (snd_next_seqno s)))"
  obtain wait' flight' nd' where l: "ack_loop (snd_isn s) (snd_next_seqno s) an (snd_wait_ack s)
      (snd_flight_bytes s) False = (wait', flight', nd')"
    by (metis surj_pair)
  have c: "snd_core S s" "snd_flight_bytes s \<le> snd_next_seqno s"
    "seg_chain S (snd_isn s) (snd_next_seqno s - snd_flight_bytes s) (snd_wait_ack s) (snd_next_seqno s)"
    using i by (auto simp: snd_inv_def)
  have "snd_next_seqno s < 2 ^ 31"
    using snd_core_bound [OF c(1)] bound by simp
  note spec = ack_loop_spec [OF c(3,2) this l]
  have f: "snd_wait_ack (ack_received a w s) = wait'" "snd_flight_bytes (ack_received a w s) = flight'"
    using False l by (simp_all add: ack_received_def Let_def an_def)
  have "snd_core S (ack_received a w s)"
    using c(1) snd_core_cong [of "ack_received a w s" s S] by simp
  then show ?thesis
    using spec c(2) by (auto simp: snd_inv_def f)
qed

section \<open>Time and empty segments\<close>

lemma snd_tick_fields:
  "snd_stream (snd_tick ms s) = snd_stream s" "snd_next_seqno (snd_tick ms s) = snd_next_seqno s"
  "snd_set_fin (snd_tick ms s) = snd_set_fin s" "snd_isn (snd_tick ms s) = snd_isn s"
  "snd_ackno (snd_tick ms s) = snd_ackno s" "snd_window_sz (snd_tick ms s) = snd_window_sz s"
  "snd_wait_ack (snd_tick ms s) = snd_wait_ack s" "snd_flight_bytes (snd_tick ms s) = snd_flight_bytes s"
  by (simp_all add: snd_tick_def Let_def split: prod.split)

lemma snd_tick_out:
  "snd_segments_out (snd_tick ms s) = snd_segments_out s \<or>
   snd_wait_ack s \<noteq> [] \<and> snd_segments_out (snd_tick ms s) = snd_segments_out s @ [hd (snd_wait_ack s)]"
  by (simp add: snd_tick_def Let_def split: prod.split)

lemma snd_tick_inv: "snd_inv S (snd_tick ms s) = snd_inv S s"
  by (rule snd_inv_cong) (simp_all add: snd_tick_fields)

lemma send_empty_inv: "snd_inv S (send_empty_segment s) = snd_inv S s"
  by (rule snd_inv_cong) (simp_all add: send_empty_segment_def)

end
