(* ===== verification/Sender_Runs.thy ===== *)
theory Sender_Runs
  imports Sender_Correct
begin

text \<open>
  Runs of the sender and the properties of \<open>libsponge/tcp_sender.cc\<close> over them: what is in
  flight, what every segment says, how the window is used, what an acknowledgment removes,
  how the timer backs off, and what an acknowledgment of data never sent does.
\<close>

section \<open>Every run\<close>

text \<open>
  A run of a sender whose application will have written the stream \<open>S\<close>: it writes the next
  bytes of \<open>S\<close>, ends the stream when all of \<open>S\<close> is in, the window is filled, any
  acknowledgment arrives, time passes, empty segments are sent and the queue is drained.
\<close>

inductive snd_reachable :: "byte list \<Rightarrow> wrapping_int32 \<Rightarrow> tcp_sender \<Rightarrow> bool" for S isn where
  snd_start: "snd_isn (tcp_sender_new C T fi rnd) = isn \<Longrightarrow> snd_reachable S isn (tcp_sender_new C T fi rnd)"
| snd_write: "snd_reachable S isn s \<Longrightarrow> honest S d (bs_writtensize (snd_stream s)) False \<Longrightarrow>
    snd_reachable S isn (s\<lparr>snd_stream := snd (bs_write d (snd_stream s))\<rparr>)"
| snd_end: "snd_reachable S isn s \<Longrightarrow> bs_writtensize (snd_stream s) = length S \<Longrightarrow>
    snd_reachable S isn (s\<lparr>snd_stream := bs_end_input (snd_stream s)\<rparr>)"
| snd_fill: "snd_reachable S isn s \<Longrightarrow> snd_reachable S isn (fill_window s)"
| snd_ack: "snd_reachable S isn s \<Longrightarrow> snd_reachable S isn (ack_received a w s)"
| snd_time: "snd_reachable S isn s \<Longrightarrow> snd_reachable S isn (snd_tick ms s)"
| snd_empty: "snd_reachable S isn s \<Longrightarrow> snd_reachable S isn (send_empty_segment s)"
| snd_drain: "snd_reachable S isn s \<Longrightarrow> snd_reachable S isn (s\<lparr>snd_segments_out := []\<rparr>)"

text \<open>Segments that say the truth about \<open>S\<close>.\<close>

definition seg_true :: "byte list \<Rightarrow> wrapping_int32 \<Rightarrow> tcp_segment \<Rightarrow> bool" where
  "seg_true S isn seg \<longleftrightarrow> bare seg \<or> (\<exists>n. seg_at S isn n seg)"

lemma seg_chain_true: "seg_chain S isn n segs m \<Longrightarrow> seg \<in> set segs \<Longrightarrow> seg_true S isn seg"
  using seg_chain_member by (fastforce simp: seg_true_def)

lemma snd_inv_write:
  assumes i: "snd_inv S s" and h: "honest S d (bs_writtensize (snd_stream s)) False"
  shows "snd_inv S (s\<lparr>snd_stream := snd (bs_write d (snd_stream s))\<rparr>)"
proof -
  let ?b = "snd_stream s"
  have "bs_carries S (snd (bs_write d ?b))"
    using i h by (intro bsq.carries_put) (auto simp: snd_inv_def snd_core_def honest_def)
  moreover have "bs_end ?b \<Longrightarrow> d = []"
    using i h by (auto simp: snd_inv_def snd_core_def honest_def)
  moreover have "snd_set_fin s \<Longrightarrow> bs_end ?b \<and> bs_readsize ?b = bs_writtensize ?b"
    using i by (auto simp: snd_inv_def snd_core_def bs_eof_def)
  ultimately show ?thesis
    using i by (auto simp: snd_inv_def snd_core_def bs_eof_def)
qed

lemma snd_inv_end:
  assumes "snd_inv S s" and "bs_writtensize (snd_stream s) = length S"
  shows "snd_inv S (s\<lparr>snd_stream := bs_end_input (snd_stream s)\<rparr>)"
  using assms by (auto simp: snd_inv_def snd_core_def bs_eof_def bsq.carries_def)

lemma snd_reachable_inv:
  assumes "snd_reachable S isn s" and "length S + 2 < 2 ^ 31"
  shows "snd_inv S s \<and> snd_isn s = isn \<and> (\<forall>seg \<in> set (snd_segments_out s). seg_true S isn seg)"
  using assms(1)
proof (induction rule: snd_reachable.induct)
  case (snd_start C T fi rnd)
  moreover have "snd_segments_out (tcp_sender_new C T fi rnd) = []"
    by (simp add: tcp_sender_new_def)
  ultimately show ?case
    using snd_inv_new by simp
next
  case (snd_write s d)
  then show ?case
    using snd_inv_write by simp
next
  case (snd_end s)
  then show ?case
    using snd_inv_end by simp
next
  case (snd_fill s)
  then obtain new where n: "snd_sent S s new (fill_window s)"
    using fill_window_sent(1) by (metis snd_inv_def)
  then show ?case
    using snd_fill.IH snd_sent_inv [OF _ n] seg_chain_true
    by (auto simp: snd_sent_def snd_frame_def)
next
  case (snd_ack s a w)
  then show ?case
    using ack_received_inv [OF _ assms(2), of s a w] by simp
next
  case (snd_time s ms)
  have "seg_true S isn (hd (snd_wait_ack s))" if "snd_wait_ack s \<noteq> []"
    using that snd_time.IH seg_chain_true [of S isn _ "snd_wait_ack s"]
    by (auto simp: snd_inv_def)
  then show ?case
    using snd_time.IH snd_tick_out [of ms s] by (auto simp: snd_tick_inv snd_tick_fields)
next
  case (snd_empty s)
  then show ?case
    by (auto simp: send_empty_inv) (auto simp: send_empty_segment_def seg_true_def bare_def net_defs)
next
  case (snd_drain s)
  then show ?case
    using snd_inv_cong [of "s\<lparr>snd_segments_out := []\<rparr>" s S] by simp
qed

section \<open>Properties\<close>

text \<open>
  C7. In every run the outstanding segments are consecutive pieces of the outgoing stream,
  SYN first and FIN last, that end at the next sequence number, and the bytes in flight are
  the sum of their lengths; every segment queued for sending is empty or tells the truth
  about the stream.
\<close>

theorem sender_in_flight:
  assumes "snd_reachable S isn s" and "length S + 2 < 2 ^ 31"
  shows "seg_chain S isn (snd_next_seqno s - snd_bytes_in_flight s) (snd_wait_ack s) (snd_next_seqno s) \<and>
    snd_bytes_in_flight s = sum_list (map length_in_sequence_space (snd_wait_ack s)) \<and>
    snd_next_seqno s \<le> length S + 2 \<and>
    (\<forall>seg \<in> set (snd_segments_out s). bare seg \<or> (\<exists>n. seg_at S isn n seg))"
proof -
  have i: "snd_inv S s" "snd_isn s = isn" "\<forall>seg \<in> set (snd_segments_out s). seg_true S isn seg"
    using snd_reachable_inv [OF assms] by auto
  then have c: "seg_chain S isn (snd_next_seqno s - snd_flight_bytes s) (snd_wait_ack s) (snd_next_seqno s)"
    "snd_flight_bytes s \<le> snd_next_seqno s" "snd_core S s"
    by (simp_all add: snd_inv_def)
  then show ?thesis
    using seg_chain_sum [OF c(1)] snd_core_bound [OF c(3)] i(3)
    by (auto simp: snd_bytes_in_flight_def seg_true_def)
qed

definition demo_sender :: tcp_sender where
  "demo_sender = tcp_sender_new 100 1000 (Some 5) 0"

lemma demo_reachable: "snd_reachable [1, 2, 3] 5 (fill_window demo_sender)"
  unfolding demo_sender_def by (intro snd_fill snd_start) (simp add: tcp_sender_new_def)

theorem sender_in_flight_witness: "snd_next_seqno (fill_window demo_sender) \<le> 5"
  using sender_in_flight [OF demo_reachable] by simp

text \<open>
  C8. Filling the window: nothing is sent past the number the sender holds as acknowledged
  (\<open>_ackno\<close>) plus the window (a closed window counts as 1) beyond what was sent before, no segment carries more than the
  maximal payload, and the sender stops short of the window only after its FIN or for lack
  of data.
\<close>

theorem sender_fills_window:
  assumes "snd_reachable S isn s" and "length S + 2 < 2 ^ 31"
  shows "let s' = fill_window s; limit = snd_ackno s + max 1 (snd_window_sz s)
    in snd_next_seqno s' \<le> max (snd_next_seqno s) limit \<and>
       (\<exists>new. snd_segments_out s' = snd_segments_out s @ new \<and> snd_wait_ack s' = snd_wait_ack s @ new \<and>
          seg_chain S isn (snd_next_seqno s) new (snd_next_seqno s') \<and>
          (\<forall>seg \<in> set new. length (payload seg) \<le> MAX_PAYLOAD_SIZE)) \<and>
       (snd_set_fin s' \<or> limit \<le> snd_next_seqno s' \<or>
        bs_buffer_size (snd_stream s') = 0 \<and> \<not> bs_eof (snd_stream s'))"
proof -
  have c: "snd_core S s" and isn: "snd_isn s = isn"
    using snd_reachable_inv [OF assms] by (auto simp: snd_inv_def)
  obtain new where "snd_sent S s new (fill_window s)"
    using fill_window_sent(1) [OF c] by blast
  then show ?thesis
    using fill_window_sent(2,3) [OF c] isn
    unfolding Let_def snd_limit_def bs_buffer_size_def snd_sent_def by auto
qed

lemma demo_filled: "snd_next_seqno (fill_window demo_sender) = 1" "snd_ackno (fill_window demo_sender) = 0"
  "snd_window_sz (fill_window demo_sender) = 1" "\<not> snd_set_fin (fill_window demo_sender)"
  by code_simp+

theorem sender_fills_window_witness: "snd_next_seqno (fill_window (fill_window demo_sender)) \<le> 1"
  using sender_fills_window [OF demo_reachable] by (simp add: demo_filled Let_def)

text \<open>
  C32. An acknowledgment of data that was sent removes exactly the outstanding segments it
  covers, from the front: what was removed ends at or before the acknowledged number, the rest
  starts with a segment that reaches past it, and the bytes in flight are what is left of them.
  When it removes something the timer falls back to its initial timeout and runs only if
  something is still outstanding; otherwise the timer and the count are as they were.
\<close>

theorem sender_ack:
  assumes "snd_reachable S isn s" and "length S + 2 < 2 ^ 31" and "n \<le> snd_next_seqno s"
  shows "let s' = ack_received (wrap (of_nat n) isn) w s; t = snd_timer s'
    in \<exists>gone. snd_wait_ack s = gone @ snd_wait_ack s' \<and> snd_ackno s' = n \<and> snd_window_sz s' = unat w \<and>
       snd_bytes_in_flight s = snd_bytes_in_flight s' + sum_list (map length_in_sequence_space gone) \<and>
       (gone \<noteq> [] \<longrightarrow> snd_next_seqno s - snd_bytes_in_flight s + sum_list (map length_in_sequence_space gone) \<le> n) \<and>
       (snd_wait_ack s' \<noteq> [] \<longrightarrow>
          n < snd_next_seqno s - snd_bytes_in_flight s' + length_in_sequence_space (hd (snd_wait_ack s'))) \<and>
       (gone \<noteq> [] \<longrightarrow> snd_consecutive_transmit_num s' = 0 \<and> tm_timeout t = tm_init_timeout t \<and>
          (tm_active t \<longleftrightarrow> snd_wait_ack s' \<noteq> [])) \<and>
       (gone = [] \<longrightarrow> t = snd_timer s \<and> snd_consecutive_transmit_num s' = snd_consecutive_transmit_num s)"
proof -
  have i: "snd_inv S s" and isn: "snd_isn s = isn"
    using snd_reachable_inv [OF assms(1,2)] by auto
  let ?m = "snd_next_seqno s" and ?s' = "ack_received (wrap (of_nat n) isn) w s"
  have c: "snd_flight_bytes s \<le> ?m" "seg_chain S isn (?m - snd_flight_bytes s) (snd_wait_ack s) ?m" "?m < 2 ^ 31"
    using i isn snd_core_bound [of S s] assms(2) by (auto simp: snd_inv_def)
  obtain wait' flight' nd' where
    l: "ack_loop isn ?m n (snd_wait_ack s) (snd_flight_bytes s) False = (wait', flight', nd')"
    by (metis surj_pair)
  note spec = ack_loop_spec [OF c(2,1,3) l]
  then obtain gone where gone: "snd_wait_ack s = gone @ wait'" "nd' \<longleftrightarrow> gone \<noteq> []"
    by auto
  have u: "unat (unwrap (wrap (of_nat n) isn) isn (of_nat ?m)) = n"
    using assms(3) c(3) by (intro unwrap_near) simp_all
  have f: "snd_wait_ack ?s' = wait'" "snd_flight_bytes ?s' = flight'" "snd_ackno ?s' = n"
    "snd_window_sz ?s' = unat w" "nd' \<Longrightarrow> snd_consecutive_transmit_num ?s' = 0"
    "nd' \<Longrightarrow> snd_timer ?s' = (let t = timer_reset (snd_timer s) in if wait' \<noteq> [] then timer_start t else timer_stop t)"
    "\<not> nd' \<Longrightarrow> snd_timer ?s' = snd_timer s \<and> snd_consecutive_transmit_num ?s' = snd_consecutive_transmit_num s"
    using assms(3) u l isn by (simp_all add: ack_received_def Let_def)
  have sum: "snd_flight_bytes s = flight' + sum_list (map length_in_sequence_space gone)"
    using seg_chain_sum [OF c(2)] seg_chain_sum [of S isn "?m - flight'" wait' ?m] spec gone(1) c(1) by auto
  have "?m - snd_flight_bytes s + sum_list (map length_in_sequence_space gone) \<le> n" if "gone \<noteq> []"
  proof -
    have "0 < sum_list (map length_in_sequence_space gone)"
      using that c(2) unfolding gone(1) by (cases gone) auto
    then show ?thesis
      using spec sum c(1) by auto
  qed
  then show ?thesis
    using spec gone f sum unfolding Let_def snd_bytes_in_flight_def
    by (intro exI [of _ gone]) (auto simp: timer_defs Let_def)
qed

theorem sender_ack_witness:
  "snd_ackno (ack_received (wrap (of_nat 1) 5) 10 (fill_window demo_sender)) = 1"
  using sender_ack [OF demo_reachable, of 1 10] by (auto simp: demo_filled Let_def)

section \<open>Retransmission\<close>

text \<open>Letting the timer run out once.\<close>

definition expire_once :: "tcp_sender \<Rightarrow> tcp_sender" where
  "expire_once s = snd_tick (unat (tm_timeout (snd_timer s))) s"

lemma expire_once_eq:
  assumes "tm_active (snd_timer s)" "tm_cur_time (snd_timer s) = 0" "snd_wait_ack s \<noteq> []"
    "0 < snd_window_sz s" "snd_window_sz s < 2 ^ 16"
  shows "expire_once s =
    s\<lparr>snd_timer := timer_start ((snd_timer s)\<lparr>tm_timeout := tm_timeout (snd_timer s) * 2\<rparr>),
      snd_consecutive_transmit_num := snd_consecutive_transmit_num s + 1,
      snd_segments_out := snd_segments_out s @ [hd (snd_wait_ack s)]\<rparr>"
proof -
  have "unat (of_nat (snd_window_sz s) :: u16) = snd_window_sz s"
    using assms(5) by (simp add: unat_of_nat)
  then have "(of_nat (snd_window_sz s) :: u16) \<noteq> 0"
    using assms(4) by (metis unat_0 less_irrefl)
  then show ?thesis
    using assms(1-3) by (simp add: expire_once_def snd_tick_def timer_defs Let_def)
qed

text \<open>
  C33. Exponential backoff: as long as nothing is acknowledged and the window is open, every
  time the timer runs out the oldest outstanding segment is sent again, the timeout doubles
  and the count of consecutive retransmissions grows by one; the timer keeps running.
\<close>

theorem sender_backoff:
  assumes "tm_active (snd_timer s)" "tm_cur_time (snd_timer s) = 0" "snd_wait_ack s = seg # rest"
    "0 < snd_window_sz s" "snd_window_sz s < 2 ^ 16"
  shows "let s' = (expire_once ^^ k) s
    in tm_timeout (snd_timer s') = tm_timeout (snd_timer s) * 2 ^ k \<and>
       snd_consecutive_transmit_num s' = snd_consecutive_transmit_num s + of_nat k \<and>
       snd_segments_out s' = snd_segments_out s @ replicate k seg \<and>
       snd_wait_ack s' = seg # rest \<and> snd_window_sz s' = snd_window_sz s \<and>
       tm_active (snd_timer s') \<and> tm_cur_time (snd_timer s') = 0"
proof (induction k)
  case (Suc k)
  let ?s = "(expire_once ^^ k) s"
  from Suc have h: "tm_active (snd_timer ?s)" "tm_cur_time (snd_timer ?s) = 0" "snd_wait_ack ?s = seg # rest"
    "snd_window_sz ?s = snd_window_sz s"
    by (simp_all add: Let_def)
  have "expire_once ?s = ?s\<lparr>snd_timer := timer_start ((snd_timer ?s)\<lparr>tm_timeout := tm_timeout (snd_timer ?s) * 2\<rparr>),
      snd_consecutive_transmit_num := snd_consecutive_transmit_num ?s + 1,
      snd_segments_out := snd_segments_out ?s @ [seg]\<rparr>"
    using expire_once_eq [of ?s] h assms(4,5) by simp
  then show ?case
    using Suc by (simp add: Let_def timer_defs replicate_append_same mult.assoc add.commute add.left_commute)
qed (use assms in simp)

theorem sender_backoff_witness:
  "tm_timeout (snd_timer ((expire_once ^^ 3) (fill_window demo_sender))) = 8000"
proof -
  have "tm_active (snd_timer (fill_window demo_sender))" "tm_cur_time (snd_timer (fill_window demo_sender)) = 0"
    "snd_wait_ack (fill_window demo_sender) = [hd (snd_wait_ack (fill_window demo_sender))]"
    "tm_timeout (snd_timer (fill_window demo_sender)) = 1000"
    by code_simp+
  then show ?thesis
    using sender_backoff [of "fill_window demo_sender" "hd (snd_wait_ack (fill_window demo_sender))" "[]" 3]
    by (simp add: demo_filled Let_def)
qed

section \<open>Acknowledgments of data never sent\<close>

text \<open>
  C34. An acknowledgment of a number that was never sent is meant to be ignored, but
  \<open>_ackno\<close> has moved by then, while the window and the outstanding segments stay as they were. In
  every run of a sender that has sent its SYN and not its FIN, the next call of \<open>fill_window\<close> sends
  all that is buffered up to the impossible number plus the window; so when more is buffered than
  the peer's window has room for, and the number is beyond the one acknowledged before, it sends
  past the window.
\<close>

theorem sender_impossible_ack_opens_window:
  assumes r: "snd_reachable S isn s" and b: "length S + 2 < 2 ^ 31" and n: "snd_next_seqno s < n" "n < 2 ^ 31"
    and open_: "0 < snd_next_seqno s" "\<not> snd_set_fin s"
  shows "let s' = ack_received (wrap (of_nat n) isn) w s; old_limit = snd_ackno s + max 1 (snd_window_sz s)
    in snd_ackno s' = n \<and> snd_window_sz s' = snd_window_sz s \<and> snd_wait_ack s' = snd_wait_ack s \<and>
       min (n + max 1 (snd_window_sz s)) (snd_next_seqno s + bs_buffer_size (snd_stream s)) \<le> snd_next_seqno (fill_window s') \<and>
       (snd_ackno s < n \<and> old_limit < snd_next_seqno s + bs_buffer_size (snd_stream s) \<longrightarrow>
          old_limit < snd_next_seqno (fill_window s'))"
proof -
  let ?s' = "ack_received (wrap (of_nat n) isn) w s"
  have i: "snd_inv S s" and isn: "snd_isn s = isn"
    using snd_reachable_inv [OF r b] by auto
  have m: "snd_next_seqno s < 2 ^ 31"
    using i snd_core_bound [of S s] b by (auto simp: snd_inv_def)
  have u: "unat (unwrap (wrap (of_nat n) isn) isn (of_nat (snd_next_seqno s))) = n"
    using n m by (intro unwrap_near) simp_all
  have s': "?s' = s\<lparr>snd_ackno := n\<rparr>"
    using ack_received_future [of s "wrap (of_nat n) isn" w] n u isn by simp
  have c: "snd_core S (s\<lparr>snd_ackno := n\<rparr>)" "snd_core S s"
    using i snd_core_cong [of "s\<lparr>snd_ackno := n\<rparr>" s S] by (simp_all add: snd_inv_def)
  define t where "t = fill_window (s\<lparr>snd_ackno := n\<rparr>)"
  obtain new where "snd_sent S (s\<lparr>snd_ackno := n\<rparr>) new t"
    using fill_window_sent(1) [OF c(1)] unfolding t_def by blast
  then have f: "snd_core S t" "bs_writtensize (snd_stream t) = bs_writtensize (snd_stream s)" "snd_next_seqno s \<le> snd_next_seqno t"
    using seg_chain_le by (auto simp: snd_sent_def snd_frame_def)
  have q: "bs_readsize (snd_stream x) + length (bs_que (snd_stream x)) = bs_writtensize (snd_stream x)" if "snd_core S x" for x
    using that bsq.balance [of "snd_stream x"] by (auto simp: snd_core_def bsq.carries_def)
  have next_s: "snd_next_seqno s = 1 + bs_readsize (snd_stream s)"
    using c(2) open_ by (simp add: snd_core_def)
  have next_t: "snd_next_seqno t = 1 + bs_readsize (snd_stream t) + (if snd_set_fin t then 1 else 0)"
    "snd_set_fin t \<Longrightarrow> bs_readsize (snd_stream t) = bs_writtensize (snd_stream t)"
    using f(1,3) open_(1) by (auto simp: snd_core_def bs_eof_def split: if_splits)
  have "snd_set_fin t \<or> n + max 1 (snd_window_sz s) \<le> snd_next_seqno t \<or> bs_que (snd_stream t) = []"
    using fill_window_sent(3) [OF c(1)] by (auto simp: t_def [symmetric] snd_limit_def)
  then have "min (n + max 1 (snd_window_sz s)) (snd_next_seqno s + bs_buffer_size (snd_stream s)) \<le> snd_next_seqno t"
    using next_t next_s q [OF c(2)] q [OF f(1)] f(2) by (auto simp: bs_buffer_size_def)
  then show ?thesis
    unfolding Let_def s' t_def [symmetric] by auto
qed

theorem sender_impossible_ack_opens_window_witness:
  "4 < snd_next_seqno (fill_window (ack_received (wrap (of_nat 100) 5) 4
     ((ack_received (wrap (of_nat 1) 5) 3 (fill_window demo_sender))
        \<lparr>snd_stream := snd (bs_write (replicate 10 65) (snd_stream (ack_received (wrap (of_nat 1) 5) 3 (fill_window demo_sender))))\<rparr>)))"
proof -
  let ?a = "ack_received (wrap (of_nat 1) 5) 3 (fill_window demo_sender)"
  let ?s = "?a\<lparr>snd_stream := snd (bs_write (replicate 10 65) (snd_stream ?a))\<rparr>"
  have "bs_writtensize (snd_stream ?a) = 0"
    by code_simp
  moreover have "snd_reachable (replicate 10 65) 5 (fill_window demo_sender)"
    unfolding demo_sender_def by (intro snd_fill snd_start) (simp add: tcp_sender_new_def)
  ultimately have "snd_reachable (replicate 10 65) 5 ?s"
    by (intro snd_write snd_ack) (simp_all add: honest_def piece_def)
  moreover have "snd_next_seqno ?s = 1" "\<not> snd_set_fin ?s" "snd_ackno ?s = 1" "snd_window_sz ?s = 3" "bs_buffer_size (snd_stream ?s) = 10"
    by code_simp+
  ultimately show ?thesis
    using sender_impossible_ack_opens_window [of "replicate 10 65" 5 ?s 100 4] by (simp add: Let_def)
qed

end
