(* ===== verification/TCP_Connection.thy ===== *)
theory TCP_Connection
  imports Sender_Runs
begin

text \<open>
  A TCP endpoint: \<open>libsponge/tcp_connection.hh\<close>, \<open>libsponge/tcp_connection.cc\<close>, the
  configuration of \<open>libsponge/tcp_helpers/tcp_config.hh\<close> and the state summaries of
  \<open>libsponge/tcp_helpers/tcp_state.hh\<close> and \<open>tcp_state.cc\<close>. Every handler is modelled whole.
\<close>

section \<open>Configuration and state\<close>

record tcp_config =
  cfg_rt_timeout :: u16
  cfg_recv_capacity :: nat
  cfg_send_capacity :: nat
  cfg_fixed_isn :: "wrapping_int32 option"

definition tcp_config_default :: tcp_config where
  "tcp_config_default = \<lparr>cfg_rt_timeout = TIMEOUT_DFLT, cfg_recv_capacity = DEFAULT_CAPACITY,
     cfg_send_capacity = DEFAULT_CAPACITY, cfg_fixed_isn = None\<rparr>"

record tcp_connection =
  conn_cfg :: tcp_config
  conn_receiver :: tcp_receiver
  conn_sender :: tcp_sender
  conn_segments_out :: "tcp_segment list"
  conn_linger_after_streams_finish :: bool
  conn_active :: bool
  conn_wait_segment_time :: nat

text \<open>The random number of the sender's constructor is an argument.\<close>

definition tcp_connection_new :: "tcp_config \<Rightarrow> u32 \<Rightarrow> tcp_connection" where
  "tcp_connection_new cfg random =
     \<lparr>conn_cfg = cfg, conn_receiver = tcp_receiver_new (cfg_recv_capacity cfg),
      conn_sender = tcp_sender_new (cfg_send_capacity cfg) (cfg_rt_timeout cfg) (cfg_fixed_isn cfg) random,
      conn_segments_out = [], conn_linger_after_streams_finish = True, conn_active = True,
      conn_wait_segment_time = 0\<rparr>"

section \<open>Helpers of the handlers\<close>

definition conn_remaining_outbound_capacity :: "tcp_connection \<Rightarrow> nat" where
  "conn_remaining_outbound_capacity c = bs_remaining_capacity (snd_stream (conn_sender c))"

definition conn_bytes_in_flight :: "tcp_connection \<Rightarrow> nat" where
  "conn_bytes_in_flight c = snd_bytes_in_flight (conn_sender c)"

definition conn_unassembled_bytes :: "tcp_connection \<Rightarrow> nat" where
  "conn_unassembled_bytes c = rcv_unassembled_bytes (conn_receiver c)"

text \<open>The fields the connection adds to an outgoing segment; the window is cut to 16 bits.\<close>

definition stamp :: "tcp_receiver \<Rightarrow> tcp_segment \<Rightarrow> tcp_segment" where
  "stamp r seg =
     (case rcv_ackno r of
        Some a \<Rightarrow> seg\<lparr>header := (header seg)\<lparr>ack := True, ackno := a, win := of_nat (rcv_window_size r)\<rparr>\<rparr>
      | None \<Rightarrow> seg)"

text \<open>The loop empties the sender's queue front to back.\<close>

definition send_segments :: "tcp_connection \<Rightarrow> tcp_connection" where
  "send_segments c =
     c\<lparr>conn_segments_out := conn_segments_out c @
         map (stamp (conn_receiver c)) (snd_segments_out (conn_sender c)),
       conn_sender := (conn_sender c)\<lparr>snd_segments_out := []\<rparr>\<rparr>"

definition clean_close_ready :: "tcp_connection \<Rightarrow> bool" where
  "clean_close_ready c \<longleftrightarrow>
     bs_eof (snd_stream (conn_sender c)) \<and> bs_input_ended (rcv_stream_out (conn_receiver c)) \<and>
     conn_bytes_in_flight c = 0 \<and>
     snd_next_seqno (conn_sender c) = bs_bytes_written (snd_stream (conn_sender c)) + 2 \<and>
     (conn_wait_segment_time c \<ge> 10 * unat (cfg_rt_timeout (conn_cfg c)) \<or>
      \<not> conn_linger_after_streams_finish c)"

definition try_clean_close :: "tcp_connection \<Rightarrow> tcp_connection" where
  "try_clean_close c = (if clean_close_ready c then c\<lparr>conn_active := False\<rparr> else c)"

definition send_rst_seg :: "tcp_connection \<Rightarrow> tcp_connection" where
  "send_rst_seg c =
     (let seg = \<lparr>header = tcp_header_new\<lparr>rst := True, seqno := snd_next_seqno_wrapped (conn_sender c)\<rparr>,
                 payload = []\<rparr>
      in c\<lparr>conn_segments_out := conn_segments_out c @ [stamp (conn_receiver c) seg]\<rparr>)"

text \<open>Both streams get the error flag.\<close>

definition set_stream_errors :: "tcp_connection \<Rightarrow> tcp_connection" where
  "set_stream_errors c =
     c\<lparr>conn_receiver := (conn_receiver c)\<lparr>rcv_reassembler :=
         (rcv_reassembler (conn_receiver c))\<lparr>ra_output := bs_set_error (rcv_stream_out (conn_receiver c))\<rparr>\<rparr>,
       conn_sender := (conn_sender c)\<lparr>snd_stream := bs_set_error (snd_stream (conn_sender c))\<rparr>\<rparr>"

section \<open>The handlers\<close>

definition conn_segment_received :: "tcp_segment \<Rightarrow> tcp_connection \<Rightarrow> tcp_connection" where
  "conn_segment_received seg c =
     (let c = c\<lparr>conn_wait_segment_time := 0\<rparr>
      in if rst (header seg) then set_stream_errors (c\<lparr>conn_active := False\<rparr>)
         else let c = c\<lparr>conn_receiver := rcv_segment_received seg (conn_receiver c)\<rparr>;
                  c = (case rcv_ackno (conn_receiver c) of
                         None \<Rightarrow> c
                       | Some _ \<Rightarrow>
                           let s = conn_sender c;
                               s = (if ack (header seg)
                                    then ack_received (ackno (header seg)) (win (header seg)) s else s);
                               s = fill_window s;
                               s = (if length_in_sequence_space seg > 0 \<and> snd_segments_out s = []
                                    then send_empty_segment s else s);
                               c = send_segments (c\<lparr>conn_sender := s\<rparr>)
                           in if \<not> bs_eof (snd_stream (conn_sender c)) \<and>
                                 bs_input_ended (rcv_stream_out (conn_receiver c))
                              then c\<lparr>conn_linger_after_streams_finish := False\<rparr> else c)
              in try_clean_close c)"

definition conn_write :: "byte list \<Rightarrow> tcp_connection \<Rightarrow> nat \<times> tcp_connection" where
  "conn_write data c =
     (let (writesize, b) = bs_write data (snd_stream (conn_sender c));
          s = fill_window ((conn_sender c)\<lparr>snd_stream := b\<rparr>)
      in (writesize, try_clean_close (send_segments (c\<lparr>conn_sender := s\<rparr>))))"

definition conn_tick :: "nat \<Rightarrow> tcp_connection \<Rightarrow> tcp_connection" where
  "conn_tick ms c =
     (let c = c\<lparr>conn_sender := snd_tick ms (conn_sender c)\<rparr>
      in if snd_consecutive_transmit_num (conn_sender c) > MAX_RETX_ATTEMPTS
         then set_stream_errors ((send_rst_seg c)\<lparr>conn_active := False\<rparr>)
         else try_clean_close (send_segments
                (c\<lparr>conn_wait_segment_time := conn_wait_segment_time c + ms\<rparr>)))"

definition conn_end_input_stream :: "tcp_connection \<Rightarrow> tcp_connection" where
  "conn_end_input_stream c =
     (let s = (conn_sender c)\<lparr>snd_stream := bs_end_input (snd_stream (conn_sender c))\<rparr>
      in send_segments (c\<lparr>conn_sender := fill_window s\<rparr>))"

definition conn_connect :: "tcp_connection \<Rightarrow> tcp_connection" where
  "conn_connect c = send_segments (c\<lparr>conn_sender := fill_window (conn_sender c)\<rparr>)"

definition conn_destroy :: "tcp_connection \<Rightarrow> tcp_connection" where
  "conn_destroy c =
     (if conn_active c
      then send_segments ((set_stream_errors (send_rst_seg c))\<lparr>conn_active := False\<rparr>)
      else c)"

text \<open>The application's read of the inbound stream.\<close>

definition conn_read :: "nat \<Rightarrow> tcp_connection \<Rightarrow> byte list \<times> tcp_connection" where
  "conn_read n c = (let (d, r) = rcv_read n (conn_receiver c) in (d, c\<lparr>conn_receiver := r\<rparr>))"

lemmas conn_op_defs [conn_defs] = send_segments_def try_clean_close_def send_rst_seg_def
  set_stream_errors_def conn_segment_received_def conn_write_def conn_tick_def
  conn_end_input_stream_def conn_connect_def conn_destroy_def conn_read_def

section \<open>TCPState\<close>

datatype receiver_summary = RcvERROR | RcvLISTEN | RcvSYN_RECV | RcvFIN_RECV

datatype sender_summary = SndERROR | SndCLOSED | SndSYN_SENT | SndSYN_ACKED | SndFIN_SENT | SndFIN_ACKED

fun receiver_summary_text :: "receiver_summary \<Rightarrow> string" where
  "receiver_summary_text RcvERROR = ''error (connection was reset)''"
| "receiver_summary_text RcvLISTEN = ''waiting for SYN: ackno is empty''"
| "receiver_summary_text RcvSYN_RECV = ''SYN received (ackno exists), and input to stream hasn't ended''"
| "receiver_summary_text RcvFIN_RECV = ''input to stream has ended''"

fun sender_summary_text :: "sender_summary \<Rightarrow> string" where
  "sender_summary_text SndERROR = ''error (connection was reset)''"
| "sender_summary_text SndCLOSED = ''waiting for stream to begin (no SYN sent)''"
| "sender_summary_text SndSYN_SENT = ''stream started but nothing acknowledged''"
| "sender_summary_text SndSYN_ACKED = ''stream ongoing''"
| "sender_summary_text SndFIN_SENT = ''stream finished (FIN sent) but not fully acknowledged''"
| "sender_summary_text SndFIN_ACKED = ''stream finished and fully acknowledged''"

record tcp_state =
  st_sender :: string
  st_receiver :: string
  st_active :: bool
  st_linger :: bool

datatype official_state = LISTEN | SYN_RCVD | SYN_SENT | ESTABLISHED | CLOSE_WAIT | LAST_ACK |
  FIN_WAIT_1 | FIN_WAIT_2 | CLOSING | TIME_WAIT | CLOSED | RESET

definition mk_state :: "sender_summary \<Rightarrow> receiver_summary \<Rightarrow> bool \<Rightarrow> bool \<Rightarrow> tcp_state" where
  "mk_state s r a l = \<lparr>st_sender = sender_summary_text s, st_receiver = receiver_summary_text r,
     st_active = a, st_linger = l\<rparr>"

fun state_of :: "official_state \<Rightarrow> tcp_state" where
  "state_of LISTEN = mk_state SndCLOSED RcvLISTEN True True"
| "state_of SYN_RCVD = mk_state SndSYN_SENT RcvSYN_RECV True True"
| "state_of SYN_SENT = mk_state SndSYN_SENT RcvLISTEN True True"
| "state_of ESTABLISHED = mk_state SndSYN_ACKED RcvSYN_RECV True True"
| "state_of CLOSE_WAIT = mk_state SndSYN_ACKED RcvFIN_RECV True False"
| "state_of LAST_ACK = mk_state SndFIN_SENT RcvFIN_RECV True False"
| "state_of CLOSING = mk_state SndFIN_SENT RcvFIN_RECV True True"
| "state_of FIN_WAIT_1 = mk_state SndFIN_SENT RcvSYN_RECV True True"
| "state_of FIN_WAIT_2 = mk_state SndFIN_ACKED RcvSYN_RECV True True"
| "state_of TIME_WAIT = mk_state SndFIN_ACKED RcvFIN_RECV True True"
| "state_of RESET = mk_state SndERROR RcvERROR False False"
| "state_of CLOSED = mk_state SndFIN_ACKED RcvFIN_RECV False False"

definition receiver_state_summary :: "tcp_receiver \<Rightarrow> receiver_summary" where
  "receiver_state_summary r =
     (if bs_error (rcv_stream_out r) then RcvERROR
      else if rcv_ackno r = None then RcvLISTEN
      else if bs_input_ended (rcv_stream_out r) then RcvFIN_RECV
      else RcvSYN_RECV)"

definition sender_state_summary :: "tcp_sender \<Rightarrow> sender_summary" where
  "sender_state_summary s =
     (if bs_error (snd_stream s) then SndERROR
      else if snd_next_seqno s = 0 then SndCLOSED
      else if snd_next_seqno s = snd_bytes_in_flight s then SndSYN_SENT
      else if \<not> bs_eof (snd_stream s) then SndSYN_ACKED
      else if snd_next_seqno s < bs_bytes_written (snd_stream s) + 2 then SndSYN_ACKED
      else if snd_bytes_in_flight s \<noteq> 0 then SndFIN_SENT
      else SndFIN_ACKED)"

definition tcp_state_summary :: "tcp_sender \<Rightarrow> tcp_receiver \<Rightarrow> bool \<Rightarrow> bool \<Rightarrow> tcp_state" where
  "tcp_state_summary s r active linger =
     mk_state (sender_state_summary s) (receiver_state_summary r) active (if active then linger else False)"

definition conn_state :: "tcp_connection \<Rightarrow> tcp_state" where
  "conn_state c = tcp_state_summary (conn_sender c) (conn_receiver c) (conn_active c)
     (conn_linger_after_streams_finish c)"

definition tcp_state_eq :: "tcp_state \<Rightarrow> tcp_state \<Rightarrow> bool" where
  "tcp_state_eq a other \<longleftrightarrow> st_active a = st_active other \<and> st_linger a = st_linger other \<and>
     st_sender a = st_sender other \<and> st_receiver a = st_receiver other"

definition tcp_state_name :: "tcp_state \<Rightarrow> string" where
  "tcp_state_name t = ''sender=`'' @ st_sender t @ ''`, receiver=`'' @ st_receiver t @ ''`, active='' @
     (if st_active t then ''1'' else ''0'') @ '', linger_after_streams_finish='' @
     (if st_linger t then ''1'' else ''0'')"

lemmas state_defs [conn_defs] = mk_state_def tcp_state_summary_def conn_state_def

end
