(* ===== verification/Connection_Props.thy ===== *)
theory Connection_Props
  imports TCP_Connection
begin

text \<open>
  Properties of a single TCP endpoint: opening, resets, aborts, the acknowledgment carried by
  every segment, and that a connection that became inactive stays so.
\<close>

section \<open>Calls\<close>

datatype conn_call = Connect | Write_Data "byte list" | End_Input_Stream | Tick nat |
  Segment tcp_segment | Read_Data nat | Destroy

fun conn_do :: "conn_call \<Rightarrow> tcp_connection \<Rightarrow> tcp_connection" where
  "conn_do Connect c = conn_connect c"
| "conn_do (Write_Data d) c = snd (conn_write d c)"
| "conn_do End_Input_Stream c = conn_end_input_stream c"
| "conn_do (Tick ms) c = conn_tick ms c"
| "conn_do (Segment seg) c = conn_segment_received seg c"
| "conn_do (Read_Data n) c = snd (conn_read n c)"
| "conn_do Destroy c = conn_destroy c"

lemma active_simps [simp]:
  "conn_active (send_segments c) = conn_active c"
  "conn_active (set_stream_errors c) = conn_active c"
  "conn_active (send_rst_seg c) = conn_active c"
  "conn_active (try_clean_close c) \<longleftrightarrow> conn_active c \<and> \<not> clean_close_ready c"
  by (simp_all add: send_segments_def set_stream_errors_def send_rst_seg_def try_clean_close_def Let_def)

lemma conn_do_active: "conn_active (conn_do call c) \<Longrightarrow> conn_active c"
proof (cases call)
  case (Segment seg)
  assume "conn_active (conn_do call c)"
  then show ?thesis
    unfolding Segment conn_do.simps conn_segment_received_def Let_def
    by (simp split: if_splits option.splits)
qed (auto simp: conn_connect_def conn_write_def conn_end_input_stream_def conn_tick_def conn_read_def
    conn_destroy_def Let_def split: if_splits prod.splits)

text \<open>
  C35. Once a connection is inactive, no sequence of calls, segments and ticks makes it
  active again.
\<close>

theorem connection_never_revives:
  assumes "\<not> conn_active c"
  shows "\<not> conn_active (fold conn_do calls c)"
  using assms by (induction calls arbitrary: c) (auto dest: conn_do_active)

theorem connection_never_revives_witness:
  "\<not> conn_active (fold conn_do [Connect, Tick 5] (conn_destroy (tcp_connection_new tcp_config_default 9)))"
  by (rule connection_never_revives) (simp add: conn_destroy_def)

section \<open>Opening\<close>

lemma tcp_sender_new_fields [simp]:
  "snd_stream (tcp_sender_new c t fi rnd) = byte_stream_new c" "snd_next_seqno (tcp_sender_new c t fi rnd) = 0"
  "snd_set_fin (tcp_sender_new c t fi rnd) = False" "snd_wait_ack (tcp_sender_new c t fi rnd) = []"
  by (simp_all add: tcp_sender_new_def)

lemma fill_window_fresh:
  "fill_window (tcp_sender_new c t fi rnd) =
    (let s = tcp_sender_new c t fi rnd;
         seg = \<lparr>header = tcp_header_new\<lparr>seqno := snd_isn s, syn := True\<rparr>, payload = []\<rparr>
     in s\<lparr>snd_next_seqno := 1, snd_flight_bytes := 1, snd_segments_out := [seg], snd_wait_ack := [seg],
          snd_timer := timer_start (timer_new t)\<rparr>)"
proof -
  have "bs_pop_output 0 b = b" for b
    by (simp add: bs_pop_output_def Let_def)
  then show ?thesis
    by (simp add: fill_window_eq snd_limit_def fill_loop.simps make_segment_eq seg_len_def syn_room_def
        seg_data_def seg_fin_def seg_rest_def enqueue_segment_def tcp_sender_new_def Let_def
        snd_next_seqno_wrapped_def bs_eof_def timer_new_def timer_start_def byte_stream_new_def tcp_header_new_def)
qed

text \<open>
  Opening: a fresh connection is in state LISTEN; \<open>connect\<close> sends exactly one segment,
  a SYN with the initial sequence number and no acknowledgment, and enters SYN-SENT, for
  every configuration.
\<close>

theorem connect_sends_syn:
  "let c0 = tcp_connection_new cfg rnd; c = conn_connect c0
   in tcp_state_eq (conn_state c0) (state_of LISTEN) \<and> tcp_state_eq (conn_state c) (state_of SYN_SENT) \<and>
      conn_segments_out c =
        [\<lparr>header = tcp_header_new\<lparr>seqno := snd_isn (conn_sender c0), syn := True\<rparr>, payload = []\<rparr>] \<and>
      conn_bytes_in_flight c = 1"
  by (simp add: Let_def conn_connect_def send_segments_def tcp_connection_new_def fill_window_fresh
      stamp_def rcv_ackno_def tcp_receiver_new_def reassembler_new_def conn_state_def
      tcp_state_summary_def tcp_state_eq_def sender_state_summary_def receiver_state_summary_def
      rcv_stream_out_def mk_state_def conn_bytes_in_flight_def snd_bytes_in_flight_def)

section \<open>Resets and aborts\<close>

lemma state_after_errors:
  "\<not> conn_active c \<Longrightarrow> tcp_state_eq (conn_state (set_stream_errors c)) (state_of RESET)"
  by (simp add: conn_state_def tcp_state_summary_def tcp_state_eq_def sender_state_summary_def
      receiver_state_summary_def set_stream_errors_def rcv_stream_out_def mk_state_def)

text \<open>
  C36. A received RST, and a tick on which the count of consecutive retransmissions passes the
  limit, put any connection into the state RESET; the RST is taken silently, the abort sends
  exactly one RST as its last segment.
\<close>

theorem connection_reset:
  "(rst (header seg) \<longrightarrow>
      tcp_state_eq (conn_state (conn_segment_received seg c)) (state_of RESET) \<and>
      conn_segments_out (conn_segment_received seg c) = conn_segments_out c) \<and>
   (snd_consecutive_transmit_num (snd_tick ms (conn_sender c)) > MAX_RETX_ATTEMPTS \<longrightarrow>
      tcp_state_eq (conn_state (conn_tick ms c)) (state_of RESET) \<and>
      (\<exists>seg. conn_segments_out (conn_tick ms c) = conn_segments_out c @ [seg] \<and> rst (header seg)))"
proof (intro conjI impI)
  assume r: "rst (header seg)"
  show "tcp_state_eq (conn_state (conn_segment_received seg c)) (state_of RESET)"
    using r state_after_errors [of "c\<lparr>conn_wait_segment_time := 0, conn_active := False\<rparr>"]
    by (simp add: conn_segment_received_def)
  show "conn_segments_out (conn_segment_received seg c) = conn_segments_out c"
    using r by (simp add: conn_segment_received_def set_stream_errors_def)
next
  assume m: "snd_consecutive_transmit_num (snd_tick ms (conn_sender c)) > MAX_RETX_ATTEMPTS"
  then have e: "conn_tick ms c =
      set_stream_errors ((send_rst_seg (c\<lparr>conn_sender := snd_tick ms (conn_sender c)\<rparr>))\<lparr>conn_active := False\<rparr>)"
    by (simp add: conn_tick_def)
  show "tcp_state_eq (conn_state (conn_tick ms c)) (state_of RESET)"
    unfolding e by (rule state_after_errors) simp
  show "\<exists>seg. conn_segments_out (conn_tick ms c) = conn_segments_out c @ [seg] \<and> rst (header seg)"
    unfolding e by (simp add: set_stream_errors_def send_rst_seg_def stamp_def Let_def split: option.split)
qed

theorem connection_reset_witness:
  "tcp_state_eq (conn_state (conn_segment_received
     \<lparr>header = tcp_header_new\<lparr>rst := True\<rparr>, payload = []\<rparr> (tcp_connection_new tcp_config_default 9))) (state_of RESET)"
  using connection_reset [of "\<lparr>header = tcp_header_new\<lparr>rst := True\<rparr>, payload = []\<rparr>"] by simp

section \<open>The handshake\<close>

lemma fill_window_idle:
  assumes "bs_que (snd_stream s) = []" "\<not> bs_eof (snd_stream s)" "0 < snd_next_seqno s"
  shows "fill_window s = s"
proof -
  have r: "seg_rest ws s = snd_stream s" for ws
    using assms(1) by (simp add: seg_rest_def bs_pop_output_def)
  have "\<exists>seg. make_segment ws s = (seg, 0, s)" for ws
    using assms by (simp add: make_segment_eq seg_len_def syn_room_def seg_data_def seg_fin_def r)
  then have "fill_loop ws s = s" for ws
  proof -
    obtain seg where m: "make_segment ws s = (seg, 0, s)"
      using \<open>\<And>ws. \<exists>seg. make_segment ws s = (seg, 0, s)\<close> by blast
    show ?thesis
      by (subst fill_loop.simps) (simp add: m)
  qed
  then show ?thesis
    by (simp add: fill_window_eq)
qed

text \<open>A receiver that has the peer's SYN and nothing else.\<close>

definition rcv_opened :: "nat \<Rightarrow> wrapping_int32 \<Rightarrow> tcp_receiver" where
  "rcv_opened cap isn = (tcp_receiver_new cap)\<lparr>rcv_isn := isn, rcv_set_isn := True\<rparr>"

lemma push_nothing: "push_substring [] 0 False (reassembler_new c) = reassembler_new c"
  by (simp add: push_substring_def fetch_valid_data_def reassembler_new_def bs_defs byte_stream_new_def)

lemma rcv_accept_opened:
  "payload seg = [] \<Longrightarrow> \<not> fin (header seg) \<Longrightarrow> rcv_accept seg 1 (rcv_opened cap isn) = rcv_opened cap isn"
  by (simp add: rcv_accept_def rcv_opened_def tcp_receiver_new_def push_nothing)

lemma rcv_opened_fields [simp]:
  "rcv_written (rcv_opened cap isn) = 0" "rcv_isn (rcv_opened cap isn) = isn" "rcv_set_isn (rcv_opened cap isn)"
  "rcv_ackno (rcv_opened cap isn) = Some (wrap 1 isn)" "rcv_window_size (rcv_opened cap isn) = cap"
  "rcv_stream_out (rcv_opened cap isn) = byte_stream_new cap"
  using rcv_ackno_eq [of "rcv_opened cap isn"]
  by (simp_all add: rcv_opened_def rcv_defs reassembler_new_def rcv_next_def bs_buffer_size_def
      bs_defs del: bs_write_fields)

lemma rcv_first_syn:
  assumes "syn (header seg)" "payload seg = []" "\<not> fin (header seg)"
  shows "rcv_segment_received seg (tcp_receiver_new cap) = rcv_opened cap (seqno (header seg))"
proof -
  let ?i = "seqno (header seg)"
  have "rcv_written (tcp_receiver_new cap) = 0"
    by (simp add: tcp_receiver_new_def rcv_stream_out_def reassembler_new_def)
  moreover have "unat (unwrap (wrap 1 ?i) ?i 0) = 1"
    using unwrap_near [of 0 1 ?i] by simp
  ultimately show ?thesis
    using assms rcv_accept_opened [of seg cap ?i]
    by (simp add: rcv_segment_received_syn rcv_opened_def)
qed

lemma rcv_opened_ack:
  assumes "bare seg" "seqno (header seg) = wrap 1 isn"
  shows "rcv_segment_received seg (rcv_opened cap isn) = rcv_opened cap isn"
proof -
  have "unat (unwrap (wrap 1 isn) isn 0) = 1"
    using unwrap_near [of 0 1 isn] by simp
  then show ?thesis
    using assms rcv_accept_opened [of seg cap isn] by (simp add: rcv_segment_received_data bare_def)
qed

text \<open>A sender whose SYN is out, and one whose SYN is acknowledged.\<close>

definition snd_syn_sent :: "tcp_config \<Rightarrow> u32 \<Rightarrow> tcp_sender" where
  "snd_syn_sent cfg rnd =
     (fill_window (tcp_sender_new (cfg_send_capacity cfg) (cfg_rt_timeout cfg) (cfg_fixed_isn cfg) rnd))\<lparr>snd_segments_out := []\<rparr>"

definition snd_opened :: "tcp_config \<Rightarrow> u32 \<Rightarrow> u16 \<Rightarrow> tcp_sender" where
  "snd_opened cfg rnd w = ack_received (wrap 1 (snd_isn (snd_syn_sent cfg rnd))) w (snd_syn_sent cfg rnd)"

lemma snd_opened_eq:
  "snd_opened cfg rnd w = (snd_syn_sent cfg rnd)\<lparr>snd_ackno := 1, snd_window_sz := unat w, snd_wait_ack := [],
     snd_flight_bytes := 0, snd_timer := timer_stop (timer_reset (snd_timer (snd_syn_sent cfg rnd))),
     snd_consecutive_transmit_num := 0\<rparr>"
proof -
  let ?s = "snd_syn_sent cfg rnd"
  have f: "snd_next_seqno ?s = 1" "snd_flight_bytes ?s = 1"
    "snd_wait_ack ?s = [\<lparr>header = tcp_header_new\<lparr>seqno := snd_isn ?s, syn := True\<rparr>, payload = []\<rparr>]"
    by (simp_all add: snd_syn_sent_def fill_window_fresh Let_def)
  have "unat (unwrap (wrap 1 isn) isn 1) = 1" "unat (unwrap isn isn 1) = 0" for isn
    using unwrap_near [of 1 1 isn] unwrap_near [of 1 0 isn] by simp_all
  then show ?thesis
    by (simp add: snd_opened_def ack_received_def f Let_def length_in_sequence_space_def tcp_header_new_def)
qed

lemma snd_opened_fill: "fill_window (snd_opened cfg rnd w) = snd_opened cfg rnd w"
  by (rule fill_window_idle)
    (simp_all add: snd_opened_eq snd_syn_sent_def fill_window_fresh Let_def bs_eof_def)

text \<open>The endpoint in the three stages of the handshake.\<close>

definition conn_syn_sent :: "tcp_config \<Rightarrow> u32 \<Rightarrow> tcp_connection" where
  "conn_syn_sent cfg rnd = (tcp_connection_new cfg rnd)\<lparr>conn_sender := snd_syn_sent cfg rnd\<rparr>"

definition conn_syn_rcvd :: "tcp_config \<Rightarrow> u32 \<Rightarrow> wrapping_int32 \<Rightarrow> tcp_connection" where
  "conn_syn_rcvd cfg rnd peer =
     (conn_syn_sent cfg rnd)\<lparr>conn_receiver := rcv_opened (cfg_recv_capacity cfg) peer\<rparr>"

definition conn_opened :: "tcp_config \<Rightarrow> u32 \<Rightarrow> wrapping_int32 \<Rightarrow> u16 \<Rightarrow> tcp_connection" where
  "conn_opened cfg rnd peer w = (conn_syn_rcvd cfg rnd peer)\<lparr>conn_sender := snd_opened cfg rnd w\<rparr>"

abbreviation own_isn :: "tcp_config \<Rightarrow> u32 \<Rightarrow> wrapping_int32" where
  "own_isn cfg rnd \<equiv> (case cfg_fixed_isn cfg of Some i \<Rightarrow> i | None \<Rightarrow> rnd)"

abbreviation syn_segment :: "wrapping_int32 \<Rightarrow> tcp_segment" where
  "syn_segment i \<equiv> \<lparr>header = tcp_header_new\<lparr>seqno := i, syn := True\<rparr>, payload = []\<rparr>"

lemma snd_stage_fields:
  "snd_next_seqno (snd_syn_sent cfg rnd) = 1" "snd_flight_bytes (snd_syn_sent cfg rnd) = 1"
  "snd_isn (snd_syn_sent cfg rnd) = own_isn cfg rnd" "snd_segments_out (snd_syn_sent cfg rnd) = []"
  "snd_stream (snd_syn_sent cfg rnd) = byte_stream_new (cfg_send_capacity cfg)"
  "snd_next_seqno (snd_opened cfg rnd w) = 1" "snd_flight_bytes (snd_opened cfg rnd w) = 0"
  "snd_isn (snd_opened cfg rnd w) = own_isn cfg rnd" "snd_segments_out (snd_opened cfg rnd w) = []"
  "snd_stream (snd_opened cfg rnd w) = byte_stream_new (cfg_send_capacity cfg)"
  by (simp_all add: snd_opened_eq snd_syn_sent_def fill_window_fresh Let_def)
    (simp_all add: tcp_sender_new_def)

lemma fill_window_new:
  "fill_window (tcp_sender_new (cfg_send_capacity cfg) (cfg_rt_timeout cfg) (cfg_fixed_isn cfg) rnd) =
     (snd_syn_sent cfg rnd)\<lparr>snd_segments_out := [syn_segment (own_isn cfg rnd)]\<rparr>"
  by (simp add: snd_syn_sent_def fill_window_fresh Let_def) (simp add: tcp_sender_new_def)

lemma snd_syn_sent_undo [simp]: "(snd_syn_sent cfg rnd)\<lparr>snd_segments_out := []\<rparr> = snd_syn_sent cfg rnd"
  by (simp add: snd_syn_sent_def)

lemma snd_opened_undo [simp]: "(snd_opened cfg rnd w)\<lparr>snd_segments_out := []\<rparr> = snd_opened cfg rnd w"
  by (simp add: snd_opened_eq snd_syn_sent_def)

lemma stage_not_closing:
  "\<not> clean_close_ready ((c :: tcp_connection)\<lparr>conn_receiver := rcv_opened cap isn\<rparr>)"
  "conn_receiver c = rcv_opened cap isn \<Longrightarrow> \<not> clean_close_ready c"
  by (simp_all add: clean_close_ready_def bs_input_ended_def)

lemma connect_stage:
  "conn_connect (tcp_connection_new cfg rnd) =
     (conn_syn_sent cfg rnd)\<lparr>conn_segments_out := [syn_segment (own_isn cfg rnd)]\<rparr>"
  by (simp add: conn_connect_def send_segments_def conn_syn_sent_def tcp_connection_new_def fill_window_new
      stamp_def rcv_ackno_def tcp_receiver_new_def)

lemma server_stage:
  "conn_segment_received (syn_segment i) (tcp_connection_new cfg rnd) =
     (conn_syn_rcvd cfg rnd i)\<lparr>conn_segments_out :=
       [stamp (rcv_opened (cfg_recv_capacity cfg) i) (syn_segment (own_isn cfg rnd))]\<rparr>"
proof -
  have "rcv_segment_received (syn_segment i) (tcp_receiver_new (cfg_recv_capacity cfg)) =
      rcv_opened (cfg_recv_capacity cfg) i"
    using rcv_first_syn [of "syn_segment i"] by (simp add: tcp_header_new_def)
  then show ?thesis
    by (simp add: conn_segment_received_def tcp_connection_new_def tcp_header_new_def fill_window_new
        send_segments_def conn_syn_rcvd_def conn_syn_sent_def bs_input_ended_def try_clean_close_def
        stage_not_closing Let_def)
qed

text \<open>Any segment that acknowledges the own SYN finishes the opening of the sender.\<close>

lemma client_stage:
  assumes seg: "seg = stamp (rcv_opened cap (own_isn cfg rnd)) (syn_segment j)"
  shows "conn_segment_received seg ((conn_syn_sent cfg rnd)\<lparr>conn_segments_out := out\<rparr>) =
    (conn_opened cfg rnd j (of_nat cap))\<lparr>conn_segments_out := out @
       [stamp (rcv_opened (cfg_recv_capacity cfg) j)
          \<lparr>header = tcp_header_new\<lparr>seqno := wrap 1 (own_isn cfg rnd)\<rparr>, payload = []\<rparr>]\<rparr>"
proof -
  have h: "seqno (header seg) = j" "syn (header seg)" "\<not> fin (header seg)" "\<not> rst (header seg)"
    "ack (header seg)" "ackno (header seg) = wrap 1 (own_isn cfg rnd)" "win (header seg) = of_nat cap"
    "payload seg = []" "length_in_sequence_space seg = 1"
    by (simp_all add: seg stamp_def tcp_header_new_def length_in_sequence_space_def)
  have r: "rcv_segment_received seg (tcp_receiver_new (cfg_recv_capacity cfg)) =
      rcv_opened (cfg_recv_capacity cfg) j"
    using rcv_first_syn [of seg] h by simp
  have s: "ack_received (wrap 1 (own_isn cfg rnd)) (of_nat cap) (snd_syn_sent cfg rnd) = snd_opened cfg rnd (of_nat cap)"
    by (simp add: snd_opened_def snd_stage_fields)
  have u: "(send_empty_segment (snd_opened cfg rnd w))\<lparr>snd_segments_out := []\<rparr> = snd_opened cfg rnd w" for w
    by (simp add: send_empty_segment_def)
  show ?thesis
    by (simp add: conn_segment_received_def h r s snd_opened_fill snd_stage_fields conn_syn_sent_def
        tcp_connection_new_def send_segments_def u bs_input_ended_def try_clean_close_def
        stage_not_closing Let_def conn_opened_def conn_syn_rcvd_def)
      (simp add: send_empty_segment_def snd_next_seqno_wrapped_def snd_stage_fields)
qed

lemma final_stage:
  assumes seg: "seg = stamp (rcv_opened cap (own_isn cfg rnd))
      \<lparr>header = tcp_header_new\<lparr>seqno := wrap 1 i\<rparr>, payload = []\<rparr>"
  shows "conn_segment_received seg ((conn_syn_rcvd cfg rnd i)\<lparr>conn_segments_out := out\<rparr>) =
    (conn_opened cfg rnd i (of_nat cap))\<lparr>conn_segments_out := out\<rparr>"
proof -
  have h: "seqno (header seg) = wrap 1 i" "bare seg" "\<not> rst (header seg)" "ack (header seg)"
    "ackno (header seg) = wrap 1 (own_isn cfg rnd)" "win (header seg) = of_nat cap"
    "length_in_sequence_space seg = 0"
    by (simp_all add: seg stamp_def tcp_header_new_def length_in_sequence_space_def bare_def)
  have r: "rcv_segment_received seg (rcv_opened (cfg_recv_capacity cfg) i) = rcv_opened (cfg_recv_capacity cfg) i"
    using rcv_opened_ack [of seg] h by simp
  have s: "ack_received (wrap 1 (own_isn cfg rnd)) (of_nat cap) (snd_syn_sent cfg rnd) = snd_opened cfg rnd (of_nat cap)"
    by (simp add: snd_opened_def snd_stage_fields)
  show ?thesis
    by (simp add: conn_segment_received_def h r s snd_opened_fill snd_stage_fields conn_syn_sent_def
        tcp_connection_new_def send_segments_def bs_input_ended_def try_clean_close_def
        stage_not_closing Let_def conn_opened_def conn_syn_rcvd_def)
qed

lemma stage_states:
  "tcp_state_eq (conn_state ((conn_syn_rcvd cfg rnd i)\<lparr>conn_segments_out := out\<rparr>)) (state_of SYN_RCVD)"
  "tcp_state_eq (conn_state ((conn_opened cfg rnd i w)\<lparr>conn_segments_out := out\<rparr>)) (state_of ESTABLISHED)"
  "conn_bytes_in_flight ((conn_opened cfg rnd i w)\<lparr>conn_segments_out := out\<rparr>) = 0"
  by (simp_all add: tcp_state_eq_def conn_state_def tcp_state_summary_def sender_state_summary_def
      receiver_state_summary_def conn_syn_rcvd_def conn_syn_sent_def conn_opened_def snd_stage_fields
      snd_bytes_in_flight_def conn_bytes_in_flight_def bs_input_ended_def bs_eof_def mk_state_def
      tcp_connection_new_def)

text \<open>
  C12. The three-way handshake, for every pair of configurations and initial sequence
  numbers: the SYN of the client takes a listening server to SYN-RCVD, its reply takes the
  client to ESTABLISHED, and the client's answer takes the server there too. The three
  segments are a bare SYN, a SYN that acknowledges it, and a bare acknowledgment; afterwards
  nothing is in flight.
\<close>

theorem three_way_handshake:
  "\<exists>syn_seg synack_seg ack_seg.
    (let a1 = conn_connect (tcp_connection_new cfg1 r1);
         b1 = conn_segment_received syn_seg (tcp_connection_new cfg2 r2);
         a2 = conn_segment_received synack_seg a1;
         b2 = conn_segment_received ack_seg b1
     in conn_segments_out a1 = [syn_seg] \<and> syn (header syn_seg) \<and> \<not> ack (header syn_seg) \<and>
        tcp_state_eq (conn_state b1) (state_of SYN_RCVD) \<and>
        conn_segments_out b1 = [synack_seg] \<and> syn (header synack_seg) \<and> ack (header synack_seg) \<and>
        tcp_state_eq (conn_state a2) (state_of ESTABLISHED) \<and>
        conn_segments_out a2 = [syn_seg, ack_seg] \<and> bare ack_seg \<and> ack (header ack_seg) \<and>
        tcp_state_eq (conn_state b2) (state_of ESTABLISHED) \<and>
        conn_segments_out b2 = [synack_seg] \<and> conn_bytes_in_flight a2 = 0 \<and> conn_bytes_in_flight b2 = 0)"
proof -
  let ?i = "own_isn cfg1 r1" and ?j = "own_isn cfg2 r2"
  define s2 where "s2 = stamp (rcv_opened (cfg_recv_capacity cfg2) ?i) (syn_segment ?j)"
  define s3 where "s3 = stamp (rcv_opened (cfg_recv_capacity cfg1) ?j)
      \<lparr>header = tcp_header_new\<lparr>seqno := wrap 1 ?i\<rparr>, payload = []\<rparr>"
  have h: "syn (header s2)" "ack (header s2)" "bare s3" "ack (header s3)" "\<not> ack tcp_header_new"
    by (simp_all add: s2_def s3_def stamp_def tcp_header_new_def bare_def)
  show ?thesis
    by (rule exI [of _ "syn_segment ?i"], rule exI [of _ s2], rule exI [of _ s3])
      (simp add: Let_def h connect_stage server_stage [of ?i cfg2 r2, folded s2_def]
        client_stage [OF s2_def, of "[syn_segment ?i]", folded s3_def]
        final_stage [OF s3_def, of "[s2]"] stage_states [simplified])
qed

text \<open>
  The window a connection advertises is the receiver's window reduced modulo \<open>2 ^ 16\<close>,
  not clamped to it: with room for 65536 bytes it advertises a closed window.
\<close>

theorem advertised_window_truncated:
  "(\<forall>seg (r :: tcp_receiver). rcv_set_isn r \<longrightarrow>
      unat (win (header (stamp r seg))) = rcv_window_size r mod 65536) \<and>
   (let r = rcv_segment_received (syn_segment 7) (tcp_receiver_new 65536)
    in rcv_window_size r = 65536 \<and> win (header (stamp r tcp_segment_new)) = 0)"
proof (intro conjI allI impI)
  fix seg and r :: tcp_receiver
  assume "rcv_set_isn r"
  then show "unat (win (header (stamp r seg))) = rcv_window_size r mod 65536"
    by (simp add: stamp_def rcv_ackno_eq unat_of_nat)
next
  have "rcv_segment_received (syn_segment 7) (tcp_receiver_new 65536) = rcv_opened 65536 7"
    using rcv_first_syn [of "syn_segment 7"] by (simp add: tcp_header_new_def)
  then show "let r = rcv_segment_received (syn_segment 7) (tcp_receiver_new 65536)
    in rcv_window_size r = 65536 \<and> win (header (stamp r tcp_segment_new)) = 0"
    by (simp add: stamp_def)
qed

theorem advertised_window_truncated_witness:
  "unat (win (header (stamp (rcv_opened 70000 3) tcp_segment_new))) = 4464"
  using advertised_window_truncated by simp

end
