(* ===== verification/Stream_Transfer.thy ===== *)
theory Stream_Transfer
  imports Connection_Props
begin

text \<open>
  One direction of a TCP connection: a sender, the receiver at the other end, and all the
  segments that were ever sent either way. The invariant relates them without assuming
  anything about delivery: segments may be lost, repeated and reordered. It is used for both
  directions of a connection in \<open>End_To_End\<close>.
\<close>

section \<open>Streams that agree with what was sent\<close>

abbreviation snd_sent_bytes :: "tcp_sender \<Rightarrow> nat" where
  "snd_sent_bytes s \<equiv> bs_readsize (snd_stream s)"

text \<open>
  Of the stream \<open>S\<close> the first \<open>K\<close> bytes have been sent, and with the flag \<open>F\<close> the FIN: the
  receiver cannot tell \<open>S\<close> from any stream \<open>T\<close> that agrees with what was sent.
\<close>

definition agrees :: "byte list \<Rightarrow> nat \<Rightarrow> bool \<Rightarrow> byte list \<Rightarrow> bool" where
  "agrees S K F T \<longleftrightarrow> K \<le> length T \<and> take K T = take K S \<and> (F \<longrightarrow> T = take K S) \<and> length T + 2 < 2 ^ 31"

lemma agrees_prefix: "K \<le> length S \<Longrightarrow> length S + 3 < 2 ^ 31 \<Longrightarrow> agrees S K F (take K S)"
  by (simp add: agrees_def)

lemma agrees_longer: "K \<le> length S \<Longrightarrow> length S + 3 < 2 ^ 31 \<Longrightarrow> agrees S K False (take K S @ [0])"
  by (simp add: agrees_def)

lemma agrees_antimono:
  assumes "agrees S K' F' T" "K \<le> K'" "F \<longrightarrow> F' \<and> K' = K"
  shows "agrees S K F T"
proof -
  have "take K (take K' T) = take K (take K' S)"
    using assms(1) by (simp add: agrees_def)
  then have "take K T = take K S"
    using assms(2) by (simp add: min_absorb1)
  then show ?thesis
    using assms by (auto simp: agrees_def)
qed

lemma honest_agrees:
  assumes h: "honest S d i e" and T: "agrees S K F T" and K: "i + length d \<le> K" "e \<longrightarrow> F"
    and F: "F \<longrightarrow> K = length S"
  shows "honest T d i e"
proof -
  have "piece i (i + length d) T = piece i (i + length d) (take K T)"
    using K(1) by (simp add: piece_def drop_take min_absorb1)
  also have "\<dots> = piece i (i + length d) (take K S)"
    using T by (simp add: agrees_def)
  also have "\<dots> = piece i (i + length d) S"
    using K(1) by (simp add: piece_def drop_take min_absorb1)
  finally show ?thesis
    using assms by (auto simp: honest_def agrees_def)
qed

section \<open>The invariant of a direction\<close>

text \<open>A segment in the network is bare, or a true segment of what was sent, inside the window.\<close>

definition seg_ok :: "byte list \<Rightarrow> wrapping_int32 \<Rightarrow> tcp_sender \<Rightarrow> tcp_receiver \<Rightarrow> tcp_segment \<Rightarrow> bool" where
  "seg_ok S isn s r seg \<longleftrightarrow> bare seg \<or>
     (\<exists>n. seg_at S isn n seg \<and> seg_in_window r n seg \<and>
        n + length_in_sequence_space seg \<le> snd_next_seqno s)"

text \<open>The number the receiver wants next; 0 before the SYN.\<close>

definition rcv_wants :: "tcp_receiver \<Rightarrow> nat" where
  "rcv_wants r = (if rcv_set_isn r then rcv_next r else 0)"

text \<open>An acknowledgment in the network is not ahead of the receiver, nor is its window.\<close>

definition ack_ok :: "wrapping_int32 \<Rightarrow> tcp_receiver \<Rightarrow> tcp_segment \<Rightarrow> bool" where
  "ack_ok isn r seg \<longleftrightarrow> (ack (header seg) \<longrightarrow> rcv_set_isn r \<and>
     (\<exists>a. ackno (header seg) = wrap (of_nat a) isn \<and> a \<le> rcv_wants r \<and>
        (a + unat (win (header seg)) \<le> rcv_edge r + 1 \<or> bs_end (rcv_stream_out r))))"

definition snd_ok :: "byte list \<Rightarrow> wrapping_int32 \<Rightarrow> tcp_sender \<Rightarrow> tcp_receiver \<Rightarrow> bool" where
  "snd_ok S isn s r \<longleftrightarrow> snd_inv S s \<and> snd_isn s = isn \<and>
     (\<forall>seg \<in> set (snd_wait_ack s) \<union> set (snd_segments_out s). seg_ok S isn s r seg \<and> \<not> ack (header seg)) \<and>
     snd_next_seqno s - snd_flight_bytes s \<le> rcv_wants r \<and>
     (snd_set_fin s \<or> snd_ackno s \<le> rcv_wants r \<and> snd_ackno s + snd_window_sz s \<le> rcv_edge r + 1)"

definition rcv_ok :: "byte list \<Rightarrow> wrapping_int32 \<Rightarrow> tcp_sender \<Rightarrow> tcp_receiver \<Rightarrow> bool" where
  "rcv_ok S isn s r \<longleftrightarrow> (\<forall>T. agrees S (snd_sent_bytes s) (snd_set_fin s) T \<longrightarrow> rcv_inv T isn r) \<and>
     (rcv_set_isn r \<longrightarrow> 0 < snd_next_seqno s)"

definition direction :: "byte list \<Rightarrow> wrapping_int32 \<Rightarrow> tcp_sender \<Rightarrow> tcp_receiver \<Rightarrow>
    tcp_segment set \<Rightarrow> tcp_segment set \<Rightarrow> bool" where
  "direction S isn s r segs acks \<longleftrightarrow> length S + 3 < 2 ^ 31 \<and> snd_ok S isn s r \<and> rcv_ok S isn s r \<and>
     (\<forall>seg \<in> segs. seg_ok S isn s r seg) \<and> (\<forall>seg \<in> acks. ack_ok isn r seg)"

section \<open>What the receiver can know\<close>

lemma snd_core_sent:
  assumes "snd_core S s"
  shows "snd_sent_bytes s \<le> length S" "snd_set_fin s \<Longrightarrow> snd_sent_bytes s = length S"
  using assms bsq.carriesD [of S "snd_stream s"] by (auto simp: snd_core_def bs_eof_def)

lemma rcv_ok_known:
  assumes r: "rcv_ok S isn s r" and c: "snd_core S s" and S: "length S + 3 < 2 ^ 31"
  shows "rcv_written r \<le> snd_sent_bytes s" "bs_end (rcv_stream_out r) \<Longrightarrow> snd_set_fin s \<and> rcv_written r = length S"
    "rcv_wants r \<le> snd_next_seqno s" "rcv_set_isn r \<Longrightarrow> rcv_isn r = isn"
proof -
  note K = snd_core_sent [OF c]
  have i: "rcv_inv (take (snd_sent_bytes s) S) isn r"
    using r agrees_prefix [OF K(1) S] by (simp add: rcv_ok_def)
  show w: "rcv_written r \<le> snd_sent_bytes s"
    using rcv_inv_stream(4) [OF i] K(1) by simp
  show "rcv_set_isn r \<Longrightarrow> rcv_isn r = isn"
    using i by (simp add: rcv_inv_def)
  have f: "snd_set_fin s" if e: "bs_end (rcv_stream_out r)"
  proof (rule ccontr)
    assume "\<not> snd_set_fin s"
    then have "rcv_inv (take (snd_sent_bytes s) S @ [0]) isn r"
      using r agrees_longer [OF K(1) S] by (simp add: rcv_ok_def)
    then show False
      using rcv_inv_stream(2) [OF _ e] w K(1) by fastforce
  qed
  then show "bs_end (rcv_stream_out r) \<Longrightarrow> snd_set_fin s \<and> rcv_written r = length S"
    using rcv_inv_stream(2) [OF i] K by auto
  show "rcv_wants r \<le> snd_next_seqno s"
    using w f c r by (auto simp: rcv_wants_def rcv_next_def snd_core_def rcv_ok_def split: if_splits)
qed


text \<open>The application can not tell \<open>S\<close> from \<open>T\<close> in a segment either.\<close>

lemma seg_at_agrees:
  assumes at: "seg_at S isn n seg" and n: "n + length_in_sequence_space seg \<le> snd_next_seqno s"
    and c: "snd_core S s" and T: "agrees S (snd_sent_bytes s) (snd_set_fin s) T"
  shows "seg_at T isn n seg"
proof -
  let ?K = "snd_sent_bytes s" and ?F = "snd_set_fin s"
  have h: "honest S (payload seg) (n - 1) (fin (header seg))"
    and y: "syn (header seg) \<longleftrightarrow> n = 0"
    using at by (simp_all add: seg_at_def)
  have len: "n + length (payload seg) + (if fin (header seg) then 1 else 0) + (if n = 0 then 1 else 0)
      \<le> snd_next_seqno s"
    using n y by (auto simp: length_in_sequence_space_def)
  have nx: "snd_next_seqno s \<noteq> 0 \<Longrightarrow> snd_next_seqno s = 1 + ?K + (if ?F then 1 else 0)"
    using c by (simp add: snd_core_def)
  have "n - 1 + length (payload seg) \<le> ?K"
    using len nx h snd_core_sent(2) [OF c] by (cases ?F) (auto simp: honest_def split: if_splits)
  moreover have "?F" if f: "fin (header seg)"
  proof (rule ccontr)
    assume "\<not> ?F"
    moreover have "n - 1 + length (payload seg) = length S"
      using h f by (simp add: honest_def)
    ultimately show False
      using len nx f snd_core_sent(1) [OF c] by (auto split: if_splits)
  qed
  ultimately have "honest T (payload seg) (n - 1) (fin (header seg))"
    using honest_agrees [OF h T] snd_core_sent(2) [OF c] by simp
  then show ?thesis
    using at by (simp add: seg_at_def)
qed

section \<open>The receiver moves\<close>

lemma rcv_wants_mono: "rcv_mono r r' \<Longrightarrow> rcv_wants r \<le> rcv_wants r'"
  by (auto simp: rcv_mono_def rcv_wants_def rcv_next_def)

lemma seg_ok_rcv_mono: "seg_ok S isn s r seg \<Longrightarrow> rcv_mono r r' \<Longrightarrow> seg_ok S isn s r' seg"
  unfolding seg_ok_def seg_in_window_def rcv_mono_def by (meson le_trans)

lemma ack_ok_rcv_mono:
  assumes "ack_ok isn r seg" "rcv_mono r r'"
  shows "ack_ok isn r' seg"
proof -
  have "rcv_edge r \<le> rcv_edge r'"
    using assms(2) by (simp add: rcv_mono_def)
  then show ?thesis
    using assms rcv_wants_mono [OF assms(2)] unfolding ack_ok_def rcv_mono_def
    by (meson add_le_mono1 le_trans)
qed

lemma snd_ok_rcv_mono:
  assumes "snd_ok S isn s r" "rcv_mono r r'"
  shows "snd_ok S isn s r'"
proof -
  have "rcv_edge r \<le> rcv_edge r'"
    using assms(2) by (simp add: rcv_mono_def)
  then show ?thesis
    using assms(1) rcv_wants_mono [OF assms(2)] seg_ok_rcv_mono [OF _ assms(2)]
    unfolding snd_ok_def by (meson add_le_mono1 le_trans)
qed

lemma direction_rcv:
  assumes d: "direction S isn s r segs acks" and r: "rcv_ok S isn s r'" "rcv_mono r r'"
  shows "direction S isn s r' segs acks"
  using assms snd_ok_rcv_mono seg_ok_rcv_mono ack_ok_rcv_mono unfolding direction_def by blast

lemma rcv_set_after: "rcv_set_isn (rcv_segment_received seg r) \<longleftrightarrow> rcv_set_isn r \<or> syn (header seg)"
  by (cases "syn (header seg)") (simp_all add: rcv_segment_received_syn rcv_segment_received_data rcv_accept_def)

lemma rcv_ok_step:
  assumes r: "rcv_ok S isn s r" and c: "snd_core S s" and S: "length S + 3 < 2 ^ 31"
    and seg: "seg_ok S isn s r seg"
  defines "r' \<equiv> rcv_segment_received seg r"
  shows "rcv_ok S isn s r' \<and> rcv_mono r r' \<and> bs_readsize (rcv_stream_out r') = bs_readsize (rcv_stream_out r)"
proof -
  let ?K = "snd_sent_bytes s" and ?F = "snd_set_fin s"
  have step: "rcv_inv T isn r' \<and> rcv_mono r r' \<and> bs_readsize (rcv_stream_out r') = bs_readsize (rcv_stream_out r)"
    if T: "agrees S ?K ?F T" for T
  proof -
    have "length T + 2 < 2 ^ 31" "rcv_inv T isn r"
      using T r by (simp_all add: agrees_def rcv_ok_def)
    moreover obtain n where "bare seg \<or> seg_at T isn n seg \<and> seg_in_window r n seg"
      using seg seg_at_agrees [OF _ _ c T] unfolding seg_ok_def by blast
    ultimately show ?thesis
      unfolding r'_def using rcv_segment_inv by blast
  qed
  have "0 < snd_next_seqno s" if "rcv_set_isn r'"
    using that r seg by (auto simp: r'_def rcv_set_after rcv_ok_def seg_ok_def bare_def length_in_sequence_space_def)
  then show ?thesis
    using step step [OF agrees_prefix [OF snd_core_sent(1) [OF c] S]] by (simp add: rcv_ok_def)
qed

lemma rcv_inv_read_le: "rcv_inv S isn r \<Longrightarrow> bs_readsize (rcv_stream_out r) \<le> rcv_written r"
  using bsq.carriesD(4) [of S "rcv_stream_out r"]
  by (simp add: rcv_inv_def ra_inv_def parts_inv_def rcv_stream_out_def)

lemma rcv_ok_read:
  assumes r: "rcv_ok S isn s r" and c: "snd_core S s" and S: "length S + 3 < 2 ^ 31"
    and d: "rcv_read n r = (d, r')"
  shows "rcv_ok S isn s r' \<and> rcv_mono r r' \<and>
    take (bs_readsize (rcv_stream_out r)) S @ d = take (bs_readsize (rcv_stream_out r')) S"
proof -
  let ?K = "snd_sent_bytes s"
  have step: "rcv_inv T isn r' \<and> rcv_mono r r' \<and>
      take (bs_readsize (rcv_stream_out r)) T @ d = take (bs_readsize (rcv_stream_out r')) T"
    if "agrees S ?K (snd_set_fin s) T" for T
  proof -
    have "rcv_inv T isn r"
      using that r by (simp add: rcv_ok_def)
    then show ?thesis
      using rcv_read_inv [OF _ d] by blast
  qed
  have same: "rcv_set_isn r' = rcv_set_isn r" "rcv_written r' = rcv_written r"
    using d by (auto simp: rcv_read_def rcv_stream_out_def bs_read_def split: prod.splits)
  note T = agrees_prefix [OF snd_core_sent(1) [OF c] S]
  note s = step [OF T]
  then have ok: "rcv_ok S isn s r'"
    using step r same by (simp add: rcv_ok_def)
  have "bs_readsize (rcv_stream_out r') \<le> ?K" "bs_readsize (rcv_stream_out r) \<le> ?K"
    using rcv_inv_read_le [of "take ?K S" isn] s T r rcv_ok_known(1) [OF r c S] same(2)
    by (fastforce simp: rcv_ok_def)+
  then show ?thesis
    using s ok by (simp add: min_absorb1)
qed

lemma seg_chain_pos: "seg_chain S isn n segs m \<Longrightarrow> seg \<in> set segs \<Longrightarrow> 0 < length_in_sequence_space seg"
  by (induction segs arbitrary: n) auto

section \<open>The sender moves\<close>

definition snd_adv :: "tcp_sender \<Rightarrow> tcp_sender \<Rightarrow> bool" where
  "snd_adv s s' \<longleftrightarrow> snd_next_seqno s \<le> snd_next_seqno s' \<and> snd_sent_bytes s \<le> snd_sent_bytes s' \<and>
     (snd_set_fin s \<longrightarrow> snd_set_fin s' \<and> snd_sent_bytes s' = snd_sent_bytes s)"

lemma snd_adv_refl [simp]: "snd_adv s s"
  by (simp add: snd_adv_def)

lemma seg_ok_adv: "seg_ok S isn s r seg \<Longrightarrow> snd_adv s s' \<Longrightarrow> seg_ok S isn s' r seg"
  unfolding seg_ok_def snd_adv_def by (meson le_trans)

lemma rcv_ok_adv: "rcv_ok S isn s r \<Longrightarrow> snd_adv s s' \<Longrightarrow> rcv_ok S isn s' r"
  using agrees_antimono [of S "snd_sent_bytes s'" "snd_set_fin s'" _ "snd_sent_bytes s" "snd_set_fin s"]
  unfolding rcv_ok_def snd_adv_def by auto

lemma direction_snd:
  assumes "direction S isn s r segs acks" "snd_ok S isn s' r" "snd_adv s s'"
  shows "direction S isn s' r segs acks"
  using assms seg_ok_adv rcv_ok_adv unfolding direction_def by blast

lemma direction_core: "direction S isn s r segs acks \<Longrightarrow> snd_core S s"
  by (simp add: direction_def snd_ok_def snd_inv_def)

text \<open>Steps of the sender that send nothing new.\<close>

lemma snd_ok_still:
  assumes ok: "snd_ok S isn s r" and inv: "snd_inv S s'"
    and eq: "snd_isn s' = snd_isn s" "snd_next_seqno s' = snd_next_seqno s" "snd_flight_bytes s' = snd_flight_bytes s"
      "snd_set_fin s' = snd_set_fin s" "snd_ackno s' = snd_ackno s" "snd_window_sz s' = snd_window_sz s"
      "snd_wait_ack s' = snd_wait_ack s" "snd_sent_bytes s' = snd_sent_bytes s"
    and out: "\<forall>seg \<in> set (snd_segments_out s'). seg \<in> set (snd_segments_out s) \<union> set (snd_wait_ack s) \<or>
      bare seg \<and> \<not> ack (header seg)"
  shows "snd_ok S isn s' r \<and> snd_adv s s'"
proof -
  have a: "snd_adv s s'"
    by (simp add: snd_adv_def eq)
  have "seg_ok S isn s' r seg \<and> \<not> ack (header seg)"
    if "seg \<in> set (snd_wait_ack s') \<union> set (snd_segments_out s')" for seg
  proof (cases "bare seg \<and> \<not> ack (header seg)")
    case False
    then have "seg \<in> set (snd_wait_ack s) \<union> set (snd_segments_out s)"
      using that out eq(7) by auto
    then show ?thesis
      using ok seg_ok_adv [OF _ a] unfolding snd_ok_def by blast
  qed (simp add: seg_ok_def)
  then show ?thesis
    using ok inv a unfolding snd_ok_def eq by blast
qed

lemma snd_ok_tick: "snd_ok S isn s r \<Longrightarrow> snd_ok S isn (snd_tick ms s) r \<and> snd_adv s (snd_tick ms s)"
  using snd_tick_out [of ms s]
  by (intro snd_ok_still) (auto simp: snd_tick_fields snd_tick_inv snd_ok_def)

lemma snd_inv_out [simp]: "snd_inv S (s\<lparr>snd_segments_out := x\<rparr>) = snd_inv S s"
  by (rule snd_inv_cong) simp_all

lemma snd_ok_empty: "snd_ok S isn s r \<Longrightarrow> snd_ok S isn (send_empty_segment s) r \<and> snd_adv s (send_empty_segment s)"
  by (intro snd_ok_still) (auto simp: snd_ok_def send_empty_segment_def bare_def tcp_header_new_def)

lemma snd_ok_drain:
  "snd_ok S isn s r \<Longrightarrow> snd_ok S isn (s\<lparr>snd_segments_out := []\<rparr>) r \<and> snd_adv s (s\<lparr>snd_segments_out := []\<rparr>)"
  by (rule snd_ok_still) (simp_all add: snd_ok_def)

lemma snd_ok_stream:
  assumes "snd_ok S isn s r" "snd_inv S (s\<lparr>snd_stream := b\<rparr>)" "bs_readsize b = snd_sent_bytes s"
  shows "snd_ok S isn (s\<lparr>snd_stream := b\<rparr>) r \<and> snd_adv s (s\<lparr>snd_stream := b\<rparr>)"
  using assms by (intro snd_ok_still) auto

text \<open>Filling the window.\<close>

lemma snd_adv_core:
  assumes "snd_core S s" "snd_core S s'" "\<not> snd_set_fin s" "snd_next_seqno s \<le> snd_next_seqno s'"
  shows "snd_adv s s'"
proof -
  have "snd_sent_bytes s = snd_next_seqno s - 1"
    "snd_sent_bytes s' = snd_next_seqno s' - 1 - (if snd_set_fin s' then 1 else 0)"
    using assms(1-3) by (auto simp: snd_core_def split: if_splits)
  moreover have "snd_sent_bytes s \<le> length S" "snd_set_fin s' \<Longrightarrow> snd_sent_bytes s' = length S"
    using snd_core_sent(1) [OF assms(1)] snd_core_sent(2) [OF assms(2)] by auto
  ultimately show ?thesis
    using assms(3,4) by (cases "snd_set_fin s'") (simp_all add: snd_adv_def)
qed

lemma fill_window_fin [simp]: "snd_set_fin s \<Longrightarrow> fill_window s = s"
  by (simp add: fill_window_def)

lemma new_seg_in_window:
  assumes at: "seg_at S isn k seg" and k: "m \<le> k" "k + length_in_sequence_space seg \<le> a + max 1 w"
    and a: "a \<le> m" "a + w \<le> rcv_edge r + 1"
  shows "seg_in_window r k seg"
proof -
  have "length (payload seg) + (if k = 0 then 1 else 0) \<le> length_in_sequence_space seg"
    using at by (auto simp: seg_at_def length_in_sequence_space_def)
  then show ?thesis
    using k a by (cases "w = 0") (auto simp: seg_in_window_def split: if_splits)
qed

lemma direction_fill:
  assumes d: "direction S isn s r segs acks"
  shows "snd_ok S isn (fill_window s) r \<and> snd_adv s (fill_window s)"
proof (cases "snd_set_fin s")
  case True
  then show ?thesis
    using d by (simp add: direction_def)
next
  case False
  let ?s = "fill_window s"
  have ok: "snd_ok S isn s r" and i: "snd_inv S s" and c: "snd_core S s" and S: "length S + 3 < 2 ^ 31"
    and rk: "rcv_ok S isn s r"
    using d by (auto simp: direction_def snd_ok_def snd_inv_def)
  obtain new where new: "snd_sent S s new ?s"
    using fill_window_sent(1) [OF c] by blast
  have c': "snd_core S ?s" and ch: "seg_chain S (snd_isn s) (snd_next_seqno s) new (snd_next_seqno ?s)"
    and fr: "snd_frame s ?s"
    using new by (auto simp: snd_sent_def)
  have adv: "snd_adv s ?s"
    using snd_adv_core [OF c c' False seg_chain_le [OF ch]] .
  have lim: "snd_ackno s \<le> snd_next_seqno s" "snd_ackno s + snd_window_sz s \<le> rcv_edge r + 1"
    using ok False rcv_ok_known(3) [OF rk c S] by (auto simp: snd_ok_def)
  have "seg_ok S isn ?s r seg \<and> \<not> ack (header seg)" if mem: "seg \<in> set new" for seg
  proof -
    obtain k where k: "snd_next_seqno s \<le> k" "k + length_in_sequence_space seg \<le> snd_next_seqno ?s"
      "seg_at S (snd_isn s) k seg" "0 < length_in_sequence_space seg"
      using seg_chain_member [OF ch mem] seg_chain_pos [OF ch mem] by blast
    then have "k + length_in_sequence_space seg \<le> snd_ackno s + max 1 (snd_window_sz s)"
      using fill_window_sent(2) [OF c] by (simp add: snd_limit_def)
    then have "seg_in_window r k seg"
      using new_seg_in_window [OF k(3,1)] lim by blast
    then show ?thesis
      using k mem new ok by (auto simp: seg_ok_def snd_sent_def snd_ok_def)
  qed
  moreover have "seg_ok S isn ?s r seg \<and> \<not> ack (header seg)"
    if "seg \<in> set (snd_wait_ack s) \<union> set (snd_segments_out s)" for seg
    using that ok seg_ok_adv [OF _ adv] unfolding snd_ok_def by blast
  ultimately have "\<forall>seg \<in> set (snd_wait_ack ?s) \<union> set (snd_segments_out ?s). seg_ok S isn ?s r seg \<and> \<not> ack (header seg)"
    using new by (auto simp: snd_sent_def)
  moreover have "snd_next_seqno ?s - snd_flight_bytes ?s = snd_next_seqno s - snd_flight_bytes s"
    using new i by (auto simp: snd_sent_def snd_inv_def)
  ultimately show ?thesis
    using ok adv snd_sent_inv [OF i new] fr False
    unfolding snd_ok_def snd_frame_def by simp
qed

text \<open>An acknowledgment from the network.\<close>

lemma ack_received_covered:
  assumes i: "snd_inv S s" and S: "length S + 2 < 2 ^ 31" and a: "a \<le> snd_next_seqno s"
    and s'_def: "s' = ack_received (wrap (of_nat a) (snd_isn s)) w s"
  shows "snd_ackno s' = a" "snd_window_sz s' = unat w"
    "snd_next_seqno s' - snd_flight_bytes s' \<le> max (snd_next_seqno s - snd_flight_bytes s) a"
proof -
  have c: "snd_core S s" "snd_flight_bytes s \<le> snd_next_seqno s"
    "seg_chain S (snd_isn s) (snd_next_seqno s - snd_flight_bytes s) (snd_wait_ack s) (snd_next_seqno s)"
    using i by (auto simp: snd_inv_def)
  have m: "snd_next_seqno s < 2 ^ 31"
    using snd_core_bound [OF c(1)] S by simp
  have u: "unat (unwrap (wrap (of_nat a) (snd_isn s)) (snd_isn s) (of_nat (snd_next_seqno s))) = a"
    using unwrap_near m a by simp
  obtain wait' flight' nd' where l: "ack_loop (snd_isn s) (snd_next_seqno s) a (snd_wait_ack s)
      (snd_flight_bytes s) False = (wait', flight', nd')"
    by (metis surj_pair)
  have "snd_flight_bytes s' = flight'" "snd_window_sz s' = unat w"
    using l a u by (simp_all add: s'_def ack_received_def Let_def)
  then show "snd_ackno s' = a" "snd_window_sz s' = unat w"
    "snd_next_seqno s' - snd_flight_bytes s' \<le> max (snd_next_seqno s - snd_flight_bytes s) a"
    using ack_loop_spec [OF c(3,2) m l] u by (simp_all add: s'_def)
qed

lemma direction_ack:
  assumes d: "direction S isn s r segs acks" and seg: "ack_ok isn r seg" "ack (header seg)"
  defines "s' \<equiv> ack_received (ackno (header seg)) (win (header seg)) s"
  shows "snd_ok S isn s' r \<and> snd_adv s s'"
proof -
  have ok: "snd_ok S isn s r" and i: "snd_inv S s" and c: "snd_core S s" and S: "length S + 3 < 2 ^ 31"
    and rk: "rcv_ok S isn s r" and isn: "snd_isn s = isn"
    using d by (auto simp: direction_def snd_ok_def snd_inv_def)
  have S2: "length S + 2 < 2 ^ 31"
    using S by simp
  note known = rcv_ok_known [OF rk c S]
  obtain a where a: "ackno (header seg) = wrap (of_nat a) isn" "a \<le> rcv_wants r"
    "a + unat (win (header seg)) \<le> rcv_edge r + 1 \<or> bs_end (rcv_stream_out r)"
    using seg by (auto simp: ack_ok_def)
  have le: "a \<le> snd_next_seqno s"
    using a(2) known(3) by simp
  have "s' = ack_received (wrap (of_nat a) (snd_isn s)) (win (header seg)) s"
    by (simp only: s'_def a(1) isn)
  note cov = ack_received_covered [OF i S2 le this]
  have inv: "snd_inv S s'" "set (snd_wait_ack s') \<subseteq> set (snd_wait_ack s)"
    using ack_received_inv [OF i S2] by (simp_all add: s'_def)
  have same: "snd_isn s' = snd_isn s" "snd_next_seqno s' = snd_next_seqno s" "snd_set_fin s' = snd_set_fin s"
    "snd_stream s' = snd_stream s" "snd_segments_out s' = snd_segments_out s"
    by (simp_all add: s'_def)
  have adv: "snd_adv s s'"
    by (simp add: snd_adv_def same)
  have "\<forall>x \<in> set (snd_wait_ack s) \<union> set (snd_segments_out s). seg_ok S isn s' r x \<and> \<not> ack (header x)"
    using ok seg_ok_adv [OF _ adv] unfolding snd_ok_def by blast
  then have "\<forall>x \<in> set (snd_wait_ack s') \<union> set (snd_segments_out s'). seg_ok S isn s' r x \<and> \<not> ack (header x)"
    using inv(2) same(5) by auto
  moreover have "snd_next_seqno s' - snd_flight_bytes s' \<le> rcv_wants r"
    using order_trans [OF cov(3) max.boundedI] ok a(2) by (simp only: snd_ok_def)
  moreover have "snd_set_fin s' \<or> snd_ackno s' \<le> rcv_wants r \<and> snd_ackno s' + snd_window_sz s' \<le> rcv_edge r + 1"
    using a known(2) cov(1,2) by (auto simp: same)
  ultimately show ?thesis
    using adv inv(1) isn same(1) by (simp add: snd_ok_def)
qed

section \<open>Segments put on the wire\<close>

lemma stamp_keeps [simp]:
  "payload (stamp r seg) = payload seg" "syn (header (stamp r seg)) = syn (header seg)"
  "fin (header (stamp r seg)) = fin (header seg)" "seqno (header (stamp r seg)) = seqno (header seg)"
  "rst (header (stamp r seg)) = rst (header seg)"
  by (simp_all add: stamp_def split: option.split)

lemma seg_ok_stamp [simp]: "seg_ok S isn s r (stamp r' seg) = seg_ok S isn s r seg"
  by (simp add: seg_ok_def bare_def seg_at_def seg_in_window_def length_in_sequence_space_def)

lemma stamp_set:
  assumes "rcv_set_isn r"
  shows "ackno (header (stamp r seg)) = wrap (of_nat (rcv_next r)) (rcv_isn r)"
    "unat (win (header (stamp r seg))) \<le> rcv_window_size r"
  using assms by (simp_all add: stamp_def rcv_ackno_eq unat_of_nat)

lemma ack_ok_stamp:
  assumes "rcv_inv T isn r" "\<not> ack (header seg)"
  shows "ack_ok isn r (stamp r seg)"
proof (cases "rcv_set_isn r")
  case False
  then show ?thesis
    using assms(2) by (simp add: ack_ok_def stamp_def rcv_ackno_def)
next
  case True
  have "rcv_isn r = isn"
    using assms(1) True by (simp add: rcv_inv_def)
  then have "ackno (header (stamp r seg)) = wrap (of_nat (rcv_next r)) isn"
    using stamp_set(1) [OF True] by simp
  moreover have "rcv_next r + unat (win (header (stamp r seg))) \<le> rcv_edge r + 1 \<or> bs_end (rcv_stream_out r)"
    using rcv_inv_stream(3) [OF assms(1)] stamp_set(2) [OF True, of seg] by (auto simp: rcv_next_def)
  moreover have "rcv_next r \<le> rcv_wants r"
    using True by (simp add: rcv_wants_def)
  ultimately show ?thesis
    unfolding ack_ok_def using True by blast
qed

lemma direction_rcv_inv:
  assumes "direction S isn s r segs acks"
  shows "rcv_inv (take (snd_sent_bytes s) S) isn r"
  using assms agrees_prefix [OF snd_core_sent(1) [OF direction_core [OF assms]]]
  by (simp add: direction_def rcv_ok_def)

end
