(* ===== verification/End_To_End.thy ===== *)
theory End_To_End
  imports Stream_Transfer "HOL-Library.Sublist"
begin

text \<open>
  Two connections and the network between them. The network keeps every segment it was ever
  given and may deliver any of them at any time, so losses, repetitions and reorderings are
  all runs of the model. The theory shows that what each application reads is a prefix of what
  the other one wrote, and that a connection that closes without an error has delivered
  everything in both directions.
\<close>

section \<open>One endpoint against a fixed peer\<close>

text \<open>
  The rest of the world as one endpoint sees it: the stream it sends and its first sequence
  number, the stream it receives, the peer's sender, receiver and segments, and the segments
  of its own that are in the network already.
\<close>

record tcp_link =
  lk_out :: "byte list"
  lk_isn :: wrapping_int32
  lk_in :: "byte list"
  lk_peer_isn :: wrapping_int32
  lk_peer_snd :: tcp_sender
  lk_peer_rcv :: tcp_receiver
  lk_peer_net :: "tcp_segment set"
  lk_net :: "tcp_segment set"

definition end_inv :: "tcp_link \<Rightarrow> tcp_sender \<Rightarrow> tcp_receiver \<Rightarrow> tcp_segment list \<Rightarrow> bool" where
  "end_inv L s r out \<longleftrightarrow>
     direction (lk_out L) (lk_isn L) s (lk_peer_rcv L) (lk_net L \<union> set out) (lk_peer_net L) \<and>
     direction (lk_in L) (lk_peer_isn L) (lk_peer_snd L) r (lk_peer_net L) (lk_net L \<union> set out)"

lemma end_inv_snd:
  "end_inv L s r out \<Longrightarrow> snd_ok (lk_out L) (lk_isn L) s' (lk_peer_rcv L) \<and> snd_adv s s' \<Longrightarrow> end_inv L s' r out"
  unfolding end_inv_def using direction_snd by blast

lemma end_inv_ok: "end_inv L s r out \<Longrightarrow> snd_ok (lk_out L) (lk_isn L) s (lk_peer_rcv L)"
  by (simp add: end_inv_def direction_def)

lemma end_inv_inv: "end_inv L s r out \<Longrightarrow> snd_inv (lk_out L) s"
  using end_inv_ok by (simp add: snd_ok_def)

lemma end_inv_fill: "end_inv L s r out \<Longrightarrow> end_inv L (fill_window s) r out"
  using end_inv_snd direction_fill unfolding end_inv_def by blast

lemma end_inv_tick: "end_inv L s r out \<Longrightarrow> end_inv L (snd_tick ms s) r out"
  using end_inv_snd snd_ok_tick [OF end_inv_ok] by blast

lemma end_inv_empty: "end_inv L s r out \<Longrightarrow> end_inv L (send_empty_segment s) r out"
  using end_inv_snd snd_ok_empty [OF end_inv_ok] by blast

lemma end_inv_write:
  assumes i: "end_inv L s r out" and h: "honest (lk_out L) d (bs_writtensize (snd_stream s)) False"
  shows "end_inv L (s\<lparr>snd_stream := snd (bs_write d (snd_stream s))\<rparr>) r out"
  using end_inv_snd [OF i snd_ok_stream [OF end_inv_ok [OF i] snd_inv_write [OF end_inv_inv [OF i] h]]] by simp

lemma end_inv_end:
  assumes i: "end_inv L s r out" and h: "bs_writtensize (snd_stream s) = length (lk_out L)"
  shows "end_inv L (s\<lparr>snd_stream := bs_end_input (snd_stream s)\<rparr>) r out"
  using end_inv_snd [OF i snd_ok_stream [OF end_inv_ok [OF i] snd_inv_end [OF end_inv_inv [OF i] h]]] by simp

lemma end_inv_ack:
  assumes "end_inv L s r out" "seg \<in> lk_peer_net L" "ack (header seg)"
  shows "end_inv L (ack_received (ackno (header seg)) (win (header seg)) s) r out"
proof (rule end_inv_snd [OF assms(1)])
  have d: "direction (lk_out L) (lk_isn L) s (lk_peer_rcv L) (lk_net L \<union> set out) (lk_peer_net L)"
    using assms(1) by (simp add: end_inv_def)
  then have "ack_ok (lk_isn L) (lk_peer_rcv L) seg"
    using assms(2) by (simp add: direction_def)
  then show "snd_ok (lk_out L) (lk_isn L) (ack_received (ackno (header seg)) (win (header seg)) s) (lk_peer_rcv L) \<and>
      snd_adv s (ack_received (ackno (header seg)) (win (header seg)) s)"
    using direction_ack [OF d] assms(3) by blast
qed

lemma end_inv_seg:
  assumes "end_inv L s r out" "seg \<in> lk_peer_net L"
  defines "r' \<equiv> rcv_segment_received seg r"
  shows "end_inv L s r' out" "bs_readsize (rcv_stream_out r') = bs_readsize (rcv_stream_out r)" "rcv_mono r r'"
proof -
  have d: "direction (lk_in L) (lk_peer_isn L) (lk_peer_snd L) r (lk_peer_net L) (lk_net L \<union> set out)"
    using assms(1) by (simp add: end_inv_def)
  then have "rcv_ok (lk_in L) (lk_peer_isn L) (lk_peer_snd L) r' \<and> rcv_mono r r' \<and>
      bs_readsize (rcv_stream_out r') = bs_readsize (rcv_stream_out r)"
    unfolding r'_def using assms(2) direction_core [OF d] by (intro rcv_ok_step) (simp_all add: direction_def)
  then show "end_inv L s r' out" "bs_readsize (rcv_stream_out r') = bs_readsize (rcv_stream_out r)" "rcv_mono r r'"
    using assms(1) direction_rcv [OF d] by (auto simp: end_inv_def)
qed

lemma end_inv_read:
  assumes "end_inv L s r out" "rcv_read n r = (d, r')"
  shows "end_inv L s r' out" "rcv_mono r r'"
    "take (bs_readsize (rcv_stream_out r)) (lk_in L) @ d = take (bs_readsize (rcv_stream_out r')) (lk_in L)"
proof -
  have d: "direction (lk_in L) (lk_peer_isn L) (lk_peer_snd L) r (lk_peer_net L) (lk_net L \<union> set out)"
    using assms(1) by (simp add: end_inv_def)
  then have "rcv_ok (lk_in L) (lk_peer_isn L) (lk_peer_snd L) r' \<and> rcv_mono r r' \<and>
      take (bs_readsize (rcv_stream_out r)) (lk_in L) @ d = take (bs_readsize (rcv_stream_out r')) (lk_in L)"
    using direction_core [OF d] by (intro rcv_ok_read [OF _ _ _ assms(2)]) (simp_all add: direction_def)
  then show "end_inv L s r' out" "rcv_mono r r'"
    "take (bs_readsize (rcv_stream_out r)) (lk_in L) @ d = take (bs_readsize (rcv_stream_out r')) (lk_in L)"
    using assms(1) direction_rcv [OF d] by (auto simp: end_inv_def)
qed

text \<open>Segments are stamped with the receiver's acknowledgment and join those in the network.\<close>

lemma end_inv_out:
  assumes i: "end_inv L s r out"
    and segs: "\<forall>seg \<in> set segs. seg_ok (lk_out L) (lk_isn L) s (lk_peer_rcv L) seg \<and> \<not> ack (header seg)"
  shows "end_inv L s r (out @ map (stamp r) segs)"
proof -
  have d: "direction (lk_in L) (lk_peer_isn L) (lk_peer_snd L) r (lk_peer_net L) (lk_net L \<union> set out)"
    using i by (simp add: end_inv_def)
  have "ack_ok (lk_peer_isn L) r (stamp r seg)" if "seg \<in> set segs" for seg
    using ack_ok_stamp [OF direction_rcv_inv [OF d]] segs that by blast
  then show ?thesis
    using i segs by (auto simp: end_inv_def direction_def)
qed

lemma end_inv_send:
  assumes i: "end_inv L s r out"
  shows "end_inv L (s\<lparr>snd_segments_out := []\<rparr>) r (out @ map (stamp r) (snd_segments_out s))"
proof (rule end_inv_snd)
  show "end_inv L s r (out @ map (stamp r) (snd_segments_out s))"
    using end_inv_out [OF i] end_inv_ok [OF i] by (simp add: snd_ok_def)
  show "snd_ok (lk_out L) (lk_isn L) (s\<lparr>snd_segments_out := []\<rparr>) (lk_peer_rcv L) \<and>
      snd_adv s (s\<lparr>snd_segments_out := []\<rparr>)"
    using snd_ok_drain [OF end_inv_ok [OF i]] .
qed

text \<open>The error flag of a stream is outside the invariants.\<close>

lemma carries_error [simp]: "bs_carries S (bs_set_error b) = bs_carries S b"
  by (simp add: bsq.carries_def bs_inv_def bs_set_error_def)

definition rcv_error :: "tcp_receiver \<Rightarrow> tcp_receiver" where
  "rcv_error r = r\<lparr>rcv_reassembler := (rcv_reassembler r)\<lparr>ra_output := bs_set_error (rcv_stream_out r)\<rparr>\<rparr>"

lemma rcv_error_same:
  "rcv_mono r (rcv_error r)" "rcv_inv S isn (rcv_error r) = rcv_inv S isn r"
  "rcv_set_isn (rcv_error r) = rcv_set_isn r" "bs_readsize (rcv_stream_out (rcv_error r)) = bs_readsize (rcv_stream_out r)"
  by (simp_all add: rcv_error_def rcv_mono_def rcv_edge_def rcv_stream_out_def rcv_inv_def ra_inv_def parts_inv_def)

lemma end_inv_errors:
  assumes i: "end_inv L s r out"
  shows "end_inv L (s\<lparr>snd_stream := bs_set_error (snd_stream s)\<rparr>) (rcv_error r) out"
proof -
  have "snd_inv (lk_out L) (s\<lparr>snd_stream := bs_set_error (snd_stream s)\<rparr>)"
    using end_inv_inv [OF i] by (auto simp: snd_inv_def snd_core_def bs_eof_def)
  then have "end_inv L (s\<lparr>snd_stream := bs_set_error (snd_stream s)\<rparr>) r out"
    using end_inv_snd [OF i snd_ok_stream [OF end_inv_ok [OF i]]] by simp
  moreover have "rcv_ok (lk_in L) (lk_peer_isn L) (lk_peer_snd L) (rcv_error r)"
    using i by (simp add: end_inv_def direction_def rcv_ok_def rcv_error_same)
  ultimately show ?thesis
    using direction_rcv [OF _ _ rcv_error_same(1)] by (auto simp: end_inv_def)
qed

section \<open>The handlers of a connection\<close>

definition conn_inv :: "tcp_link \<Rightarrow> tcp_connection \<Rightarrow> bool" where
  "conn_inv L c \<longleftrightarrow> end_inv L (conn_sender c) (conn_receiver c) (conn_segments_out c)"

text \<open>
  The calls a run may make: the application writes the next bytes of its stream and ends it
  when all of it is in; the segments come from the network.
\<close>

fun call_ok :: "byte list \<Rightarrow> tcp_segment set \<Rightarrow> tcp_connection \<Rightarrow> conn_call \<Rightarrow> bool" where
  "call_ok S net c (Write_Data d) \<longleftrightarrow> honest S d (bs_writtensize (snd_stream (conn_sender c))) False"
| "call_ok S net c End_Input_Stream \<longleftrightarrow> bs_writtensize (snd_stream (conn_sender c)) = length S"
| "call_ok S net c (Segment seg) \<longleftrightarrow> seg \<in> net"
| "call_ok S net c _ \<longleftrightarrow> True"

lemma conn_inv_active [simp]: "conn_inv L (c\<lparr>conn_active := x\<rparr>) = conn_inv L c"
  "conn_inv L (c\<lparr>conn_wait_segment_time := t\<rparr>) = conn_inv L c"
  "conn_inv L (c\<lparr>conn_linger_after_streams_finish := x\<rparr>) = conn_inv L c"
  "conn_inv L (try_clean_close c) = conn_inv L c"
  by (simp_all add: conn_inv_def try_clean_close_def)

lemma try_close_rcv [simp]: "conn_receiver (try_clean_close c) = conn_receiver c"
  by (simp add: try_clean_close_def)

lemma conn_inv_send: "conn_inv L c \<Longrightarrow> conn_inv L (send_segments c)"
  using end_inv_send by (simp add: conn_inv_def send_segments_def)

lemma conn_inv_sender:
  "end_inv L s (conn_receiver c) (conn_segments_out c) \<Longrightarrow> conn_inv L (send_segments (c\<lparr>conn_sender := s\<rparr>))"
  by (rule conn_inv_send) (simp add: conn_inv_def)

lemma conn_inv_rst: "conn_inv L c \<Longrightarrow> conn_inv L (send_rst_seg c)"
  using end_inv_out [of L "conn_sender c" "conn_receiver c" "conn_segments_out c"
      "[\<lparr>header = tcp_header_new\<lparr>rst := True, seqno := snd_next_seqno_wrapped (conn_sender c)\<rparr>, payload = []\<rparr>]"]
  by (simp add: conn_inv_def send_rst_seg_def seg_ok_def bare_def tcp_header_new_def)

lemma conn_inv_errors: "conn_inv L c \<Longrightarrow> conn_inv L (set_stream_errors c)"
  using end_inv_errors by (simp add: conn_inv_def set_stream_errors_def rcv_error_def)

text \<open>What the sender does about a segment, and the handler in terms of it.\<close>

definition conn_reply :: "tcp_segment \<Rightarrow> tcp_sender \<Rightarrow> tcp_sender" where
  "conn_reply seg s =
     (let s = fill_window (if ack (header seg) then ack_received (ackno (header seg)) (win (header seg)) s else s)
      in if length_in_sequence_space seg > 0 \<and> snd_segments_out s = [] then send_empty_segment s else s)"

lemma conn_segment_received_reply:
  assumes "\<not> rst (header seg)" and r_def: "r = rcv_segment_received seg (conn_receiver c)"
  shows "\<exists>linger. conn_segment_received seg c = try_clean_close
     (if rcv_set_isn r
      then (send_segments (c\<lparr>conn_wait_segment_time := 0, conn_receiver := r,
         conn_sender := conn_reply seg (conn_sender c)\<rparr>))\<lparr>conn_linger_after_streams_finish := linger\<rparr>
      else c\<lparr>conn_wait_segment_time := 0, conn_receiver := r\<rparr>)"
proof (cases "rcv_ackno r")
  case None
  then have "\<not> rcv_set_isn r"
    using rcv_ackno_eq by fastforce
  then show ?thesis
    using assms(1) None by (simp add: conn_segment_received_def Let_def r_def)
next
  case (Some a)
  define c2 where "c2 = send_segments (c\<lparr>conn_wait_segment_time := 0, conn_receiver := r,
    conn_sender := conn_reply seg (conn_sender c)\<rparr>)"
  have s: "rcv_set_isn r"
    using Some by (simp add: rcv_ackno_def split: if_splits)
  have "conn_segment_received seg c = try_clean_close
      (if \<not> bs_eof (snd_stream (conn_sender c2)) \<and> bs_input_ended (rcv_stream_out (conn_receiver c2))
       then c2\<lparr>conn_linger_after_streams_finish := False\<rparr> else c2)"
    using assms(1) Some unfolding conn_segment_received_def Let_def c2_def conn_reply_def r_def
    by (simp split del: if_split cong: if_cong)
  also have "\<dots> = try_clean_close (c2\<lparr>conn_linger_after_streams_finish :=
      (conn_linger_after_streams_finish c2 \<and>
        \<not> (\<not> bs_eof (snd_stream (conn_sender c2)) \<and> bs_input_ended (rcv_stream_out (conn_receiver c2))))\<rparr>)"
    by simp
  finally show ?thesis
    unfolding c2_def using s by (simp only: if_True) (rule exI, rule refl)
qed

lemma conn_inv_segment:
  assumes i: "conn_inv L c" and seg: "seg \<in> lk_peer_net L"
  shows "conn_inv L (conn_segment_received seg c)"
proof (cases "rst (header seg)")
  case True
  then show ?thesis
    using i by (simp add: conn_segment_received_def Let_def conn_inv_errors)
next
  case False
  define c1 where "c1 = c\<lparr>conn_wait_segment_time := 0, conn_receiver := rcv_segment_received seg (conn_receiver c)\<rparr>"
  have c1: "conn_inv L c1"
    using end_inv_seg(1) i seg by (simp add: conn_inv_def c1_def)
  then have "end_inv L (conn_reply seg (conn_sender c)) (conn_receiver c1) (conn_segments_out c1)"
    using end_inv_ack seg end_inv_fill end_inv_empty by (simp add: conn_reply_def conn_inv_def c1_def Let_def)
  then have "conn_inv L (send_segments (c1\<lparr>conn_sender := conn_reply seg (conn_sender c)\<rparr>))"
    by (rule conn_inv_sender)
  then show ?thesis
    using c1 conn_segment_received_reply [OF False refl, of c] by (auto simp: c1_def)
qed

lemma conn_inv_do:
  assumes i: "conn_inv L c" and ok: "call_ok (lk_out L) (lk_peer_net L) c call"
  shows "conn_inv L (conn_do call c)"
proof (cases call)
  case Connect
  then show ?thesis
    using i end_inv_fill by (simp add: conn_connect_def conn_inv_sender conn_inv_def [of L c])
next
  case (Write_Data d)
  then have "end_inv L (fill_window ((conn_sender c)\<lparr>snd_stream := snd (bs_write d (snd_stream (conn_sender c)))\<rparr>))
      (conn_receiver c) (conn_segments_out c)"
    using i ok end_inv_fill end_inv_write by (simp add: conn_inv_def)
  then show ?thesis
    using Write_Data by (simp add: conn_write_def conn_inv_sender split_beta)
next
  case End_Input_Stream
  then show ?thesis
    using i ok end_inv_fill end_inv_end
    by (simp add: conn_end_input_stream_def conn_inv_sender conn_inv_def [of L c])
next
  case (Tick ms)
  have "conn_inv L (c\<lparr>conn_sender := snd_tick ms (conn_sender c)\<rparr>)"
    using i end_inv_tick by (simp add: conn_inv_def)
  then show ?thesis
    using Tick by (simp add: conn_tick_def Let_def conn_inv_send conn_inv_rst conn_inv_errors)
next
  case (Segment seg)
  then show ?thesis
    using i ok conn_inv_segment by simp
next
  case (Read_Data n)
  then show ?thesis
    using i end_inv_read(1) by (auto simp: conn_read_def conn_inv_def split: prod.split)
next
  case Destroy
  then show ?thesis
    using i by (simp add: conn_destroy_def conn_inv_send conn_inv_rst conn_inv_errors)
qed

text \<open>What a call does to the receiver.\<close>

lemma conn_segment_rcv:
  "\<not> rst (header seg) \<Longrightarrow> conn_receiver (conn_segment_received seg c) = rcv_segment_received seg (conn_receiver c)"
  using conn_segment_received_reply [OF _ refl, of seg c]
  by (auto simp: try_clean_close_def send_segments_def split: if_splits)

lemma conn_do_rcv:
  assumes i: "conn_inv L c" and ok: "call_ok (lk_out L) (lk_peer_net L) c call"
  defines "r \<equiv> conn_receiver c" and "r' \<equiv> conn_receiver (conn_do call c)"
  shows "rcv_mono r r'"
    "(\<And>n. call \<noteq> Read_Data n) \<Longrightarrow> bs_readsize (rcv_stream_out r') = bs_readsize (rcv_stream_out r)"
proof -
  have rst: "r' = rcv_error r" if "call = Segment seg" "rst (header seg)" for seg
    using that by (simp add: r'_def r_def conn_segment_received_def set_stream_errors_def rcv_error_def)
  consider (seg) seg where "call = Segment seg" "\<not> rst (header seg)"
    | (read) n where "call = Read_Data n"
    | (other) "r' = r \<or> r' = rcv_error r"
  proof (cases call)
    case (Segment seg)
    then show ?thesis
      using that rst by (cases "rst (header seg)") auto
  qed (auto simp: that r'_def r_def conn_connect_def conn_write_def conn_end_input_stream_def conn_tick_def
      conn_destroy_def send_segments_def try_clean_close_def set_stream_errors_def send_rst_seg_def
      rcv_error_def Let_def split: prod.splits if_splits)
  then have "rcv_mono r r' \<and> ((\<forall>n. call \<noteq> Read_Data n) \<longrightarrow>
      bs_readsize (rcv_stream_out r') = bs_readsize (rcv_stream_out r))"
  proof cases
    case seg
    then have "r' = rcv_segment_received seg r"
      by (simp add: r'_def r_def conn_segment_rcv)
    then show ?thesis
      using end_inv_seg(2,3) i ok seg(1) by (simp add: conn_inv_def r_def)
  next
    case read
    then show ?thesis
      using end_inv_read(2) i by (auto simp: conn_inv_def r_def r'_def conn_read_def split: prod.splits)
  next
    case other
    then show ?thesis
      using rcv_error_same by auto
  qed
  then show "rcv_mono r r'"
    "(\<And>n. call \<noteq> Read_Data n) \<Longrightarrow> bs_readsize (rcv_stream_out r') = bs_readsize (rcv_stream_out r)"
    by auto
qed

section \<open>Closing\<close>

text \<open>
  A connection is active, or it has seen an error, or both streams have been delivered to the
  reassemblers completely.
\<close>

definition conn_closed_ok :: "tcp_link \<Rightarrow> tcp_connection \<Rightarrow> bool" where
  "conn_closed_ok L c \<longleftrightarrow> conn_active c \<or> bs_error (snd_stream (conn_sender c)) \<or>
     bs_end (rcv_stream_out (lk_peer_rcv L)) \<and> bs_end (rcv_stream_out (conn_receiver c))"

lemma clean_close_delivered:
  assumes i: "conn_inv L c" and r: "clean_close_ready c"
  shows "bs_end (rcv_stream_out (lk_peer_rcv L)) \<and> bs_end (rcv_stream_out (conn_receiver c))"
proof -
  let ?s = "conn_sender c" and ?r = "lk_peer_rcv L" and ?S = "lk_out L"
  have d: "direction ?S (lk_isn L) ?s ?r (lk_net L \<union> set (conn_segments_out c)) (lk_peer_net L)"
    using i by (simp add: conn_inv_def end_inv_def)
  then have "rcv_ok ?S (lk_isn L) ?s ?r" "length ?S + 3 < 2 ^ 31"
    by (simp_all add: direction_def)
  note known = rcv_ok_known [OF this(1) direction_core [OF d] this(2)]
  have "bs_end (snd_stream ?s)" "snd_flight_bytes ?s = 0" "snd_next_seqno ?s = bs_writtensize (snd_stream ?s) + 2"
    using r by (simp_all add: clean_close_ready_def conn_bytes_in_flight_def snd_bytes_in_flight_def bs_defs)
  moreover from this have "snd_next_seqno ?s = length ?S + 2"
    using direction_core [OF d] by (simp add: snd_core_def)
  ultimately have "length ?S + 2 \<le> rcv_wants ?r"
    using d by (simp add: direction_def snd_ok_def)
  moreover have "rcv_written ?r \<le> length ?S"
    using known(1) snd_core_sent(1) [OF direction_core [OF d]] by simp
  ultimately have "bs_end (rcv_stream_out ?r)"
    by (auto simp: rcv_wants_def rcv_next_def split: if_splits)
  then show ?thesis
    using r by (simp add: clean_close_ready_def bs_defs)
qed

lemma closed_ok_try: "conn_inv L c \<Longrightarrow> conn_closed_ok L c \<Longrightarrow> conn_closed_ok L (try_clean_close c)"
  using clean_close_delivered by (auto simp: conn_closed_ok_def try_clean_close_def)

lemma closed_ok_simps [simp]:
  "conn_closed_ok L (send_segments c) = conn_closed_ok L c"
  "conn_closed_ok L (set_stream_errors c)" "conn_closed_ok L ((set_stream_errors c)\<lparr>conn_active := b\<rparr>)"
  "conn_closed_ok L (c\<lparr>conn_wait_segment_time := t\<rparr>) = conn_closed_ok L c"
  "conn_closed_ok L (c\<lparr>conn_linger_after_streams_finish := b\<rparr>) = conn_closed_ok L c"
  by (simp_all add: conn_closed_ok_def send_segments_def set_stream_errors_def bs_set_error_def)

lemma closed_ok_step:
  "conn_closed_ok L c \<Longrightarrow> conn_active c' = conn_active c \<Longrightarrow>
   bs_error (snd_stream (conn_sender c')) = bs_error (snd_stream (conn_sender c)) \<Longrightarrow>
   rcv_mono (conn_receiver c) (conn_receiver c') \<Longrightarrow> conn_closed_ok L c'"
  by (auto simp: conn_closed_ok_def rcv_mono_def)

lemma fill_window_error:
  "snd_core S s \<Longrightarrow> bs_error (snd_stream (fill_window s)) = bs_error (snd_stream s)"
  using fill_window_sent(1) by (fastforce simp: snd_sent_def snd_frame_def)

lemma conn_reply_error:
  assumes "snd_inv S s" "length S + 2 < 2 ^ 31"
  shows "bs_error (snd_stream (conn_reply seg s)) = bs_error (snd_stream s)"
proof -
  have "snd_core S (ack_received a w s)" "snd_core S s" for a w
    using assms(1) ack_received_inv [OF assms] by (simp_all add: snd_inv_def)
  then show ?thesis
    using fill_window_error [of S] by (simp add: conn_reply_def Let_def send_empty_segment_def)
qed

lemma closed_ok_after:
  assumes "x = c' \<or> x = try_clean_close c'" "conn_inv L x" "rcv_mono (conn_receiver c) (conn_receiver x)"
    and "conn_closed_ok L c" "conn_active c' = conn_active c"
    and "bs_error (snd_stream (conn_sender c')) = bs_error (snd_stream (conn_sender c))"
  shows "conn_closed_ok L x"
proof -
  have "conn_receiver x = conn_receiver c'" "conn_inv L c'"
    using assms(1,2) by auto
  moreover from this have "conn_closed_ok L c'"
    using assms closed_ok_step by simp
  ultimately show ?thesis
    using assms(1) closed_ok_try by auto
qed

lemma conn_do_closed:
  assumes i: "conn_inv L c" and ok: "call_ok (lk_out L) (lk_peer_net L) c call" and cl: "conn_closed_ok L c"
  shows "conn_closed_ok L (conn_do call c)"
proof -
  let ?s = "conn_sender c"
  have si: "snd_inv (lk_out L) ?s" and S: "length (lk_out L) + 2 < 2 ^ 31"
    using i end_inv_inv by (auto simp: conn_inv_def end_inv_def direction_def)
  note after = closed_ok_after [OF _ conn_inv_do [OF i ok] conn_do_rcv(1) [OF i ok] cl]
  have fw: "bs_error (snd_stream (fill_window (?s\<lparr>snd_stream := b\<rparr>))) = bs_error b"
    if "snd_inv (lk_out L) (?s\<lparr>snd_stream := b\<rparr>)" for b
    using fill_window_error [of "lk_out L" "?s\<lparr>snd_stream := b\<rparr>"] that by (simp add: snd_inv_def)
  show ?thesis
  proof (cases call)
    case Connect
    then show ?thesis
      using fw [of "snd_stream ?s"] si by (intro after [OF disjI1 [OF refl]]) (simp_all add: conn_connect_def send_segments_def)
  next
    case (Write_Data d)
    then show ?thesis
      using fw [OF snd_inv_write [OF si]] ok
      by (intro after [OF disjI2, of "send_segments (c\<lparr>conn_sender :=
          fill_window (?s\<lparr>snd_stream := snd (bs_write d (snd_stream ?s))\<rparr>)\<rparr>)"])
        (simp_all add: conn_write_def send_segments_def split_beta Let_def)
  next
    case End_Input_Stream
    then show ?thesis
      using fw [OF snd_inv_end [OF si]] ok
      by (intro after [OF disjI1 [OF refl]]) (simp_all add: conn_end_input_stream_def send_segments_def Let_def)
  next
    case (Tick ms)
    show ?thesis
    proof (cases "snd_consecutive_transmit_num (snd_tick ms ?s) > MAX_RETX_ATTEMPTS")
      case True
      then show ?thesis
        using Tick by (simp add: conn_tick_def)
    next
      case False
      then show ?thesis
        using Tick by (intro after [OF disjI2, of "send_segments (c\<lparr>conn_sender := snd_tick ms ?s,
            conn_wait_segment_time := conn_wait_segment_time c + ms\<rparr>)"])
          (simp_all add: conn_tick_def Let_def send_segments_def snd_tick_fields)
    qed
  next
    case (Segment seg)
    show ?thesis
    proof (cases "rst (header seg)")
      case True
      then show ?thesis
        using Segment by (simp add: conn_segment_received_def)
    next
      case False
      obtain c' where "conn_do call c = try_clean_close c'" "conn_active c' = conn_active c"
        "conn_sender c' = ?s \<or> conn_sender c' = (conn_reply seg ?s)\<lparr>snd_segments_out := []\<rparr>"
        using conn_segment_received_reply [OF False refl, of c] Segment
        by (auto simp: send_segments_def split: if_splits)
      then show ?thesis
        using conn_reply_error [OF si S] by (intro after [of c']) auto
    qed
  next
    case (Read_Data n)
    then show ?thesis
      by (intro after [OF disjI1 [OF refl]]) (simp_all add: conn_read_def split_beta)
  next
    case Destroy
    then show ?thesis
      using cl by (auto simp: conn_destroy_def)
  qed
qed

section \<open>Two connections and a network\<close>

text \<open>An endpoint: its connection, what it gave to the network, what its application has read.\<close>

record tcp_side =
  sd_conn :: tcp_connection
  sd_net :: "tcp_segment set"
  sd_got :: "byte list"

abbreviation sd_snd :: "tcp_side \<Rightarrow> tcp_sender" where "sd_snd x \<equiv> conn_sender (sd_conn x)"
abbreviation sd_rcv :: "tcp_side \<Rightarrow> tcp_receiver" where "sd_rcv x \<equiv> conn_receiver (sd_conn x)"

definition side_new :: "tcp_config \<Rightarrow> u32 \<Rightarrow> tcp_side" where
  "side_new cfg rnd = \<lparr>sd_conn = tcp_connection_new cfg rnd, sd_net = {}, sd_got = []\<rparr>"

text \<open>
  A step of one side: a call on its connection, a read by its application, or the segments it
  queued go to the network. A segment it receives is any that the other side ever sent.
\<close>

inductive side_step :: "byte list \<Rightarrow> tcp_segment set \<Rightarrow> tcp_side \<Rightarrow> tcp_side \<Rightarrow> bool" for S net where
  side_call: "call_ok S net (sd_conn x) call \<Longrightarrow> (\<And>n. call \<noteq> Read_Data n) \<Longrightarrow>
    side_step S net x (x\<lparr>sd_conn := conn_do call (sd_conn x)\<rparr>)"
| side_read: "conn_read n (sd_conn x) = (d, c) \<Longrightarrow>
    side_step S net x (x\<lparr>sd_conn := c, sd_got := sd_got x @ d\<rparr>)"
| side_flush: "side_step S net x (x\<lparr>sd_conn := (sd_conn x)\<lparr>conn_segments_out := []\<rparr>,
    sd_net := sd_net x \<union> set (conn_segments_out (sd_conn x))\<rparr>)"

inductive tcp_world :: "byte list \<Rightarrow> byte list \<Rightarrow> tcp_side \<Rightarrow> tcp_side \<Rightarrow> bool" for A B where
  world_start: "tcp_world A B (side_new cfg rnd) (side_new cfg' rnd')"
| world_left: "tcp_world A B x y \<Longrightarrow> side_step A (sd_net y) x x' \<Longrightarrow> tcp_world A B x' y"
| world_right: "tcp_world A B x y \<Longrightarrow> side_step B (sd_net x) y y' \<Longrightarrow> tcp_world A B x y'"

definition sd_segs :: "tcp_side \<Rightarrow> tcp_segment set" where
  "sd_segs x = sd_net x \<union> set (conn_segments_out (sd_conn x))"

text \<open>One direction of the world: \<open>S\<close> flows from \<open>x\<close> to \<open>y\<close>.\<close>

definition flow_inv :: "byte list \<Rightarrow> tcp_side \<Rightarrow> tcp_side \<Rightarrow> bool" where
  "flow_inv S x y \<longleftrightarrow> direction S (snd_isn (sd_snd x)) (sd_snd x) (sd_rcv y) (sd_segs x) (sd_segs y) \<and>
     sd_got y = take (bs_readsize (rcv_stream_out (sd_rcv y))) S \<and>
     (conn_active (sd_conn x) \<or> bs_error (snd_stream (sd_snd x)) \<or>
      bs_end (rcv_stream_out (sd_rcv y)) \<and> bs_end (rcv_stream_out (sd_rcv x)))"

definition side_link :: "byte list \<Rightarrow> byte list \<Rightarrow> tcp_side \<Rightarrow> tcp_side \<Rightarrow> tcp_link" where
  "side_link A B x y = \<lparr>lk_out = A, lk_isn = snd_isn (sd_snd x), lk_in = B, lk_peer_isn = snd_isn (sd_snd y),
     lk_peer_snd = sd_snd y, lk_peer_rcv = sd_rcv y, lk_peer_net = sd_segs y, lk_net = sd_net x\<rparr>"

lemma flow_conn_inv:
  assumes "flow_inv A x y" "flow_inv B y x"
  shows "conn_inv (side_link A B x y) (sd_conn x)" "conn_closed_ok (side_link A B x y) (sd_conn x)"
  using assms by (auto simp: flow_inv_def conn_inv_def end_inv_def side_link_def sd_segs_def conn_closed_ok_def)

lemma conn_inv_isn: "conn_inv L c \<Longrightarrow> snd_isn (conn_sender c) = lk_isn L"
  using end_inv_ok [of L "conn_sender c"] by (simp add: conn_inv_def snd_ok_def)

text \<open>Back from an endpoint to the world, after a step of its connection.\<close>

lemma flow_back:
  assumes w: "flow_inv A x y" "flow_inv B y x" and L: "L = side_link A B x y"
    and i: "conn_inv L (sd_conn x')" "conn_closed_ok L (sd_conn x')" and net: "sd_net x' = sd_net x"
    and got: "sd_got x' = take (bs_readsize (rcv_stream_out (sd_rcv x'))) B"
    and mono: "rcv_mono (sd_rcv x) (sd_rcv x')"
  shows "flow_inv A x' y \<and> flow_inv B y x'"
proof -
  have "snd_isn (sd_snd x') = snd_isn (sd_snd x)"
    using conn_inv_isn [OF i(1)] by (simp add: L side_link_def)
  then have "direction A (snd_isn (sd_snd x')) (sd_snd x') (sd_rcv y) (sd_segs x') (sd_segs y)"
    "direction B (snd_isn (sd_snd y)) (sd_snd y) (sd_rcv x') (sd_segs y) (sd_segs x')"
    using i(1) net by (simp_all add: conn_inv_def end_inv_def L side_link_def sd_segs_def)
  then show ?thesis
    using w got mono i(2) by (auto simp: flow_inv_def conn_closed_ok_def L side_link_def rcv_mono_def)
qed

lemma flow_step:
  assumes w: "flow_inv A x y" "flow_inv B y x" and st: "side_step A (sd_net y) x x'"
  shows "flow_inv A x' y \<and> flow_inv B y x'"
  using st
proof cases
  case (side_call call)
  let ?L = "side_link A B x y"
  note i = flow_conn_inv [OF w]
  have ok: "call_ok (lk_out ?L) (lk_peer_net ?L) (sd_conn x) call"
    using side_call(2) by (cases call) (auto simp: side_link_def sd_segs_def)
  note rcv = conn_do_rcv [OF i(1) ok]
  have "sd_got x = take (bs_readsize (rcv_stream_out (sd_rcv x))) B"
    using w(2) by (simp add: flow_inv_def)
  then have "sd_got x' = take (bs_readsize (rcv_stream_out (sd_rcv x'))) B"
    using rcv(2) side_call by simp
  then show ?thesis
    using rcv(1) conn_inv_do [OF i(1) ok] conn_do_closed [OF i(1) ok i(2)] side_call(1)
    by (intro flow_back [OF w refl]) simp_all
next
  case (side_read n d c)
  let ?L = "side_link A B x y"
  note i = flow_conn_inv [OF w]
  obtain r where r: "rcv_read n (sd_rcv x) = (d, r)" "c = (sd_conn x)\<lparr>conn_receiver := r\<rparr>"
    using side_read(2) by (auto simp: conn_read_def split: prod.splits)
  have e: "conn_do (Read_Data n) (sd_conn x) = c"
    using side_read(2) by simp
  have ok: "call_ok (lk_out ?L) (lk_peer_net ?L) (sd_conn x) (Read_Data n)"
    by simp
  have "sd_got x @ d = take (bs_readsize (rcv_stream_out r)) B"
    using end_inv_read(3) [OF _ r(1), of ?L "sd_snd x"] i(1) w(2)
    by (simp add: conn_inv_def flow_inv_def side_link_def)
  then show ?thesis
    using conn_do_rcv(1) [OF i(1) ok] conn_inv_do [OF i(1) ok] conn_do_closed [OF i(1) ok i(2)] side_read(1) r(2)
    unfolding e by (intro flow_back [OF w refl]) simp_all
next
  case side_flush
  then have "sd_segs x' = sd_segs x"
    by (simp add: sd_segs_def)
  then show ?thesis
    using w side_flush by (simp add: flow_inv_def)
qed

lemma flow_start:
  assumes "length S + 3 < 2 ^ 31"
  shows "flow_inv S (side_new cfg rnd) (side_new cfg' rnd')"
proof -
  let ?s = "tcp_sender_new (cfg_send_capacity cfg) (cfg_rt_timeout cfg) (cfg_fixed_isn cfg) rnd"
    and ?r = "tcp_receiver_new (cfg_recv_capacity cfg')"
  have s: "snd_next_seqno ?s = 0" "snd_flight_bytes ?s = 0" "snd_wait_ack ?s = []" "snd_segments_out ?s = []"
    "snd_ackno ?s = 0" "snd_window_sz ?s = 1"
    by (simp_all add: tcp_sender_new_def)
  have "\<not> rcv_set_isn ?r" "bs_readsize (rcv_stream_out ?r) = 0"
    by (simp_all add: tcp_receiver_new_def rcv_stream_out_def reassembler_new_def)
  then show ?thesis
    using assms snd_inv_new rcv_inv_new
    by (simp add: flow_inv_def side_new_def tcp_connection_new_def direction_def snd_ok_def rcv_ok_def s
        rcv_wants_def sd_segs_def)
qed

lemma world_flow:
  assumes "tcp_world A B x y" "length A + 3 < 2 ^ 31" "length B + 3 < 2 ^ 31"
  shows "flow_inv A x y \<and> flow_inv B y x"
  using assms(1)
proof (induction rule: tcp_world.induct)
  case (world_start cfg rnd cfg' rnd')
  show ?case
    using flow_start assms(2,3) by blast
next
  case (world_left x y x')
  then show ?case
    using flow_step by blast
next
  case (world_right x y y')
  then show ?case
    using flow_step by blast
qed

lemma flow_delivered:
  assumes f: "flow_inv S x y"
  defines "st \<equiv> rcv_stream_out (sd_rcv y)"
  shows "sd_got y @ bs_que st = take (bs_writtensize st) S" "bs_end st \<Longrightarrow> sd_got y @ bs_que st = S"
    "bs_eof st \<Longrightarrow> sd_got y = S"
proof -
  have d: "direction S (snd_isn (sd_snd x)) (sd_snd x) (sd_rcv y) (sd_segs x) (sd_segs y)"
    and g: "sd_got y = take (bs_readsize st) S"
    using f by (simp_all add: flow_inv_def st_def)
  let ?K = "snd_sent_bytes (sd_snd x)"
  note i = direction_rcv_inv [OF d]
  have "rcv_ok S (snd_isn (sd_snd x)) (sd_snd x) (sd_rcv y)" "length S + 3 < 2 ^ 31"
    using d by (simp_all add: direction_def)
  note known = rcv_ok_known [OF this(1) direction_core [OF d] this(2), folded st_def]
  have "bs_readsize st \<le> bs_writtensize st"
    using rcv_inv_read_le [OF i] by (simp add: st_def)
  then show 1: "sd_got y @ bs_que st = take (bs_writtensize st) S"
    using rcv_inv_stream(1) [OF i] known(1) g by (simp add: st_def min_absorb1)
  show "bs_end st \<Longrightarrow> sd_got y @ bs_que st = S"
    using 1 known(2) by simp
  then show "bs_eof st \<Longrightarrow> sd_got y = S"
    using 1 g by (simp add: bs_eof_def)
qed

section \<open>A concrete run\<close>

text \<open>A call whose segments go to the network at once.\<close>

definition side_act :: "conn_call \<Rightarrow> tcp_side \<Rightarrow> tcp_side" where
  "side_act call x =
     (let c = conn_do call (sd_conn x)
      in x\<lparr>sd_conn := c\<lparr>conn_segments_out := []\<rparr>, sd_net := sd_net x \<union> set (conn_segments_out c)\<rparr>)"

lemma side_act_left:
  assumes "tcp_world A B x y" "call_ok A (sd_net y) (sd_conn x) call" "\<And>n. call \<noteq> Read_Data n"
  shows "tcp_world A B (side_act call x) y"
  using world_left [OF world_left [OF assms(1) side_call [OF assms(2,3)]] side_flush]
  by (simp add: side_act_def Let_def)

lemma side_act_right:
  assumes "tcp_world A B x y" "call_ok B (sd_net x) (sd_conn y) call" "\<And>n. call \<noteq> Read_Data n"
  shows "tcp_world A B x (side_act call y)"
  using world_right [OF world_right [OF assms(1) side_call [OF assms(2,3)]] side_flush]
  by (simp add: side_act_def Let_def)

text \<open>
  The left side sends one byte and ends its stream, the right side ends an empty stream. The
  connections are tracked without the network; the segments are the ones they send.
\<close>

definition demo_config :: tcp_config where
  "demo_config = \<lparr>cfg_rt_timeout = 0, cfg_recv_capacity = 2, cfg_send_capacity = 2, cfg_fixed_isn = Some 0\<rparr>"

definition sent_by :: "conn_call \<Rightarrow> tcp_connection \<Rightarrow> tcp_segment" where
  "sent_by call c = hd (conn_segments_out (conn_do call c))"

definition conn_act :: "conn_call \<Rightarrow> tcp_connection \<Rightarrow> tcp_connection" where
  "conn_act call c = (conn_do call c)\<lparr>conn_segments_out := []\<rparr>"

definition demo_c0 :: tcp_connection where "demo_c0 = tcp_connection_new demo_config 0"
definition demo_s1 :: tcp_segment where "demo_s1 = sent_by (Write_Data [72]) demo_c0"
definition demo_l1 :: tcp_connection where "demo_l1 = conn_act (Write_Data [72]) demo_c0"
definition demo_l2 :: tcp_connection where "demo_l2 = conn_act End_Input_Stream demo_l1"
definition demo_s2 :: tcp_segment where "demo_s2 = sent_by (Segment demo_s1) demo_c0"
definition demo_r1 :: tcp_connection where "demo_r1 = conn_act (Segment demo_s1) demo_c0"
definition demo_r2 :: tcp_connection where "demo_r2 = conn_act End_Input_Stream demo_r1"
definition demo_s3 :: tcp_segment where "demo_s3 = sent_by (Segment demo_s2) demo_l2"
definition demo_l3 :: tcp_connection where "demo_l3 = conn_act (Segment demo_s2) demo_l2"
definition demo_s4 :: tcp_segment where "demo_s4 = sent_by (Segment demo_s3) demo_r2"
definition demo_r3 :: tcp_connection where "demo_r3 = conn_act (Segment demo_s3) demo_r2"
definition demo_l4 :: tcp_connection where "demo_l4 = conn_act (Segment demo_s4) demo_l3"

definition demo_left :: tcp_side where
  "demo_left = fold side_act [Write_Data [72], End_Input_Stream, Segment demo_s2, Segment demo_s4]
     (side_new demo_config 0)"

definition demo_right :: tcp_side where
  "demo_right = fold side_act [Segment demo_s1, End_Input_Stream, Segment demo_s3] (side_new demo_config 0)"

lemma side_act_conn [simp]: "sd_conn (side_act call x) = conn_act call (sd_conn x)" "sd_got (side_act call x) = sd_got x"
  "sd_net (side_act call x) = sd_net x \<union> set (conn_segments_out (conn_do call (sd_conn x)))"
  by (simp_all add: side_act_def conn_act_def Let_def)

text \<open>All that the run needs to be one, evaluated in one pass.\<close>

definition demo_ok :: bool where
  "demo_ok = (let l0 = demo_c0; w = Write_Data [72]; s1 = sent_by w l0; l1 = conn_act w l0;
       l2 = conn_act End_Input_Stream l1; s2 = sent_by (Segment s1) l0; r1 = conn_act (Segment s1) l0;
       r2 = conn_act End_Input_Stream r1; s3 = sent_by (Segment s2) l2; l3 = conn_act (Segment s2) l2;
       s4 = sent_by (Segment s3) r2; r3 = conn_act (Segment s3) r2; l4 = conn_act (Segment s4) l3
     in bs_writtensize (snd_stream (conn_sender l0)) = 0 \<and> conn_segments_out (conn_do w l0) \<noteq> [] \<and>
        bs_writtensize (snd_stream (conn_sender l1)) = 1 \<and>
        conn_segments_out (conn_do (Segment s1) l0) \<noteq> [] \<and>
        bs_writtensize (snd_stream (conn_sender r1)) = 0 \<and>
        conn_segments_out (conn_do (Segment s2) l2) \<noteq> [] \<and>
        conn_segments_out (conn_do (Segment s3) r2) \<noteq> [] \<and>
        \<not> conn_active l4 \<and> \<not> bs_error (snd_stream (conn_sender l4)))"

lemma demo_ok: "demo_ok"
  by code_simp

lemmas demo_facts = demo_ok [unfolded demo_ok_def Let_def, folded demo_s1_def demo_l1_def demo_l2_def,
  folded demo_s2_def demo_r1_def demo_r2_def, folded demo_s3_def demo_l3_def,
  folded demo_s4_def demo_r3_def demo_l4_def]

lemma demo_world: "tcp_world [72] [] demo_left demo_right"
proof -
  let ?x0 = "side_new demo_config 0"
  let ?x1 = "side_act (Write_Data [72]) ?x0"
  let ?x2 = "side_act End_Input_Stream ?x1"
  let ?y1 = "side_act (Segment demo_s1) ?x0"
  let ?y2 = "side_act End_Input_Stream ?y1"
  let ?x3 = "side_act (Segment demo_s2) ?x2"
  let ?y3 = "side_act (Segment demo_s3) ?y2"
  let ?x4 = "side_act (Segment demo_s4) ?x3"
  have c: "sd_conn ?x0 = demo_c0" "sd_conn ?x1 = demo_l1" "sd_conn ?x2 = demo_l2" "sd_conn ?x3 = demo_l3"
    "sd_conn ?y1 = demo_r1" "sd_conn ?y2 = demo_r2"
    by (simp_all add: side_new_def demo_c0_def demo_l1_def demo_l2_def demo_l3_def demo_r1_def demo_r2_def)
  have h: "sent_by call c \<in> set (conn_segments_out (conn_do call c))"
    if "conn_segments_out (conn_do call c) \<noteq> []" for call c
    using that by (simp add: sent_by_def)
  have s: "demo_s1 \<in> set (conn_segments_out (conn_do (Write_Data [72]) demo_c0))"
    "demo_s2 \<in> set (conn_segments_out (conn_do (Segment demo_s1) demo_c0))"
    "demo_s3 \<in> set (conn_segments_out (conn_do (Segment demo_s2) demo_l2))"
    "demo_s4 \<in> set (conn_segments_out (conn_do (Segment demo_s3) demo_r2))"
    using demo_facts
      h [of "Write_Data [72]" demo_c0, folded demo_s1_def] h [of "Segment demo_s1" demo_c0, folded demo_s2_def]
      h [of "Segment demo_s2" demo_l2, folded demo_s3_def] h [of "Segment demo_s3" demo_r2, folded demo_s4_def]
    by blast+
  then have s1: "demo_s1 \<in> sd_net ?x2" and s2: "demo_s2 \<in> sd_net ?y2" and s3: "demo_s3 \<in> sd_net ?x3"
    and s4: "demo_s4 \<in> sd_net ?y3"
    using c by (simp_all del: conn_do.simps side_act_conn(1))
  have "tcp_world [72] [] ?x1 ?x0"
    by (rule side_act_left [OF world_start]) (use demo_facts in \<open>simp_all add: c honest_def piece_def\<close>)
  then have "tcp_world [72] [] ?x2 ?x0"
    by (rule side_act_left) (use demo_facts in \<open>simp_all add: c del: side_act_conn(1)\<close>)
  then have "tcp_world [72] [] ?x2 ?y1"
    by (rule side_act_right) (use s1 in simp_all)
  then have "tcp_world [72] [] ?x2 ?y2"
    by (rule side_act_right) (use demo_facts in \<open>simp_all add: c del: side_act_conn(1)\<close>)
  then have "tcp_world [72] [] ?x3 ?y2"
    by (rule side_act_left) (use s2 in simp_all)
  then have "tcp_world [72] [] ?x3 ?y3"
    by (rule side_act_right) (use s3 in simp_all)
  then have "tcp_world [72] [] ?x4 ?y3"
    by (rule side_act_left) (use s4 in simp_all)
  then show ?thesis
    by (simp add: demo_left_def demo_right_def)
qed

lemma demo_left_conn: "sd_conn demo_left = demo_l4"
  by (simp add: demo_left_def side_new_def demo_c0_def demo_l1_def demo_l2_def demo_l3_def demo_l4_def)

section \<open>Properties\<close>

text \<open>
  C1. End-to-end delivery: in every run of two connections over a network that may lose,
  repeat and reorder segments, what each application has read, followed by what it can read,
  is a prefix of the stream the other one writes, and an application that sees the end of its
  inbound stream has read that stream completely. Connections may time out, be reset or be
  destroyed at any time.
\<close>

theorem end_to_end_prefix:
  assumes "tcp_world A B x y" "length A + 3 < 2 ^ 31" "length B + 3 < 2 ^ 31"
  shows "prefix (sd_got y @ bs_que (rcv_stream_out (sd_rcv y))) A \<and> (bs_eof (rcv_stream_out (sd_rcv y)) \<longrightarrow> sd_got y = A) \<and>
    prefix (sd_got x @ bs_que (rcv_stream_out (sd_rcv x))) B \<and> (bs_eof (rcv_stream_out (sd_rcv x)) \<longrightarrow> sd_got x = B)"
proof -
  have f: "flow_inv A x y" "flow_inv B y x"
    using world_flow [OF assms] by auto
  then show ?thesis
    using flow_delivered(1,3) [OF f(1)] flow_delivered(1,3) [OF f(2)] by (simp add: take_is_prefix)
qed

theorem end_to_end_prefix_witness:
  "prefix (sd_got demo_right @ bs_que (rcv_stream_out (sd_rcv demo_right))) [72] \<and>
   prefix (sd_got demo_left @ bs_que (rcv_stream_out (sd_rcv demo_left))) []"
  using end_to_end_prefix [OF demo_world] by simp

text \<open>
  C2. A clean close loses nothing: when a connection has become inactive and its streams carry
  no error, the other side has received the whole stream it sent, end included, and it has
  received the whole stream of the other side; whatever was not read yet is waiting to be read.
\<close>

theorem clean_close_complete:
  assumes "tcp_world A B x y" "length A + 3 < 2 ^ 31" "length B + 3 < 2 ^ 31"
    and "\<not> conn_active (sd_conn x)" "\<not> bs_error (snd_stream (sd_snd x))"
  shows "sd_got y @ bs_que (rcv_stream_out (sd_rcv y)) = A \<and> bs_input_ended (rcv_stream_out (sd_rcv y)) \<and>
    sd_got x @ bs_que (rcv_stream_out (sd_rcv x)) = B \<and> bs_input_ended (rcv_stream_out (sd_rcv x))"
proof -
  have f: "flow_inv A x y" "flow_inv B y x"
    using world_flow [OF assms(1-3)] by auto
  then have "bs_end (rcv_stream_out (sd_rcv y))" "bs_end (rcv_stream_out (sd_rcv x))"
    using assms(4,5) by (auto simp: flow_inv_def)
  then show ?thesis
    using flow_delivered(2) [OF f(1)] flow_delivered(2) [OF f(2)] by (simp add: bs_defs)
qed

theorem clean_close_complete_witness:
  "\<not> conn_active (sd_conn demo_left) \<and>
   sd_got demo_right @ bs_que (rcv_stream_out (sd_rcv demo_right)) = [72] \<and>
   bs_input_ended (rcv_stream_out (sd_rcv demo_left))"
proof -
  have "\<not> conn_active (sd_conn demo_left)" "\<not> bs_error (snd_stream (sd_snd demo_left))"
    using demo_facts by (simp_all add: demo_left_conn)
  then show ?thesis
    using clean_close_complete [OF demo_world] by simp
qed

end
