(* ===== verification/Text_Output.thy ===== *)
theory Text_Output
  imports Sponge_Prelude
begin

text \<open>
  What the sources use of the C++ stream library and of \<open>inet_ntoa\<close> to print numbers: integers
  in a base, booleans with \<open>boolalpha\<close>, a field of two digits, dotted quads, and \<open>isprint\<close>.
\<close>

definition digit_char :: "nat \<Rightarrow> char" where
  "digit_char d = (if d < 10 then char_of (48 + d) else char_of (87 + d))"

function to_base :: "nat \<Rightarrow> nat \<Rightarrow> string" where
  "to_base b n = (if b \<le> 1 \<or> n < b then [digit_char n] else to_base b (n div b) @ [digit_char (n mod b)])"
  by pat_completeness auto
termination
  by (relation "measure snd") auto

declare to_base.simps [simp del]

abbreviation dec :: "nat \<Rightarrow> string" where "dec n \<equiv> to_base 10 n"
abbreviation hexa :: "nat \<Rightarrow> string" where "hexa n \<equiv> to_base 16 n"

definition bool_text :: "bool \<Rightarrow> string" where
  "bool_text b = (if b then ''true'' else ''false'')"

text \<open>\<open>setw(w) << setfill('0')\<close>: a longer number is printed whole.\<close>

definition pad_zero :: "nat \<Rightarrow> string \<Rightarrow> string" where
  "pad_zero w s = replicate (w - length s) (CHR ''0'') @ s"

definition newline :: string where
  "newline = [CHR 0x0A]"

text \<open>The dotted quad of an address in host byte order, as \<open>inet_ntoa\<close> prints it.\<close>

definition inet_ntoa :: "u32 \<Rightarrow> string" where
  "inet_ntoa a = dec (unat (ucast (drop_bit 24 a) :: byte)) @ ''.'' @ dec (unat (ucast (drop_bit 16 a) :: byte)) @
     ''.'' @ dec (unat (ucast (drop_bit 8 a) :: byte)) @ ''.'' @ dec (unat (ucast a :: byte))"

text \<open>\<open>isprint\<close> in the C locale.\<close>

definition isprint :: "byte \<Rightarrow> bool" where
  "isprint b \<longleftrightarrow> 32 \<le> b \<and> b \<le> 126"

section \<open>Reading numbers\<close>

definition digit_val :: "char \<Rightarrow> nat" where
  "digit_val c = (let n = of_char c :: nat in if n < 58 then n - 48 else n - 87)"

definition from_base :: "nat \<Rightarrow> string \<Rightarrow> nat" where
  "from_base b s = foldl (\<lambda>acc c. b * acc + digit_val c) 0 s"

definition isdigit :: "char \<Rightarrow> bool" where
  "isdigit c \<longleftrightarrow> 48 \<le> (of_char c :: nat) \<and> (of_char c :: nat) \<le> 57"

text \<open>\<open>stoi\<close> on strings without sign and leading white space: the longest run of digits counts.\<close>

definition stoi :: "string \<Rightarrow> nat result" where
  "stoi s =
     (let ds = takeWhile isdigit s; n = from_base 10 ds
      in if ds = [] then Inl (Invalid_Argument ''stoi'')
         else if n > 2 ^ 31 - 1 then Inl (Out_Of_Range ''stoi'') else Inr n)"

lemma digit_val_char [simp]: "d < 16 \<Longrightarrow> digit_val (digit_char d) = d"
  by (simp add: digit_val_def digit_char_def Let_def)

lemma from_to_base: "2 \<le> b \<Longrightarrow> b \<le> 16 \<Longrightarrow> from_base b (to_base b n) = n"
proof (induction b n rule: to_base.induct)
  case (1 b n)
  show ?case
  proof (cases "n < b")
    case True
    then show ?thesis
      using "1.prems" by (simp add: to_base.simps [of b n] from_base_def)
  next
    case False
    then have "from_base b (to_base b (n div b)) = n div b"
      using 1 by simp
    moreover have "n mod b < b"
      using "1.prems" by simp
    then have "n mod b < 16"
      using "1.prems" by linarith
    ultimately show ?thesis
      using False "1.prems" by (simp add: to_base.simps [of b n] from_base_def)
  qed
qed

lemma to_base_inject: "2 \<le> b \<Longrightarrow> b \<le> 16 \<Longrightarrow> to_base b m = to_base b n \<longleftrightarrow> m = n"
  using from_to_base by metis

lemma length_hexa_byte: "n < 256 \<Longrightarrow> length (hexa n) = (if n < 16 then 1 else 2)"
proof -
  assume "n < 256"
  then have "n div 16 < 16"
    by simp
  then show ?thesis
    by (auto simp: to_base.simps [of 16 n] to_base.simps [of 16 "n div 16"])
qed

lemma length_pad_byte [simp]: "n < 256 \<Longrightarrow> length (pad_zero 2 (hexa n)) = 2"
  by (simp add: pad_zero_def length_hexa_byte)

lemma isdigit_dec [simp]: "c \<in> set (dec n) \<Longrightarrow> isdigit c"
proof (induction "10 :: nat" n rule: to_base.induct)
  case (1 n)
  have "isdigit (digit_char d)" if "d < 10" for d
    using that by (simp add: isdigit_def digit_char_def)
  moreover have "n mod 10 < 10"
    by simp
  ultimately show ?case
    using 1 by (auto simp: to_base.simps [of 10 n] split: if_splits)
qed

lemma stoi_dec [simp]: "n < 2 ^ 31 \<Longrightarrow> stoi (dec n) = Inr n"
proof -
  have e: "takeWhile isdigit (dec n) = dec n"
    by (rule takeWhile_eq_all_conv [THEN iffD2]) simp
  have "dec n \<noteq> []"
    by (subst to_base.simps) simp
  then show "n < 2 ^ 31 \<Longrightarrow> ?thesis"
    unfolding stoi_def Let_def e by (simp add: from_to_base)
qed

end
