(* ===== verification/IPv4.thy ===== *)
theory IPv4
  imports TCP_Segment Text_Output
begin

text \<open>
  IPv4 headers and datagrams: \<open>libsponge/tcp_helpers/ipv4_header.hh\<close>, \<open>ipv4_header.cc\<close>,
  \<open>ipv4_datagram.hh\<close> and \<open>ipv4_datagram.cc\<close>. A serialized datagram parses back; the datagram
  parser ignores what the header parser reports.
\<close>

section \<open>IPv4Header\<close>

record ipv4_header =
  ip_ver :: u8
  ip_hlen :: u8
  ip_tos :: u8
  ip_len :: u16
  ip_id :: u16
  ip_df :: bool
  ip_mf :: bool
  ip_offset :: u16
  ip_ttl :: u8
  ip_proto :: u8
  ip_cksum :: u16
  ip_src :: u32
  ip_dst :: u32

definition IPv4Header_LENGTH :: nat where "IPv4Header_LENGTH = 20"

definition DEFAULT_TTL :: u8 where "DEFAULT_TTL = 128"

definition PROTO_TCP :: u8 where "PROTO_TCP = 6"

definition ipv4_header_new :: ipv4_header where
  "ipv4_header_new = \<lparr>ip_ver = 4, ip_hlen = of_nat (IPv4Header_LENGTH div 4), ip_tos = 0, ip_len = 0, ip_id = 0,
     ip_df = True, ip_mf = False, ip_offset = 0, ip_ttl = DEFAULT_TTL, ip_proto = PROTO_TCP, ip_cksum = 0,
     ip_src = 0, ip_dst = 0\<rparr>"

unbundle bit_operations_syntax

text \<open>The fields in the order they are read.\<close>

definition ipv4_read_fields :: "net_parser \<Rightarrow> ipv4_header \<times> net_parser" where
  "ipv4_read_fields p =
     (let (first_byte, p) = np_u8 p;
          (tos, p) = np_u8 p;
          (len, p) = np_u16 p;
          (id, p) = np_u16 p;
          (fo_val, p) = np_u16 p;
          (ttl, p) = np_u8 p;
          (proto, p) = np_u8 p;
          (ck, p) = np_u16 p;
          (src, p) = np_u32 p;
          (dst, p) = np_u32 p
      in (\<lparr>ip_ver = drop_bit 4 first_byte, ip_hlen = first_byte AND 0x0f, ip_tos = tos, ip_len = len,
           ip_id = id, ip_df = (fo_val AND 0x4000 \<noteq> 0), ip_mf = (fo_val AND 0x2000 \<noteq> 0),
           ip_offset = fo_val AND 0x1fff, ip_ttl = ttl, ip_proto = proto, ip_cksum = ck,
           ip_src = src, ip_dst = dst\<rparr>, p))"

text \<open>The early return for a short buffer leaves the header as it was.\<close>

definition ipv4_header_parse :: "ipv4_header \<Rightarrow> net_parser \<Rightarrow> parse_result \<times> ipv4_header \<times> net_parser" where
  "ipv4_header_parse h0 p =
     (let original_serialized_version = np_buffer p;
          data_size = length (np_buffer p)
      in if data_size < IPv4Header_LENGTH then (PacketTooShort, h0, p)
         else
           let (h, p) = ipv4_read_fields p
           in if data_size < 4 * unat (ip_hlen h) then (PacketTooShort, h, p)
              else if ip_ver h \<noteq> 4 then (WrongIPVersion, h, p)
              else if ip_hlen h < 5 then (HeaderTooShort, h, p)
              else if data_size \<noteq> unat (ip_len h) then (TruncatedPacket, h, p)
              else let p = np_remove_prefix (unat (ip_hlen h) * 4 - IPv4Header_LENGTH) p
                   in if np_has_error p then (np_error p, h, p)
                      else let check = ck_add (take (4 * unat (ip_hlen h)) original_serialized_version)
                                 (internet_checksum_new 0)
                           in if ck_value check \<noteq> 0 then (BadChecksum, h, p) else (NoError, h, p))"

definition ipv4_fo_val :: "ipv4_header \<Rightarrow> u16" where
  "ipv4_fo_val h = (if ip_df h then 0x4000 else 0) OR (if ip_mf h then 0x2000 else 0) OR (ip_offset h AND 0x1fff)"

definition ipv4_header_serialize :: "ipv4_header \<Rightarrow> byte list result" where
  "ipv4_header_serialize h =
     (if ip_ver h \<noteq> 4 then Inl (Runtime_Error ''wrong IP version'')
      else if 4 * unat (ip_hlen h) < IPv4Header_LENGTH then Inl (Runtime_Error ''IP header too short'')
      else let ret = [];
               first_byte = push_bit 4 (ip_ver h) OR (ip_hlen h AND 0xf);
               ret = unparse_u8 ret first_byte;
               ret = unparse_u8 ret (ip_tos h);
               ret = unparse_u16 ret (ip_len h);
               ret = unparse_u16 ret (ip_id h);
               ret = unparse_u16 ret (ipv4_fo_val h);
               ret = unparse_u8 ret (ip_ttl h);
               ret = unparse_u8 ret (ip_proto h);
               ret = unparse_u16 ret (ip_cksum h);
               ret = unparse_u32 ret (ip_src h);
               ret = unparse_u32 ret (ip_dst h)
           in Inr (resize (4 * unat (ip_hlen h)) ret))"

text \<open>The difference is cut to 16 bits.\<close>

definition ipv4_payload_length :: "ipv4_header \<Rightarrow> u16" where
  "ipv4_payload_length h = ip_len h - 4 * ucast (ip_hlen h)"

definition ipv4_pseudo_cksum :: "ipv4_header \<Rightarrow> u32" where
  "ipv4_pseudo_cksum h =
     (let pcksum = drop_bit 16 (ip_src h) + (ip_src h AND 0xffff);
          pcksum = pcksum + (drop_bit 16 (ip_dst h) + (ip_dst h AND 0xffff));
          pcksum = pcksum + ucast (ip_proto h)
      in pcksum + ucast (ipv4_payload_length h))"

text \<open>The two renderings; the manipulator \<open>hex\<close> stays in force to the end.\<close>

definition ipv4_header_to_string :: "ipv4_header \<Rightarrow> string" where
  "ipv4_header_to_string h =
     ''IP version: '' @ hexa (unat (ip_ver h)) @ newline @
     ''IP hdr len: '' @ hexa (unat (ip_hlen h)) @ newline @
     ''IP tos: '' @ hexa (unat (ip_tos h)) @ newline @
     ''IP dgram len: '' @ hexa (unat (ip_len h)) @ newline @
     ''IP id: '' @ hexa (unat (ip_id h)) @ newline @
     ''Flags: df: '' @ bool_text (ip_df h) @ '' mf: '' @ bool_text (ip_mf h) @ newline @
     ''Offset: '' @ hexa (unat (ip_offset h)) @ newline @
     ''TTL: '' @ hexa (unat (ip_ttl h)) @ newline @
     ''Protocol: '' @ hexa (unat (ip_proto h)) @ newline @
     ''Checksum: '' @ hexa (unat (ip_cksum h)) @ newline @
     ''Src addr: '' @ hexa (unat (ip_src h)) @ newline @
     ''Dst addr: '' @ hexa (unat (ip_dst h)) @ newline"

definition ipv4_header_summary :: "ipv4_header \<Rightarrow> string" where
  "ipv4_header_summary h =
     ''IPv'' @ hexa (unat (ip_ver h)) @ '', '' @ ''len='' @ hexa (unat (ip_len h)) @ '', '' @
     ''protocol='' @ hexa (unat (ip_proto h)) @ '', '' @
     (if ip_ttl h \<ge> 10 then '''' else ''ttl='' @ dec (unat (ip_ttl h)) @ '', '') @
     ''src='' @ inet_ntoa (ip_src h) @ '', '' @ ''dst='' @ inet_ntoa (ip_dst h)"

section \<open>IPv4Datagram\<close>

record ipv4_datagram =
  dg_header :: ipv4_header
  dg_payload :: "byte list"

definition ipv4_datagram_new :: ipv4_datagram where
  "ipv4_datagram_new = \<lparr>dg_header = ipv4_header_new, dg_payload = []\<rparr>"

text \<open>The result of the header parser is dropped.\<close>

definition ipv4_datagram_parse :: "byte list \<Rightarrow> ipv4_datagram \<Rightarrow> parse_result \<times> ipv4_datagram" where
  "ipv4_datagram_parse buffer dg =
     (let (_, h, p) = ipv4_header_parse (dg_header dg) (net_parser_new buffer);
          dg = dg\<lparr>dg_header := h, dg_payload := np_buffer p\<rparr>
      in if length (dg_payload dg) \<noteq> unat (ipv4_payload_length h) then (PacketTooShort, dg)
         else (np_error p, dg))"

definition ipv4_datagram_serialize :: "ipv4_datagram \<Rightarrow> byte list result" where
  "ipv4_datagram_serialize dg =
     (if length (dg_payload dg) \<noteq> unat (ipv4_payload_length (dg_header dg))
      then Inl (Runtime_Error ''IPv4Datagram::serialize: payload is wrong size'')
      else let header_out = (dg_header dg)\<lparr>ip_cksum := 0\<rparr>
           in case ipv4_header_serialize header_out of
                Inl e \<Rightarrow> Inl e
              | Inr header_zero_checksum \<Rightarrow>
                  let check = ck_add header_zero_checksum (internet_checksum_new 0);
                      header_out = header_out\<lparr>ip_cksum := ck_value check\<rparr>
                  in case ipv4_header_serialize header_out of
                       Inl e \<Rightarrow> Inl e
                     | Inr bytes \<Rightarrow> Inr (bytes @ dg_payload dg))"

section \<open>The header codec\<close>

text \<open>Headers the format can express: version 4, a length of 5 to 15 words, a 13-bit offset.\<close>

definition ipv4_header_ok :: "ipv4_header \<Rightarrow> bool" where
  "ipv4_header_ok h \<longleftrightarrow> ip_ver h = 4 \<and> 5 \<le> ip_hlen h \<and> ip_hlen h < 16 \<and> ip_offset h < 0x2000"

definition ipv4_fixed_bytes :: "ipv4_header \<Rightarrow> byte list" where
  "ipv4_fixed_bytes h = u8_bytes (push_bit 4 (ip_ver h) OR (ip_hlen h AND 0xf)) @ u8_bytes (ip_tos h) @
     u16_bytes (ip_len h) @ u16_bytes (ip_id h) @ u16_bytes (ipv4_fo_val h) @ u8_bytes (ip_ttl h) @
     u8_bytes (ip_proto h) @ u16_bytes (ip_cksum h) @ u32_bytes (ip_src h) @ u32_bytes (ip_dst h)"

lemma length_ipv4_fixed_bytes [simp]: "length (ipv4_fixed_bytes h) = 20"
  by (simp add: ipv4_fixed_bytes_def)

lemma ipv4_header_serialize_eq:
  assumes "ipv4_header_ok h"
  shows "ipv4_header_serialize h = Inr (ipv4_fixed_bytes h @ replicate (4 * unat (ip_hlen h) - 20) 0)"
proof -
  have "5 \<le> unat (ip_hlen h)"
    using assms by (simp add: ipv4_header_ok_def word_le_nat_alt)
  then show ?thesis
    using assms by (simp add: ipv4_header_serialize_def resize_def ipv4_fixed_bytes_def Let_def
        ipv4_header_ok_def IPv4Header_LENGTH_def)
qed

lemma low_mask [simp]:
  "(x :: u8) < 16 \<Longrightarrow> x AND 0xf = x" "(y :: u16) < 0x2000 \<Longrightarrow> y AND 0x1fff = y"
proof -
  have "(0xf :: u8) = mask 4" "(0x1fff :: u16) = mask 13"
    by (simp_all add: mask_eq_exp_minus_1)
  then have "x AND 0xf = take_bit 4 x" "y AND 0x1fff = take_bit 13 y"
    by (simp_all only: take_bit_eq_mask)
  then show "x < 16 \<Longrightarrow> x AND 0xf = x" "y < 0x2000 \<Longrightarrow> y AND 0x1fff = y"
    by (simp_all add: word_unat_eq_iff take_bit_eq_mod unat_mod word_less_nat_alt)
qed

lemma ipv4_first_byte:
  assumes "(x :: u8) < 16"
  shows "drop_bit 4 x = 0" "(64 OR x) AND 0xf = x"
proof -
  show "drop_bit 4 x = 0"
    using assms by (simp add: drop_bit_eq_div word_unat_eq_iff unat_div word_less_nat_alt)
  have "x AND 0xf = x"
    using assms by simp
  then show "(64 OR x) AND 0xf = x"
    by (simp add: bit.conj_disj_distrib2)
qed

lemma ipv4_fo_flags:
  assumes "ip_offset h < 0x2000"
  shows "(ipv4_fo_val h AND 0x4000 \<noteq> 0) = ip_df h" "(ipv4_fo_val h AND 0x2000 \<noteq> 0) = ip_mf h"
    "ipv4_fo_val h AND 0x1fff = ip_offset h"
proof -
  have m: "ip_offset h AND 0x1fff = ip_offset h"
    using assms by simp
  have "ip_offset h AND 0x4000 = (ip_offset h AND 0x1fff) AND 0x4000"
    "ip_offset h AND 0x2000 = (ip_offset h AND 0x1fff) AND 0x2000"
    using m by simp_all
  then have "ip_offset h AND 0x4000 = 0" "ip_offset h AND 0x2000 = 0"
    by (simp_all add: and.assoc)
  then show "(ipv4_fo_val h AND 0x4000 \<noteq> 0) = ip_df h" "(ipv4_fo_val h AND 0x2000 \<noteq> 0) = ip_mf h"
    "ipv4_fo_val h AND 0x1fff = ip_offset h"
    using m by (auto simp: ipv4_fo_val_def bit.conj_disj_distrib2)
qed

text \<open>
  Parsing a printed header: the fields come back, the checks on the sizes pass when the length
  field is right, and the verdict is the checksum's.
\<close>

lemma ipv4_read_fields_bytes:
  assumes "ipv4_header_ok h"
  shows "ipv4_read_fields (net_parser_new (ipv4_fixed_bytes h @ rest)) = (h, \<lparr>np_buffer = rest, np_error = NoError\<rparr>)"
  using assms by (simp add: ipv4_read_fields_def ipv4_fixed_bytes_def net_parser_new_def field_dec_enc
      ipv4_header_ok_def ipv4_first_byte ipv4_fo_flags)

lemma ipv4_header_parse_bytes:
  assumes ok: "ipv4_header_ok h" and pad: "length pad = 4 * unat (ip_hlen h) - 20"
    and len: "4 * unat (ip_hlen h) + length rest = unat (ip_len h)"
  shows "ipv4_header_parse h0 (net_parser_new (ipv4_fixed_bytes h @ pad @ rest)) =
    (if ck_value (ck_add (ipv4_fixed_bytes h @ pad) (internet_checksum_new 0)) = 0 then NoError else BadChecksum,
     h, \<lparr>np_buffer = rest, np_error = NoError\<rparr>)"
proof -
  have hl: "5 \<le> unat (ip_hlen h)" "ip_ver h = 4" "\<not> ip_hlen h < 5"
    using ok by (simp_all add: ipv4_header_ok_def word_le_nat_alt not_less)
  let ?b = "ipv4_fixed_bytes h @ pad @ rest"
  have size: "length ?b = unat (ip_len h)" "\<not> length ?b < 20" "\<not> length ?b < 4 * unat (ip_hlen h)"
    using hl(1) pad len by auto
  have cut: "take (4 * unat (ip_hlen h)) ?b = ipv4_fixed_bytes h @ pad"
    using hl(1) pad by simp
  have skip: "np_remove_prefix (unat (ip_hlen h) * 4 - 20) \<lparr>np_buffer = pad @ rest, np_error = NoError\<rparr> =
      \<lparr>np_buffer = rest, np_error = NoError\<rparr>"
    using np_remove_prefix_ok [of pad rest] pad by (simp add: mult.commute)
  have buf: "np_buffer (net_parser_new ?b) = ?b"
    by (simp add: net_parser_new_def)
  show ?thesis
    using size hl unfolding ipv4_header_parse_def Let_def buf cut ipv4_read_fields_bytes [OF ok] IPv4Header_LENGTH_def
    by (simp add: skip np_has_error_def cut del: length_append take_append)
qed

lemma ipv4_payload_length_eq:
  assumes "4 * unat (ip_hlen h) + n = unat (ip_len h)" "ip_hlen h < 16"
  shows "unat (ipv4_payload_length h) = n"
proof -
  have "unat (ip_hlen h) < 16"
    using assms(2) by (simp add: word_less_nat_alt)
  then have "unat (4 * ucast (ip_hlen h) :: u16) = 4 * unat (ip_hlen h)"
    by (simp add: unat_word_ariths unat_ucast_up)
  moreover from this have "4 * ucast (ip_hlen h) \<le> ip_len h"
    using assms(1) by (simp add: word_le_nat_alt)
  ultimately show ?thesis
    using assms(1) by (simp add: ipv4_payload_length_def unat_sub)
qed

lemma ipv4_fixed_cksum:
  "ipv4_fixed_bytes (h\<lparr>ip_cksum := v\<rparr>) = take 10 (ipv4_fixed_bytes h) @ u16_bytes v @ drop 12 (ipv4_fixed_bytes h)"
  by (simp add: ipv4_fixed_bytes_def ipv4_fo_val_def)

lemma ipv4_header_ok_cksum [simp]: "ipv4_header_ok (h\<lparr>ip_cksum := v\<rparr>) = ipv4_header_ok h"
  by (simp add: ipv4_header_ok_def)

lemma ipv4_datagram_parse_bytes:
  assumes "ipv4_header_ok h" "4 * unat (ip_hlen h) + length body = unat (ip_len h)"
    and "ipv4_header_serialize h = Inr bytes"
  shows "ipv4_datagram_parse (bytes @ body) dg = (NoError, dg\<lparr>dg_header := h, dg_payload := body\<rparr>)"
proof -
  have "unat (ipv4_payload_length h) = length body"
    using assms(1) by (intro ipv4_payload_length_eq [OF assms(2)]) (simp add: ipv4_header_ok_def)
  moreover have "bytes = ipv4_fixed_bytes h @ replicate (4 * unat (ip_hlen h) - 20) 0"
    using assms(3) by (simp add: ipv4_header_serialize_eq [OF assms(1)])
  ultimately show ?thesis
    using ipv4_header_parse_bytes [OF assms(1) _ assms(2), of "replicate (4 * unat (ip_hlen h) - 20) 0"]
    by (simp add: ipv4_datagram_parse_def Let_def)
qed

lemma ipv4_datagram_roundtrip_aux:
  assumes ok: "ipv4_header_ok (dg_header dg)"
    and len: "4 * unat (ip_hlen (dg_header dg)) + length (dg_payload dg) = unat (ip_len (dg_header dg))"
  shows "\<exists>bytes v p. ipv4_datagram_serialize dg = Inr bytes \<and>
    ipv4_header_parse h0 (net_parser_new bytes) = (NoError, (dg_header dg)\<lparr>ip_cksum := v\<rparr>, p) \<and>
    ipv4_datagram_parse bytes dg0 =
      (NoError, dg0\<lparr>dg_header := (dg_header dg)\<lparr>ip_cksum := v\<rparr>, dg_payload := dg_payload dg\<rparr>)"
proof -
  let ?h = "dg_header dg" and ?pad = "replicate (4 * unat (ip_hlen (dg_header dg)) - 20) (0 :: byte)"
  let ?pre = "take 10 (ipv4_fixed_bytes ?h)" and ?post = "drop 12 (ipv4_fixed_bytes ?h) @ ?pad"
  define v where "v = ck_value (ck_add (?pre @ [0, 0] @ ?post) (internet_checksum_new 0))"
  let ?hv = "?h\<lparr>ip_cksum := v\<rparr>" and ?out = "?pre @ u16_bytes v @ ?post"
  have hl: "unat (ip_hlen ?h) < 16" "ip_hlen ?h < 16"
    using ok by (simp_all add: ipv4_header_ok_def word_less_nat_alt)
  have "u16_bytes 0 = [0, 0]"
    by (simp add: u16_bytes_def)
  then have hser: "ipv4_header_serialize (?h\<lparr>ip_cksum := 0\<rparr>) = Inr (?pre @ [0, 0] @ ?post)"
    "ipv4_header_serialize ?hv = Inr ?out"
    using ok by (simp_all add: ipv4_header_serialize_eq ipv4_fixed_cksum)
  have ser: "ipv4_datagram_serialize dg = Inr (?out @ dg_payload dg)"
    using ipv4_payload_length_eq [OF len hl(2)] hser v_def by (simp add: ipv4_datagram_serialize_def Let_def)
  have "unat (0 :: u32) + be_sum False (?pre @ [0, 0] @ ?post) + 65535 < 2 ^ 32"
    using be_sum_bound [of False "?pre @ [0, 0] @ ?post"] hl(1) by simp
  then have "ck_value (ck_add ?out (internet_checksum_new 0)) = 0"
    by (intro checksum_verifies_aux [OF _ _ v_def]) simp_all
  then have "\<exists>p. ipv4_header_parse h0 (net_parser_new (?out @ dg_payload dg)) = (NoError, ?hv, p)"
    using ipv4_header_parse_bytes [of ?hv ?pad "dg_payload dg" h0] ok len by (simp add: ipv4_fixed_cksum)
  moreover have "ipv4_datagram_parse (?out @ dg_payload dg) dg0 =
      (NoError, dg0\<lparr>dg_header := ?hv, dg_payload := dg_payload dg\<rparr>)"
    using ipv4_datagram_parse_bytes [of ?hv "dg_payload dg" ?out dg0] ok len hser(2) by simp
  ultimately show ?thesis
    using ser by blast
qed

section \<open>Properties\<close>

text \<open>
  C37. A datagram survives the wire: a header the format can express whose length field counts
  the header and the payload is serialized, the header parser accepts the bytes with a
  checksum that verifies, and the datagram parser gives back every field and the payload; only
  the checksum field has been filled in.
\<close>

theorem ipv4_datagram_roundtrip:
  assumes ok: "ipv4_header_ok (dg_header dg)"
    and len: "4 * unat (ip_hlen (dg_header dg)) + length (dg_payload dg) = unat (ip_len (dg_header dg))"
  shows "\<exists>bytes v p. ipv4_datagram_serialize dg = Inr bytes \<and>
    ipv4_header_parse h0 (net_parser_new bytes) = (NoError, (dg_header dg)\<lparr>ip_cksum := v\<rparr>, p) \<and>
    ipv4_datagram_parse bytes dg0 =
      (NoError, dg0\<lparr>dg_header := (dg_header dg)\<lparr>ip_cksum := v\<rparr>, dg_payload := dg_payload dg\<rparr>)"
  by (rule ipv4_datagram_roundtrip_aux [OF assms])

theorem ipv4_datagram_roundtrip_witness:
  "\<exists>bytes v. ipv4_datagram_serialize \<lparr>dg_header = ipv4_header_new\<lparr>ip_len := 23, ip_src := 9\<rparr>, dg_payload = [1, 2, 3]\<rparr> =
       Inr bytes \<and>
     ipv4_datagram_parse bytes ipv4_datagram_new = (NoError,
       \<lparr>dg_header = ipv4_header_new\<lparr>ip_len := 23, ip_src := 9, ip_cksum := v\<rparr>, dg_payload = [1, 2, 3]\<rparr>)"
  using ipv4_datagram_roundtrip [of "\<lparr>dg_header = ipv4_header_new\<lparr>ip_len := 23, ip_src := 9\<rparr>, dg_payload = [1, 2, 3]\<rparr>"
      ipv4_header_new ipv4_datagram_new]
  by (auto simp: ipv4_header_ok_def ipv4_header_new_def IPv4Header_LENGTH_def ipv4_datagram_new_def)

text \<open>
  C38. The header checksum does not protect a datagram: the datagram parser drops the verdict
  of the header parser, so it accepts every datagram with consistent lengths whatever its
  checksum field holds, also where the header parser itself answers that the checksum is bad.
\<close>

theorem ipv4_checksum_ignored:
  assumes "ipv4_header_ok h" "4 * unat (ip_hlen h) + length body = unat (ip_len h)"
    and "ipv4_header_serialize h = Inr bytes"
  shows "ipv4_datagram_parse (bytes @ body) dg = (NoError, dg\<lparr>dg_header := h, dg_payload := body\<rparr>) \<and>
    fst (ipv4_header_parse h0 (net_parser_new (bytes @ body))) =
      (if ck_value (ck_add bytes (internet_checksum_new 0)) = 0 then NoError else BadChecksum)"
  using ipv4_datagram_parse_bytes [OF assms] assms
    ipv4_header_parse_bytes [OF assms(1) _ assms(2), of "replicate (4 * unat (ip_hlen h) - 20) 0" h0]
  by (auto simp: ipv4_header_serialize_eq)

theorem ipv4_checksum_ignored_witness:
  "let h = ipv4_header_new\<lparr>ip_len := 20\<rparr>
   in \<exists>bytes. ipv4_header_serialize h = Inr bytes \<and>
      fst (ipv4_datagram_parse bytes ipv4_datagram_new) = NoError \<and>
      fst (ipv4_header_parse ipv4_header_new (net_parser_new bytes)) = BadChecksum"
proof -
  define h where "h = ipv4_header_new\<lparr>ip_len := 20\<rparr>"
  define bytes :: "byte list" where
    "bytes = [0x45, 0, 0, 20, 0, 0, 0x40, 0, 128, 6, 0, 0, 0, 0, 0, 0, 0, 0, 0, 0]"
  have "ipv4_header_serialize h = Inr bytes" "ck_value (ck_add bytes (internet_checksum_new 0)) \<noteq> 0"
    "ipv4_header_ok h" "4 * unat (ip_hlen h) + length ([] :: byte list) = unat (ip_len h)"
    unfolding h_def bytes_def by code_simp+
  then show ?thesis
    using ipv4_checksum_ignored [of h "[]" bytes ipv4_datagram_new ipv4_header_new]
    unfolding Let_def h_def by auto
qed

end
