(* ===== verification/Ethernet.thy ===== *)
theory Ethernet
  imports IPv4
begin

text \<open>
  Ethernet frames and ARP messages: \<open>libsponge/tcp_helpers/ethernet_header.hh\<close>,
  \<open>ethernet_header.cc\<close>, \<open>ethernet_frame.hh\<close>, \<open>ethernet_frame.cc\<close>, \<open>arp_message.hh\<close> and
  \<open>arp_message.cc\<close>.
\<close>

section \<open>Addresses\<close>

text \<open>An Ethernet address is an array of six bytes; the well-formedness predicates ask for the six.\<close>

type_synonym ethernet_address = "byte list"

definition ETHERNET_BROADCAST :: ethernet_address where
  "ETHERNET_BROADCAST = replicate 6 0xff"

text \<open>The loops that read and write the bytes of an address.\<close>

fun np_bytes :: "nat \<Rightarrow> net_parser \<Rightarrow> byte list \<times> net_parser" where
  "np_bytes 0 p = ([], p)"
| "np_bytes (Suc n) p = (let (b, p) = np_u8 p; (bs, p) = np_bytes n p in (b # bs, p))"

definition unparse_bytes_loop :: "byte list \<Rightarrow> byte list \<Rightarrow> byte list" where
  "unparse_bytes_loop ret bs = foldl unparse_u8 ret bs"

fun ethernet_address_text :: "ethernet_address \<Rightarrow> string" where
  "ethernet_address_text [] = ''''"
| "ethernet_address_text [b] = pad_zero 2 (hexa (unat b))"
| "ethernet_address_text (b # bs) = pad_zero 2 (hexa (unat b)) @ '':'' @ ethernet_address_text bs"

lemma np_bytes_print [simp]:
  "np_bytes (length bs) \<lparr>np_buffer = bs @ rest, np_error = NoError\<rparr> = (bs, \<lparr>np_buffer = rest, np_error = NoError\<rparr>)"
proof (induction bs)
  case (Cons b bs)
  then show ?case
    using f8.dec_enc [of b "bs @ rest"] by (simp add: u8_bytes_def)
qed simp

lemma unparse_bytes_loop_eq [simp]: "unparse_bytes_loop ret bs = ret @ bs"
  by (induction bs arbitrary: ret) (simp_all add: unparse_bytes_loop_def u8_bytes_def)

section \<open>EthernetHeader\<close>

definition EthernetHeader_LENGTH :: nat where "EthernetHeader_LENGTH = 14"

definition TYPE_IPv4 :: u16 where "TYPE_IPv4 = 0x800"

definition TYPE_ARP :: u16 where "TYPE_ARP = 0x806"

record ethernet_header =
  eth_dst :: ethernet_address
  eth_src :: ethernet_address
  eth_type :: u16

definition ethernet_header_new :: ethernet_header where
  "ethernet_header_new = \<lparr>eth_dst = replicate 6 0, eth_src = replicate 6 0, eth_type = 0\<rparr>"

definition ethernet_header_parse ::
  "ethernet_header \<Rightarrow> net_parser \<Rightarrow> parse_result \<times> ethernet_header \<times> net_parser" where
  "ethernet_header_parse h0 p =
     (if length (np_buffer p) < EthernetHeader_LENGTH then (PacketTooShort, h0, p)
      else let (dst, p) = np_bytes 6 p;
               (src, p) = np_bytes 6 p;
               (ty, p) = np_u16 p
           in (np_error p, \<lparr>eth_dst = dst, eth_src = src, eth_type = ty\<rparr>, p))"

definition ethernet_header_serialize :: "ethernet_header \<Rightarrow> byte list" where
  "ethernet_header_serialize h =
     (let ret = [];
          ret = unparse_bytes_loop ret (eth_dst h);
          ret = unparse_bytes_loop ret (eth_src h)
      in unparse_u16 ret (eth_type h))"

definition ethernet_header_to_string :: "ethernet_header \<Rightarrow> string" where
  "ethernet_header_to_string h =
     ''dst='' @ ethernet_address_text (eth_dst h) @ '', src='' @ ethernet_address_text (eth_src h) @ '', type='' @
     (if eth_type h = TYPE_IPv4 then ''IPv4''
      else if eth_type h = TYPE_ARP then ''ARP''
      else ''[unknown type '' @ hexa (unat (eth_type h)) @ ''!]'')"

section \<open>EthernetFrame\<close>

record ethernet_frame =
  fr_header :: ethernet_header
  fr_payload :: "byte list"

definition ethernet_frame_new :: ethernet_frame where
  "ethernet_frame_new = \<lparr>fr_header = ethernet_header_new, fr_payload = []\<rparr>"

text \<open>The result of the header parser is dropped.\<close>

definition ethernet_frame_parse :: "byte list \<Rightarrow> ethernet_frame \<Rightarrow> parse_result \<times> ethernet_frame" where
  "ethernet_frame_parse buffer fr =
     (let (_, h, p) = ethernet_header_parse (fr_header fr) (net_parser_new buffer)
      in (np_error p, fr\<lparr>fr_header := h, fr_payload := np_buffer p\<rparr>))"

definition ethernet_frame_serialize :: "ethernet_frame \<Rightarrow> byte list" where
  "ethernet_frame_serialize fr = ethernet_header_serialize (fr_header fr) @ fr_payload fr"

section \<open>ARPMessage\<close>

definition ARPMessage_LENGTH :: nat where "ARPMessage_LENGTH = 28"

definition TYPE_ETHERNET :: u16 where "TYPE_ETHERNET = 1"

definition OPCODE_REQUEST :: u16 where "OPCODE_REQUEST = 1"

definition OPCODE_REPLY :: u16 where "OPCODE_REPLY = 2"

record arp_message =
  arp_hardware_type :: u16
  arp_protocol_type :: u16
  arp_hardware_address_size :: u8
  arp_protocol_address_size :: u8
  arp_opcode :: u16
  arp_sender_ethernet_address :: ethernet_address
  arp_sender_ip_address :: u32
  arp_target_ethernet_address :: ethernet_address
  arp_target_ip_address :: u32

definition arp_message_new :: arp_message where
  "arp_message_new = \<lparr>arp_hardware_type = TYPE_ETHERNET, arp_protocol_type = TYPE_IPv4,
     arp_hardware_address_size = 6, arp_protocol_address_size = 4, arp_opcode = 0,
     arp_sender_ethernet_address = replicate 6 0, arp_sender_ip_address = 0,
     arp_target_ethernet_address = replicate 6 0, arp_target_ip_address = 0\<rparr>"

definition arp_supported :: "arp_message \<Rightarrow> bool" where
  "arp_supported m \<longleftrightarrow> arp_hardware_type m = TYPE_ETHERNET \<and> arp_protocol_type m = TYPE_IPv4 \<and>
     arp_hardware_address_size m = 6 \<and> arp_protocol_address_size m = 4 \<and>
     (arp_opcode m = OPCODE_REQUEST \<or> arp_opcode m = OPCODE_REPLY)"

definition arp_parse :: "byte list \<Rightarrow> arp_message \<Rightarrow> parse_result \<times> arp_message" where
  "arp_parse buffer m =
     (let p = net_parser_new buffer
      in if length (np_buffer p) < ARPMessage_LENGTH then (PacketTooShort, m)
         else let (ht, p) = np_u16 p;
                  (pt, p) = np_u16 p;
                  (hs, p) = np_u8 p;
                  (ps, p) = np_u8 p;
                  (oc, p) = np_u16 p;
                  m = m\<lparr>arp_hardware_type := ht, arp_protocol_type := pt, arp_hardware_address_size := hs,
                        arp_protocol_address_size := ps, arp_opcode := oc\<rparr>
              in if \<not> arp_supported m then (Unsupported, m)
                 else let (se, p) = np_bytes 6 p;
                          (si, p) = np_u32 p;
                          (te, p) = np_bytes 6 p;
                          (ti, p) = np_u32 p
                      in (np_error p, m\<lparr>arp_sender_ethernet_address := se, arp_sender_ip_address := si,
                            arp_target_ethernet_address := te, arp_target_ip_address := ti\<rparr>))"

definition arp_serialize :: "arp_message \<Rightarrow> byte list result" where
  "arp_serialize m =
     (if \<not> arp_supported m
      then Inl (Runtime_Error (''ARPMessage::serialize(): unsupported field combination '' @
             ''(must be Ethernet/IP, and request or reply)''))
      else let ret = [];
               ret = unparse_u16 ret (arp_hardware_type m);
               ret = unparse_u16 ret (arp_protocol_type m);
               ret = unparse_u8 ret (arp_hardware_address_size m);
               ret = unparse_u8 ret (arp_protocol_address_size m);
               ret = unparse_u16 ret (arp_opcode m);
               ret = unparse_bytes_loop ret (arp_sender_ethernet_address m);
               ret = unparse_u32 ret (arp_sender_ip_address m);
               ret = unparse_bytes_loop ret (arp_target_ethernet_address m);
               ret = unparse_u32 ret (arp_target_ip_address m)
           in Inr ret)"

definition arp_to_string :: "arp_message \<Rightarrow> string" where
  "arp_to_string m =
     (let opcode_str = ''(unknown type)'';
          opcode_str = (if arp_opcode m = OPCODE_REQUEST then ''REQUEST'' else opcode_str);
          opcode_str = (if arp_opcode m = OPCODE_REPLY then ''REPLY'' else opcode_str)
      in ''opcode='' @ opcode_str @ '', sender='' @ ethernet_address_text (arp_sender_ethernet_address m) @ ''/'' @
         inet_ntoa (arp_sender_ip_address m) @ '', target='' @
         ethernet_address_text (arp_target_ethernet_address m) @ ''/'' @ inet_ntoa (arp_target_ip_address m))"

lemmas eth_defs [net_defs] = EthernetHeader_LENGTH_def ARPMessage_LENGTH_def TYPE_ETHERNET_def TYPE_IPv4_def
  TYPE_ARP_def OPCODE_REQUEST_def OPCODE_REPLY_def

section \<open>Round trips\<close>

lemma np_bytes_six:
  "length bs = 6 \<Longrightarrow> np_bytes 6 \<lparr>np_buffer = bs @ rest, np_error = NoError\<rparr> = (bs, \<lparr>np_buffer = rest, np_error = NoError\<rparr>)"
  using np_bytes_print [of bs rest] by simp

lemma ethernet_header_bytes:
  assumes "length (eth_dst h) = 6" "length (eth_src h) = 6"
  shows "ethernet_header_parse h0 (net_parser_new (ethernet_header_serialize h @ rest)) =
    (NoError, h, \<lparr>np_buffer = rest, np_error = NoError\<rparr>)"
  using assms by (simp add: ethernet_header_parse_def ethernet_header_serialize_def net_parser_new_def
      EthernetHeader_LENGTH_def np_bytes_six field_dec_enc del: np_bytes.simps)

lemma ethernet_header_short:
  "length b < 14 \<Longrightarrow> ethernet_header_parse h (net_parser_new b) = (PacketTooShort, h, net_parser_new b)"
  by (simp add: ethernet_header_parse_def net_defs)

section \<open>Properties\<close>

text \<open>
  ARP messages survive the wire: exactly the supported messages (Ethernet and IPv4, request
  or reply) can be serialized, the bytes are 28 long, parsing them, with padding behind, gives
  back every field, and a message of any other kind makes the serializer throw.
\<close>

theorem arp_roundtrip:
  assumes "length (arp_sender_ethernet_address m) = 6" "length (arp_target_ethernet_address m) = 6"
  shows "if arp_supported m
    then \<exists>bytes. arp_serialize m = Inr bytes \<and> length bytes = 28 \<and> arp_parse (bytes @ padding) m0 = (NoError, m)
    else \<exists>e. arp_serialize m = Inl e"
proof (cases "arp_supported m")
  case True
  then have "arp_supported (m0\<lparr>arp_hardware_type := arp_hardware_type m, arp_protocol_type := arp_protocol_type m,
      arp_hardware_address_size := arp_hardware_address_size m,
      arp_protocol_address_size := arp_protocol_address_size m, arp_opcode := arp_opcode m\<rparr>)"
    by (simp add: arp_supported_def)
  then show ?thesis
    using True assms
    by (simp add: arp_serialize_def arp_parse_def net_parser_new_def ARPMessage_LENGTH_def np_bytes_six
        field_dec_enc Let_def del: np_bytes.simps)
next
  case False
  then show ?thesis
    by (simp add: arp_serialize_def)
qed

theorem arp_roundtrip_witness:
  "\<exists>bytes. arp_serialize (arp_message_new\<lparr>arp_opcode := OPCODE_REPLY, arp_sender_ip_address := 7\<rparr>) = Inr bytes \<and>
     arp_parse (bytes @ [0, 0]) arp_message_new =
       (NoError, arp_message_new\<lparr>arp_opcode := OPCODE_REPLY, arp_sender_ip_address := 7\<rparr>)"
  using arp_roundtrip [of "arp_message_new\<lparr>arp_opcode := OPCODE_REPLY, arp_sender_ip_address := 7\<rparr>" "[0, 0]" arp_message_new]
  by (auto simp: arp_message_new_def arp_supported_def)

text \<open>
  Frames: a serialized frame parses back to the same header and payload. But the frame
  parser drops the verdict of the header parser: a buffer shorter than an Ethernet header is
  accepted without error, its bytes become the payload, and the header keeps what it was.
\<close>

theorem ethernet_frame_parse_results:
  "(length (eth_dst (fr_header fr)) = 6 \<and> length (eth_src (fr_header fr)) = 6 \<longrightarrow>
      ethernet_frame_parse (ethernet_frame_serialize fr) fr0 = (NoError, fr)) \<and>
   (length b < 14 \<longrightarrow> ethernet_frame_parse b fr0 = (NoError, fr0\<lparr>fr_payload := b\<rparr>) \<and>
      fst (ethernet_header_parse (fr_header fr0) (net_parser_new b)) = PacketTooShort)"
  by (simp add: ethernet_frame_parse_def ethernet_frame_serialize_def ethernet_header_bytes ethernet_header_short)
    (simp add: net_parser_new_def)

theorem ethernet_frame_parse_results_witness:
  "ethernet_frame_parse (ethernet_frame_serialize ethernet_frame_new) ethernet_frame_new = (NoError, ethernet_frame_new) \<and>
   fst (ethernet_frame_parse [1, 2, 3] ethernet_frame_new) = NoError"
  using ethernet_frame_parse_results [of ethernet_frame_new ethernet_frame_new "[1, 2, 3]"]
  by (simp add: ethernet_frame_new_def ethernet_header_new_def)

end
