(* ===== verification/Address.thy ===== *)
theory Address
  imports Net_Parser Text_Output
begin

text \<open>
  Socket addresses: \<open>libsponge/util/address.hh\<close> and \<open>address.cc\<close>. An address is the bytes of a
  \<open>sockaddr_storage\<close> and a size. The resolver functions \<open>getaddrinfo\<close> and \<open>getnameinfo\<close> are
  arguments. The layout of \<open>sockaddr_in\<close> is the one of Linux on a little-endian machine: the
  family in host order, then port and address in network order, then eight bytes of padding.
\<close>

section \<open>State and constructors\<close>

record address =
  ad_size :: nat
  ad_storage :: "byte list"

definition sizeof_sockaddr_storage :: nat where "sizeof_sockaddr_storage = 128"

definition sizeof_sockaddr_in :: nat where "sizeof_sockaddr_in = 16"

definition AF_INET :: "byte list" where "AF_INET = [2, 0]"

text \<open>The first \<open>sz\<close> bytes at \<open>addr\<close> are copied over zeroed storage.\<close>

definition address_of_raw :: "byte list \<Rightarrow> nat \<Rightarrow> address result" where
  "address_of_raw addr sz =
     (if sz > sizeof_sockaddr_storage then Inl (Runtime_Error ''invalid sockaddr size'')
      else Inr \<lparr>ad_size = sz, ad_storage = take sz addr @ replicate (sizeof_sockaddr_storage - sz) 0\<rparr>)"

record addrinfo_hints =
  ai_flags :: nat
  ai_family :: "byte list"

definition AI_NUMERICHOST :: nat where "AI_NUMERICHOST = 0x4"
definition AI_ALL :: nat where "AI_ALL = 0x10"
definition AI_NUMERICSERV :: nat where "AI_NUMERICSERV = 0x400"

definition make_hints :: "nat \<Rightarrow> byte list \<Rightarrow> addrinfo_hints" where
  "make_hints flags family = \<lparr>ai_flags = flags, ai_family = family\<rparr>"

text \<open>The resolver answers with an error code or a list of addresses with their lengths.\<close>

type_synonym getaddrinfo = "string \<Rightarrow> string \<Rightarrow> addrinfo_hints \<Rightarrow> nat + (byte list \<times> nat) list"
type_synonym getnameinfo = "byte list \<Rightarrow> nat + string \<times> string"

definition address_resolve :: "getaddrinfo \<Rightarrow> string \<Rightarrow> string \<Rightarrow> addrinfo_hints \<Rightarrow> address result" where
  "address_resolve gai node service hints =
     (case gai node service hints of
        Inl gai_ret \<Rightarrow> Inl (Gai_Error (''getaddrinfo('' @ node @ '', '' @ service @ '')'') gai_ret)
      | Inr [] \<Rightarrow> Inl (Runtime_Error ''getaddrinfo returned successfully but with no results'')
      | Inr ((addr, len) # _) \<Rightarrow> address_of_raw addr len)"

definition address_of_host :: "getaddrinfo \<Rightarrow> string \<Rightarrow> string \<Rightarrow> address result" where
  "address_of_host gai hostname service = address_resolve gai hostname service (make_hints AI_ALL AF_INET)"

text \<open>The two flags are different bits, so their sum is their disjunction.\<close>

definition address_of_ip :: "getaddrinfo \<Rightarrow> string \<Rightarrow> u16 \<Rightarrow> address result" where
  "address_of_ip gai ip port =
     address_resolve gai ip (dec (unat port)) (make_hints (AI_NUMERICHOST + AI_NUMERICSERV) AF_INET)"

section \<open>Accessors\<close>

definition ad_raw :: "address \<Rightarrow> byte list" where
  "ad_raw a = take (ad_size a) (ad_storage a)"

definition ip_port :: "getnameinfo \<Rightarrow> address \<Rightarrow> (string \<times> u16) result" where
  "ip_port gni a =
     (case gni (ad_raw a) of
        Inl gni_ret \<Rightarrow> Inl (Gai_Error ''getnameinfo'' gni_ret)
      | Inr (ip, port) \<Rightarrow> (case stoi port of Inl e \<Rightarrow> Inl e | Inr n \<Rightarrow> Inr (ip, of_nat n)))"

definition address_to_string :: "getnameinfo \<Rightarrow> address \<Rightarrow> string result" where
  "address_to_string gni a =
     (case ip_port gni a of Inl e \<Rightarrow> Inl e | Inr (ip, port) \<Rightarrow> Inr (ip @ '':'' @ dec (unat port)))"

definition address_ip :: "getnameinfo \<Rightarrow> address \<Rightarrow> string result" where
  "address_ip gni a = (case ip_port gni a of Inl e \<Rightarrow> Inl e | Inr (ip, port) \<Rightarrow> Inr ip)"

definition address_port :: "getnameinfo \<Rightarrow> address \<Rightarrow> u16 result" where
  "address_port gni a = (case ip_port gni a of Inl e \<Rightarrow> Inl e | Inr (ip, port) \<Rightarrow> Inr port)"

definition ipv4_numeric :: "address \<Rightarrow> u32 result" where
  "ipv4_numeric a =
     (if take 2 (ad_storage a) \<noteq> AF_INET \<or> ad_size a \<noteq> sizeof_sockaddr_in
      then Inl (Runtime_Error ''ipv4_numeric called on non-IPV4 address'')
      else Inr (fst (np_u32 (net_parser_new (piece 4 8 (ad_storage a))))))"

definition from_ipv4_numeric :: "u32 \<Rightarrow> address result" where
  "from_ipv4_numeric ip_address =
     address_of_raw (AF_INET @ [0, 0] @ u32_bytes ip_address @ replicate 8 0) sizeof_sockaddr_in"

definition address_eq :: "address \<Rightarrow> address \<Rightarrow> bool" where
  "address_eq a other \<longleftrightarrow> ad_size a = ad_size other \<and>
     take (ad_size a) (ad_storage a) = take (ad_size a) (ad_storage other)"

lemmas address_defs = sizeof_sockaddr_storage_def sizeof_sockaddr_in_def AF_INET_def address_of_raw_def

section \<open>IPv4 addresses\<close>

text \<open>The address with a given numeric IP address and port, as the kernel and the resolver lay it out.\<close>

definition inet_raw :: "u32 \<Rightarrow> u16 \<Rightarrow> byte list" where
  "inet_raw ip port = AF_INET @ u16_bytes port @ u32_bytes ip @ replicate 8 0"

definition inet_address :: "u32 \<Rightarrow> u16 \<Rightarrow> address" where
  "inet_address ip port = \<lparr>ad_size = 16, ad_storage = inet_raw ip port @ replicate 112 0\<rparr>"

lemma length_inet_raw [simp]: "length (inet_raw ip port) = 16"
  by (simp add: inet_raw_def AF_INET_def)

lemma inet_address_raw: "address_of_raw (inet_raw ip port) 16 = Inr (inet_address ip port)"
  by (simp add: address_defs inet_address_def)

lemma from_ipv4_numeric_eq: "from_ipv4_numeric ip = Inr (inet_address ip 0)"
  by (simp add: from_ipv4_numeric_def address_defs inet_address_def inet_raw_def u16_bytes_def)

lemma ipv4_numeric_inet [simp]: "ipv4_numeric (inet_address ip port) = Inr ip"
proof -
  have "piece 4 8 (ad_storage (inet_address ip port)) = u32_bytes ip @ []"
    by (simp add: inet_address_def inet_raw_def piece_def AF_INET_def)
  then show ?thesis
    using f32.dec_enc [of ip "[]"]
    by (simp add: ipv4_numeric_def net_parser_new_def)
      (simp add: inet_address_def inet_raw_def AF_INET_def sizeof_sockaddr_in_def)
qed

lemma address_eq_inet [simp]: "address_eq (inet_address ip port) (inet_address ip' port') \<longleftrightarrow> ip = ip' \<and> port = port'"
proof -
  have "inet_raw ip port = inet_raw ip' port' \<longleftrightarrow> ip = ip' \<and> port = port'"
    using f16.enc_inject [of port port'] f32.enc_inject [of ip ip']
    by (auto simp: inet_raw_def)
  then show ?thesis
    by (simp add: address_eq_def inet_address_def)
qed

text \<open>
  What is documented of the resolver with numeric flags: it answers for a dotted quad with the
  address it spells, and it prints an address as its dotted quad and its port in decimal.
\<close>

definition numeric_resolver :: "getaddrinfo \<Rightarrow> bool" where
  "numeric_resolver gai \<longleftrightarrow> (\<forall>ip port. \<exists>more.
     gai (inet_ntoa ip) (dec (unat port)) (make_hints (AI_NUMERICHOST + AI_NUMERICSERV) AF_INET) =
       Inr ((inet_raw ip port, 16) # more))"

definition numeric_namer :: "getnameinfo \<Rightarrow> bool" where
  "numeric_namer gni \<longleftrightarrow> (\<forall>ip port. gni (inet_raw ip port) = Inr (inet_ntoa ip, dec (unat port)))"

lemma address_of_ip_quad:
  "numeric_resolver gai \<Longrightarrow> address_of_ip gai (inet_ntoa ip) port = Inr (inet_address ip port)"
  using inet_address_raw by (auto simp: numeric_resolver_def address_of_ip_def address_resolve_def
      dest!: spec [of _ ip] spec [of _ port])

lemma ip_port_inet:
  assumes "numeric_namer gni"
  shows "ip_port gni (inet_address ip port) = Inr (inet_ntoa ip, port)"
proof -
  have "unat port < 2 ^ 31"
    using unat_less_2pow [of port] by simp
  moreover have "ad_raw (inet_address ip port) = inet_raw ip port"
    by (simp add: ad_raw_def inet_address_def)
  ultimately show ?thesis
    using assms by (simp add: ip_port_def numeric_namer_def)
qed

end
