(* ===== verification/TCP_Over_IP.thy ===== *)
theory TCP_Over_IP
  imports Ethernet Address
begin

text \<open>
  The adapters that carry TCP segments in datagrams: \<open>FdAdapterConfig\<close> of
  \<open>libsponge/tcp_helpers/tcp_config.hh\<close>, \<open>fd_adapter.hh\<close>, \<open>fd_adapter.cc\<close>,
  \<open>lossy_fd_adapter.hh\<close>, \<open>tcp_over_ip.hh\<close>, \<open>tcp_over_ip.cc\<close>, \<open>tuntap_adapter.hh\<close> and
  \<open>tuntap_adapter.cc\<close>.

  The addresses an adapter holds are IPv4 addresses (the resolver is asked for \<open>AF_INET\<close>), so
  they are modelled by their numeric address and port; \<open>Address\<close> shows that \<open>ipv4_numeric\<close>,
  \<open>port\<close> and \<open>==\<close> compute these on such addresses and that an address built from
  \<open>inet_ntoa(ip)\<close> and a port is the one with these two. What the socket or device delivers is an
  argument of a read, and what is written to it is part of the result.
\<close>

section \<open>Configuration\<close>

record endpoint =
  ep_ip :: u32
  ep_port :: u16

definition endpoint_address :: "endpoint \<Rightarrow> address" where
  "endpoint_address e = inet_address (ep_ip e) (ep_port e)"

record fd_adapter_config =
  ac_source :: endpoint
  ac_destination :: endpoint
  ac_loss_rate_dn :: u16
  ac_loss_rate_up :: u16

definition fd_adapter_config_new :: fd_adapter_config where
  "fd_adapter_config_new = \<lparr>ac_source = \<lparr>ep_ip = 0, ep_port = 0\<rparr>, ac_destination = \<lparr>ep_ip = 0, ep_port = 0\<rparr>,
     ac_loss_rate_dn = 0, ac_loss_rate_up = 0\<rparr>"

record fd_adapter =
  fa_cfg :: fd_adapter_config
  fa_listen :: bool

definition fd_adapter_new :: fd_adapter where
  "fd_adapter_new = \<lparr>fa_cfg = fd_adapter_config_new, fa_listen = False\<rparr>"

definition set_listening :: "bool \<Rightarrow> fd_adapter \<Rightarrow> fd_adapter" where
  "set_listening l a = a\<lparr>fa_listen := l\<rparr>"

definition listening :: "fd_adapter \<Rightarrow> bool" where
  "listening a = fa_listen a"

definition fa_tick :: "nat \<Rightarrow> fd_adapter \<Rightarrow> fd_adapter" where
  "fa_tick ms a = a"

lemma endpoint_address_props:
  "ipv4_numeric (endpoint_address e) = Inr (ep_ip e)"
  "address_eq (endpoint_address e) (endpoint_address e') \<longleftrightarrow> e = e'"
  "numeric_namer gni \<Longrightarrow> address_port gni (endpoint_address e) = Inr (ep_port e)"
  "numeric_resolver gai \<Longrightarrow> address_of_ip gai (inet_ntoa ip) port = Inr (endpoint_address \<lparr>ep_ip = ip, ep_port = port\<rparr>)"
  by (auto simp: endpoint_address_def address_port_def ip_port_inet address_of_ip_quad)

section \<open>TCP in IPv4\<close>

definition unwrap_tcp_in_ip :: "ipv4_datagram \<Rightarrow> fd_adapter \<Rightarrow> tcp_segment option \<times> fd_adapter" where
  "unwrap_tcp_in_ip ip_dgram a =
     (let cfg = fa_cfg a
      in if \<not> listening a \<and> ip_dst (dg_header ip_dgram) \<noteq> ep_ip (ac_source cfg) then (None, a)
         else if \<not> listening a \<and> ip_src (dg_header ip_dgram) \<noteq> ep_ip (ac_destination cfg) then (None, a)
         else if ip_proto (dg_header ip_dgram) \<noteq> PROTO_TCP then (None, a)
         else case tcp_segment_parse (dg_payload ip_dgram) (ipv4_pseudo_cksum (dg_header ip_dgram)) tcp_segment_new of
           (res, tcp_seg) \<Rightarrow>
             if res \<noteq> NoError then (None, a)
             else if dport (header tcp_seg) \<noteq> ep_port (ac_source cfg) then (None, a)
             else if listening a \<and> \<not> (syn (header tcp_seg) \<and> \<not> rst (header tcp_seg)) then (None, a)
             else let a = (if listening a
                           then set_listening False (a\<lparr>fa_cfg := cfg\<lparr>
                             ac_source := \<lparr>ep_ip = ip_dst (dg_header ip_dgram), ep_port = ep_port (ac_source cfg)\<rparr>,
                             ac_destination := \<lparr>ep_ip = ip_src (dg_header ip_dgram),
                               ep_port = sport (header tcp_seg)\<rparr>\<rparr>\<rparr>)
                           else a)
                  in if sport (header tcp_seg) \<noteq> ep_port (ac_destination (fa_cfg a)) then (None, a)
                     else (Some tcp_seg, a))"

text \<open>The ports are set in the caller's segment, which is part of the result.\<close>

definition wrap_tcp_in_ip :: "tcp_segment \<Rightarrow> fd_adapter \<Rightarrow> (tcp_segment \<times> ipv4_datagram) result" where
  "wrap_tcp_in_ip seg a =
     (let cfg = fa_cfg a;
          seg = seg\<lparr>header := (header seg)\<lparr>sport := ep_port (ac_source cfg), dport := ep_port (ac_destination cfg)\<rparr>\<rparr>;
          h = ipv4_header_new\<lparr>ip_src := ep_ip (ac_source cfg), ip_dst := ep_ip (ac_destination cfg)\<rparr>;
          h = h\<lparr>ip_len := of_nat (unat (ip_hlen h) * 4 + unat (doff (header seg)) * 4 + length (payload seg))\<rparr>
      in case tcp_segment_serialize (ipv4_pseudo_cksum h) seg of
           Inl e \<Rightarrow> Inl e
         | Inr bytes \<Rightarrow> Inr (seg, \<lparr>dg_header = h, dg_payload = bytes\<rparr>))"

section \<open>Devices\<close>

text \<open>The TUN device: a read gets the bytes of a packet, a write produces them.\<close>

definition tun_read :: "byte list \<Rightarrow> fd_adapter \<Rightarrow> tcp_segment option \<times> fd_adapter" where
  "tun_read packet a =
     (let (res, ip_dgram) = ipv4_datagram_parse packet ipv4_datagram_new
      in if res \<noteq> NoError then (None, a) else unwrap_tcp_in_ip ip_dgram a)"

definition tun_write :: "tcp_segment \<Rightarrow> fd_adapter \<Rightarrow> (tcp_segment \<times> byte list) result" where
  "tun_write seg a =
     (case wrap_tcp_in_ip seg a of
        Inl e \<Rightarrow> Inl e
      | Inr (seg, ip_dgram) \<Rightarrow>
          (case ipv4_datagram_serialize ip_dgram of Inl e \<Rightarrow> Inl e | Inr bytes \<Rightarrow> Inr (seg, bytes)))"

text \<open>The UDP socket: a read gets a datagram with its sender, a write names the destination.\<close>

definition udp_read :: "endpoint \<times> byte list \<Rightarrow> fd_adapter \<Rightarrow> tcp_segment option \<times> fd_adapter" where
  "udp_read datagram a =
     (let (source_address, body) = datagram
      in if \<not> listening a \<and> source_address \<noteq> ac_destination (fa_cfg a) then (None, a)
         else case tcp_segment_parse body 0 tcp_segment_new of
           (res, seg) \<Rightarrow>
             if res \<noteq> NoError then (None, a)
             else if listening a
                  then if syn (header seg) \<and> \<not> rst (header seg)
                       then (Some seg, set_listening False (a\<lparr>fa_cfg := (fa_cfg a)\<lparr>ac_destination := source_address\<rparr>\<rparr>))
                       else (None, a)
                  else (Some seg, a))"

definition udp_write :: "tcp_segment \<Rightarrow> fd_adapter \<Rightarrow> (tcp_segment \<times> endpoint \<times> byte list) result" where
  "udp_write seg a =
     (let cfg = fa_cfg a;
          seg = seg\<lparr>header := (header seg)\<lparr>sport := ep_port (ac_source cfg), dport := ep_port (ac_destination cfg)\<rparr>\<rparr>
      in case tcp_segment_serialize 0 seg of Inl e \<Rightarrow> Inl e | Inr bytes \<Rightarrow> Inr (seg, ac_destination cfg, bytes))"

section \<open>LossyFdAdapter\<close>

text \<open>
  The wrapper asks its random generator only when the loss rate is not 0; the number it would
  get is an argument. The underlying read happens, and may change the adapter, before its
  result is dropped.
\<close>

definition should_drop :: "bool \<Rightarrow> u32 \<Rightarrow> fd_adapter_config \<Rightarrow> bool" where
  "should_drop uplink rand cfg \<longleftrightarrow>
     (let loss = (if uplink then ac_loss_rate_up cfg else ac_loss_rate_dn cfg)
      in loss \<noteq> 0 \<and> (ucast rand :: u16) < loss)"

definition lossy_read :: "('d \<Rightarrow> fd_adapter \<Rightarrow> tcp_segment option \<times> fd_adapter) \<Rightarrow> u32 \<Rightarrow> 'd \<Rightarrow> fd_adapter \<Rightarrow>
    tcp_segment option \<times> fd_adapter" where
  "lossy_read rd rand datagram a =
     (let (ret, a) = rd datagram a in if should_drop False rand (fa_cfg a) then (None, a) else (ret, a))"

definition lossy_write :: "(tcp_segment \<Rightarrow> fd_adapter \<Rightarrow> (tcp_segment \<times> 'o) result) \<Rightarrow> u32 \<Rightarrow> tcp_segment \<Rightarrow>
    fd_adapter \<Rightarrow> (tcp_segment \<times> 'o option) result" where
  "lossy_write wr rand seg a =
     (if should_drop True rand (fa_cfg a) then Inr (seg, None)
      else case wr seg a of Inl e \<Rightarrow> Inl e | Inr (seg, sent) \<Rightarrow> Inr (seg, Some sent))"

section \<open>From adapter to adapter\<close>

lemma pseudo_cksum_bound: "unat (ipv4_pseudo_cksum h) < 2 ^ 23"
proof -
  have hi: "unat (drop_bit 16 x :: u32) < 65536" for x :: u32
  proof -
    have "unat x < 2 ^ 32"
      using unat_less_2pow [of x] by simp
    then show ?thesis
      by (simp add: drop_bit_eq_div unat_div)
  qed
  have lo: "unat (x AND 0xffff :: u32) < 65536" for x :: u32
  proof -
    have "(0xffff :: u32) = mask 16"
      by (simp add: mask_eq_exp_minus_1)
    then have "x AND 0xffff = x mod 2 ^ 16"
      by (simp only: take_bit_eq_mask [symmetric] take_bit_eq_mod)
    then show ?thesis
      by (simp add: unat_mod)
  qed
  have small: "unat (ucast (a :: u8) :: u32) < 256" "unat (ucast (b :: u16) :: u32) < 65536" for a b
    using unat_less_2pow [of a] unat_less_2pow [of b] by (simp_all add: unat_ucast_up)
  have add: "unat (x + y :: u32) \<le> unat x + unat y" for x y :: u32
    by (simp add: unat_word_ariths)
  let ?a = "drop_bit 16 (ip_src h)" and ?b = "ip_src h AND 0xffff" and ?c = "drop_bit 16 (ip_dst h)"
    and ?d = "ip_dst h AND 0xffff" and ?p = "ucast (ip_proto h) :: u32" and ?l = "ucast (ipv4_payload_length h) :: u32"
  have "unat (?a + ?b + (?c + ?d) + ?p + ?l) \<le> unat ?a + unat ?b + (unat ?c + unat ?d) + unat ?p + unat ?l"
    using add [of "?a + ?b + (?c + ?d) + ?p" ?l] add [of "?a + ?b + (?c + ?d)" ?p] add [of "?a + ?b" "?c + ?d"]
      add [of ?a ?b] add [of ?c ?d] by linarith
  then have "unat (ipv4_pseudo_cksum h) < 8388608"
    using hi [of "ip_src h"] hi [of "ip_dst h"] lo [of "ip_src h"] lo [of "ip_dst h"]
      small(1) [of "ip_proto h"] small(2) [of "ipv4_payload_length h"]
    unfolding ipv4_pseudo_cksum_def Let_def by linarith
  then show ?thesis
    by simp
qed

lemma pseudo_cksum_cksum [simp]: "ipv4_pseudo_cksum (h\<lparr>ip_cksum := v\<rparr>) = ipv4_pseudo_cksum h"
  by (simp add: ipv4_pseudo_cksum_def ipv4_payload_length_def)

text \<open>
  The state of the receiving adapter: it is connected to the sender's addresses, or it listens
  on the port and the segment opens a connection.
\<close>

definition accepts_from :: "fd_adapter \<Rightarrow> fd_adapter \<Rightarrow> tcp_segment \<Rightarrow> bool" where
  "accepts_from b a seg \<longleftrightarrow>
     (if listening b then ep_port (ac_source (fa_cfg b)) = ep_port (ac_destination (fa_cfg a)) \<and>
        syn (header seg) \<and> \<not> rst (header seg)
      else ac_source (fa_cfg b) = ac_destination (fa_cfg a) \<and> ac_destination (fa_cfg b) = ac_source (fa_cfg a))"

lemma unwrap_accepted:
  assumes "accepts_from b a seg" "ip_src h = ep_ip (ac_source (fa_cfg a))" "ip_dst h = ep_ip (ac_destination (fa_cfg a))"
    and "ip_proto h = PROTO_TCP" "tcp_segment_parse body (ipv4_pseudo_cksum h) tcp_segment_new = (NoError, seg')"
    and "sport (header seg') = ep_port (ac_source (fa_cfg a))" "dport (header seg') = ep_port (ac_destination (fa_cfg a))"
    and "syn (header seg') = syn (header seg)" "rst (header seg') = rst (header seg)"
  shows "\<exists>b'. unwrap_tcp_in_ip \<lparr>dg_header = h, dg_payload = body\<rparr> b = (Some seg', b') \<and> \<not> listening b' \<and>
    ac_source (fa_cfg b') = ac_destination (fa_cfg a) \<and> ac_destination (fa_cfg b') = ac_source (fa_cfg a)"
  using assms by (cases "listening b")
    (auto simp: unwrap_tcp_in_ip_def accepts_from_def set_listening_def listening_def Let_def intro: endpoint.equality)

text \<open>The segment with the adapter's ports.\<close>

definition with_ports :: "fd_adapter \<Rightarrow> tcp_segment \<Rightarrow> tcp_segment" where
  "with_ports a seg = seg\<lparr>header := (header seg)\<lparr>sport := ep_port (ac_source (fa_cfg a)),
     dport := ep_port (ac_destination (fa_cfg a))\<rparr>\<rparr>"

lemma wrap_tcp_in_ip_ok:
  assumes d: "5 \<le> doff (header seg)" "doff (header seg) < 16"
    and len: "20 + 4 * unat (doff (header seg)) + length (payload seg) \<le> 65535"
  shows "\<exists>h body v. wrap_tcp_in_ip seg a = Inr (with_ports a seg, \<lparr>dg_header = h, dg_payload = body\<rparr>) \<and>
    tcp_segment_parse body (ipv4_pseudo_cksum h) tcp_segment_new =
      (NoError, \<lparr>header = (header (with_ports a seg))\<lparr>cksum := v\<rparr>, payload = payload seg\<rparr>) \<and>
    ipv4_header_ok h \<and> 4 * unat (ip_hlen h) + length body = unat (ip_len h) \<and>
    ip_src h = ep_ip (ac_source (fa_cfg a)) \<and> ip_dst h = ep_ip (ac_destination (fa_cfg a)) \<and> ip_proto h = PROTO_TCP"
proof -
  let ?cfg = "fa_cfg a" and ?seg = "with_ports a seg"
  define n where "n = 20 + 4 * unat (doff (header seg)) + length (payload seg)"
  let ?h0 = "ipv4_header_new\<lparr>ip_src := ep_ip (ac_source ?cfg), ip_dst := ep_ip (ac_destination ?cfg)\<rparr>"
  define h where "h = ?h0\<lparr>ip_len := of_nat n\<rparr>"
  have s: "doff (header ?seg) = doff (header seg)" "payload ?seg = payload seg"
    by (simp_all add: with_ports_def)
  have n: "unat (ip_hlen ?h0) * 4 + unat (doff (header ?seg)) * 4 + length (payload ?seg) = n"
    by (simp add: s n_def ipv4_header_new_def IPv4Header_LENGTH_def)
  have wrap: "wrap_tcp_in_ip seg a = (case tcp_segment_serialize (ipv4_pseudo_cksum h) ?seg of
      Inl e \<Rightarrow> Inl e | Inr bytes \<Rightarrow> Inr (?seg, \<lparr>dg_header = h, dg_payload = bytes\<rparr>))"
    by (simp only: wrap_tcp_in_ip_def Let_def with_ports_def [symmetric] n h_def)
  obtain body v where body: "tcp_segment_serialize (ipv4_pseudo_cksum h) ?seg = Inr body"
    "tcp_segment_parse body (ipv4_pseudo_cksum h) tcp_segment_new =
      (NoError, tcp_segment_new\<lparr>header := (header ?seg)\<lparr>cksum := v\<rparr>, payload := payload ?seg\<rparr>)"
    using tcp_segment_roundtrip_aux [of ?seg "ipv4_pseudo_cksum h" tcp_segment_new] d len pseudo_cksum_bound [of h]
    unfolding s by auto
  have "20 + length body = n" and small: "n < 65536"
    using tcp_segment_serialize_length [OF _ body(1)] d(1) len by (simp_all add: s n_def)
  moreover have "unat (of_nat n :: u16) = n"
    using small by (simp add: unat_of_nat)
  ultimately have "ipv4_header_ok h" "4 * unat (ip_hlen h) + length body = unat (ip_len h)"
    by (simp_all add: h_def ipv4_header_ok_def ipv4_header_new_def IPv4Header_LENGTH_def)
  moreover have "ip_src h = ep_ip (ac_source ?cfg)" "ip_dst h = ep_ip (ac_destination ?cfg)" "ip_proto h = PROTO_TCP"
    by (simp_all add: h_def ipv4_header_new_def)
  ultimately show ?thesis
    using wrap body by (auto simp: tcp_segment_new_def s)
qed

section \<open>Properties\<close>

text \<open>
  C11. TCP over IPv4 from adapter to adapter: a segment written by one adapter to the TUN
  device is read by the other one with the ports set, the checksum filled in and everything
  else unchanged, when the other one is connected to the first, or when it listens on the
  destination port and the segment is a SYN; and afterwards the two are connected to each other.
\<close>

theorem tun_roundtrip:
  assumes acc: "accepts_from b a seg"
    and d: "5 \<le> doff (header seg)" "doff (header seg) < 16"
    and len: "20 + 4 * unat (doff (header seg)) + length (payload seg) \<le> 65535"
  shows "\<exists>bytes v b'. tun_write seg a = Inr (with_ports a seg, bytes) \<and>
    tun_read bytes b = (Some \<lparr>header = (header (with_ports a seg))\<lparr>cksum := v\<rparr>, payload = payload seg\<rparr>, b') \<and>
    \<not> listening b' \<and> ac_source (fa_cfg b') = ac_destination (fa_cfg a) \<and> ac_destination (fa_cfg b') = ac_source (fa_cfg a)"
proof -
  obtain h body v where w: "wrap_tcp_in_ip seg a = Inr (with_ports a seg, \<lparr>dg_header = h, dg_payload = body\<rparr>)"
    "tcp_segment_parse body (ipv4_pseudo_cksum h) tcp_segment_new =
      (NoError, \<lparr>header = (header (with_ports a seg))\<lparr>cksum := v\<rparr>, payload = payload seg\<rparr>)"
    "ipv4_header_ok h" "4 * unat (ip_hlen h) + length body = unat (ip_len h)"
    "ip_src h = ep_ip (ac_source (fa_cfg a))" "ip_dst h = ep_ip (ac_destination (fa_cfg a))" "ip_proto h = PROTO_TCP"
    using wrap_tcp_in_ip_ok [OF d len] by blast
  obtain bytes ck where dg: "ipv4_datagram_serialize \<lparr>dg_header = h, dg_payload = body\<rparr> = Inr bytes"
    "ipv4_datagram_parse bytes ipv4_datagram_new = (NoError, \<lparr>dg_header = h\<lparr>ip_cksum := ck\<rparr>, dg_payload = body\<rparr>)"
    using ipv4_datagram_roundtrip_aux [of "\<lparr>dg_header = h, dg_payload = body\<rparr>" ipv4_header_new ipv4_datagram_new] w(3,4)
    by (auto simp: ipv4_datagram_new_def)
  have "\<exists>b'. unwrap_tcp_in_ip \<lparr>dg_header = h\<lparr>ip_cksum := ck\<rparr>, dg_payload = body\<rparr> b =
        (Some \<lparr>header = (header (with_ports a seg))\<lparr>cksum := v\<rparr>, payload = payload seg\<rparr>, b') \<and> \<not> listening b' \<and>
      ac_source (fa_cfg b') = ac_destination (fa_cfg a) \<and> ac_destination (fa_cfg b') = ac_source (fa_cfg a)"
    by (rule unwrap_accepted [OF acc]) (simp_all add: w with_ports_def)
  then show ?thesis
    using w(1) dg by (auto simp: tun_write_def tun_read_def)
qed

theorem tun_roundtrip_witness:
  "let a = fd_adapter_new\<lparr>fa_cfg := fd_adapter_config_new\<lparr>ac_source := \<lparr>ep_ip = 1, ep_port = 10\<rparr>,
         ac_destination := \<lparr>ep_ip = 2, ep_port = 20\<rparr>\<rparr>\<rparr>;
       b = \<lparr>fa_cfg = fd_adapter_config_new\<lparr>ac_source := \<lparr>ep_ip = 0, ep_port = 20\<rparr>\<rparr>, fa_listen = True\<rparr>;
       seg = \<lparr>header = tcp_header_new\<lparr>syn := True\<rparr>, payload = []\<rparr>
   in \<exists>bytes v b'. tun_write seg a = Inr (with_ports a seg, bytes) \<and>
      tun_read bytes b = (Some \<lparr>header = (header (with_ports a seg))\<lparr>cksum := v\<rparr>, payload = []\<rparr>, b') \<and>
      ac_destination (fa_cfg b') = \<lparr>ep_ip = 1, ep_port = 10\<rparr>"
proof -
  let ?a = "fd_adapter_new\<lparr>fa_cfg := fd_adapter_config_new\<lparr>ac_source := \<lparr>ep_ip = 1, ep_port = 10\<rparr>,
      ac_destination := \<lparr>ep_ip = 2, ep_port = 20\<rparr>\<rparr>\<rparr>"
    and ?b = "\<lparr>fa_cfg = fd_adapter_config_new\<lparr>ac_source := \<lparr>ep_ip = 0, ep_port = 20\<rparr>\<rparr>, fa_listen = True\<rparr>"
    and ?seg = "\<lparr>header = tcp_header_new\<lparr>syn := True\<rparr>, payload = []\<rparr>"
  have "accepts_from ?b ?a ?seg" "5 \<le> doff (header ?seg)" "doff (header ?seg) < 16"
    "20 + 4 * unat (doff (header ?seg)) + length (payload ?seg) \<le> 65535"
    by (simp_all add: accepts_from_def listening_def net_defs)
  from tun_roundtrip [OF this] show ?thesis
    unfolding Let_def by auto
qed

end
