(* ===== verification/Buffers.thy ===== *)
theory Buffers
  imports Sponge_Prelude
begin

text \<open>
  The reference-counted buffers of \<open>libsponge/util/buffer.hh\<close> and
  \<open>libsponge/util/buffer.cc\<close>. A \<open>Buffer\<close> is a shared immutable string, possibly absent, and
  an offset into it; a \<open>BufferList\<close> is a sequence of them. The theory shows that they
  behave as plain byte strings: every operation acts on the bytes a buffer shows the way the
  same operation acts on a list, which is what the packet theories rely on when they use byte
  lists for buffers.
\<close>

section \<open>Buffer\<close>

record buffer =
  buf_storage :: "byte list option"
  buf_starting_offset :: nat

definition buffer_empty :: buffer where
  "buffer_empty = \<lparr>buf_storage = None, buf_starting_offset = 0\<rparr>"

definition buffer_new :: "byte list \<Rightarrow> buffer" where
  "buffer_new str = \<lparr>buf_storage = Some str, buf_starting_offset = 0\<rparr>"

definition buf_str :: "buffer \<Rightarrow> byte list" where
  "buf_str b = (case buf_storage b of None \<Rightarrow> [] | Some s \<Rightarrow> drop (buf_starting_offset b) s)"

definition buf_at :: "nat \<Rightarrow> buffer \<Rightarrow> byte result" where
  "buf_at n b =
     (if n < length (buf_str b) then Inr (buf_str b ! n) else Inl (Out_Of_Range ''string_view::at''))"

definition buf_size :: "buffer \<Rightarrow> nat" where
  "buf_size b = length (buf_str b)"

definition buf_copy :: "buffer \<Rightarrow> byte list" where
  "buf_copy b = buf_str b"

definition buf_remove_prefix :: "nat \<Rightarrow> buffer \<Rightarrow> buffer result" where
  "buf_remove_prefix n b =
     (if n > length (buf_str b) then Inl (Out_Of_Range ''Buffer::remove_prefix'')
      else let b' = b\<lparr>buf_starting_offset := buf_starting_offset b + n\<rparr>
           in Inr (case buf_storage b' of
                     None \<Rightarrow> b'
                   | Some s \<Rightarrow>
                       if buf_starting_offset b' = length s then b'\<lparr>buf_storage := None\<rparr> else b'))"

text \<open>The offset of a buffer with storage lies inside the string.\<close>

definition buf_inv :: "buffer \<Rightarrow> bool" where
  "buf_inv b \<longleftrightarrow> (\<forall>s. buf_storage b = Some s \<longrightarrow> buf_starting_offset b \<le> length s)"

lemma buf_new_str [simp]: "buf_str (buffer_new s) = s" "buf_str buffer_empty = []"
  by (simp_all add: buf_str_def buffer_new_def buffer_empty_def)

lemma buf_inv_new [simp]: "buf_inv (buffer_new s)" "buf_inv buffer_empty"
  by (simp_all add: buf_inv_def buffer_new_def buffer_empty_def)

lemma buf_remove_prefix_ok:
  assumes "buf_inv b" "n \<le> length (buf_str b)"
  shows "\<exists>b'. buf_remove_prefix n b = Inr b' \<and> buf_inv b' \<and> buf_str b' = drop n (buf_str b)"
  using assms
  by (cases "buf_storage b")
    (auto simp: buf_remove_prefix_def buf_str_def buf_inv_def Let_def add.commute)

section \<open>BufferList and BufferViewList\<close>

type_synonym buffer_list = "buffer list"
type_synonym buffer_view_list = "byte list list"

definition bl_from_buffer :: "buffer \<Rightarrow> buffer_list" where
  "bl_from_buffer b = [b]"

definition bl_append :: "buffer_list \<Rightarrow> buffer_list \<Rightarrow> buffer_list" where
  "bl_append bl other = foldl (\<lambda>acc buf. acc @ [buf]) bl other"

definition bl_from_string :: "byte list \<Rightarrow> buffer_list" where
  "bl_from_string str = bl_append [] (bl_from_buffer (buffer_new str))"

definition bl_to_buffer :: "buffer_list \<Rightarrow> buffer result" where
  "bl_to_buffer bl =
     (case bl of
        [] \<Rightarrow> Inr buffer_empty
      | [b] \<Rightarrow> Inr b
      | _ \<Rightarrow> Inl (Runtime_Error ''BufferList: please use concatenate() to combine a multi-Buffer BufferList into one Buffer''))"

definition bl_concatenate :: "buffer_list \<Rightarrow> byte list" where
  "bl_concatenate bl = foldl (\<lambda>ret buf. ret @ buf_str buf) [] bl"

definition bl_size :: "buffer_list \<Rightarrow> nat" where
  "bl_size bl = foldl (\<lambda>ret buf. ret + buf_size buf) 0 bl"

fun bl_remove_prefix :: "nat \<Rightarrow> buffer_list \<Rightarrow> buffer_list result" where
  "bl_remove_prefix n [] = (if n > 0 then Inl (Out_Of_Range ''BufferList::remove_prefix'') else Inr [])"
| "bl_remove_prefix n (b # bs) =
     (if n > 0
      then if n < length (buf_str b)
           then (case buf_remove_prefix n b of Inl e \<Rightarrow> Inl e | Inr b' \<Rightarrow> Inr (b' # bs))
           else bl_remove_prefix (n - length (buf_str b)) bs
      else Inr (b # bs))"

definition bvl_from_buffers :: "buffer_list \<Rightarrow> buffer_view_list" where
  "bvl_from_buffers bl = map buf_str bl"

definition bvl_from_view :: "byte list \<Rightarrow> buffer_view_list" where
  "bvl_from_view str = [str]"

fun bvl_remove_prefix :: "nat \<Rightarrow> buffer_view_list \<Rightarrow> buffer_view_list result" where
  "bvl_remove_prefix n [] = (if n > 0 then Inl (Out_Of_Range ''BufferListView::remove_prefix'') else Inr [])"
| "bvl_remove_prefix n (v # vs) =
     (if n > 0
      then if n < length v then Inr (drop n v # vs) else bvl_remove_prefix (n - length v) vs
      else Inr (v # vs))"

definition bvl_size :: "buffer_view_list \<Rightarrow> nat" where
  "bvl_size vs = foldl (\<lambda>ret v. ret + length v) 0 vs"

text \<open>An \<open>iovec\<close> is a base pointer and a length; here the bytes at the pointer and the length.\<close>

definition bvl_as_iovecs :: "buffer_view_list \<Rightarrow> (byte list \<times> nat) list" where
  "bvl_as_iovecs vs = map (\<lambda>x. (x, length x)) vs"

section \<open>They are byte strings\<close>

lemma foldl_concat: "foldl (\<lambda>ret b. ret @ f b) acc bl = acc @ concat (map f bl)"
  by (induction bl arbitrary: acc) simp_all

lemma foldl_sum: "foldl (\<lambda>ret b. ret + f b) (a :: nat) bl = a + sum_list (map f bl)"
  by (induction bl arbitrary: a) simp_all

lemma bl_append_eq [simp]: "bl_append xs ys = xs @ ys"
  by (simp add: bl_append_def foldl_concat)

lemma bl_concatenate_eq: "bl_concatenate bl = concat (map buf_str bl)"
  by (simp add: bl_concatenate_def foldl_concat)

lemma bl_size_eq: "bl_size bl = length (bl_concatenate bl)"
  by (simp add: bl_size_def foldl_sum bl_concatenate_eq length_concat buf_size_def comp_def)

lemma bl_remove_prefix_spec:
  assumes "\<forall>b \<in> set bl. buf_inv b"
  shows "case bl_remove_prefix n bl of
      Inl e \<Rightarrow> e = Out_Of_Range ''BufferList::remove_prefix'' \<and> length (bl_concatenate bl) < n
    | Inr bl' \<Rightarrow> bl_concatenate bl' = drop n (bl_concatenate bl) \<and> n \<le> length (bl_concatenate bl) \<and>
        (\<forall>b \<in> set bl'. buf_inv b)"
  using assms
proof (induction n bl rule: bl_remove_prefix.induct)
  case (2 n b bs)
  consider "n = 0" | "0 < n" "n < length (buf_str b)" | "0 < n" "length (buf_str b) \<le> n"
    by linarith
  then show ?case
  proof cases
    case 2
    moreover have "buf_inv b"
      using "2.prems" by simp
    ultimately obtain b' where "buf_remove_prefix n b = Inr b'" "buf_inv b'"
        "buf_str b' = drop n (buf_str b)"
      using buf_remove_prefix_ok [of b n] by auto
    with 2 "2.prems" show ?thesis
      by (simp add: bl_concatenate_eq)
  next
    case 3
    then show ?thesis
      using "2.IH" "2.prems" by (simp add: bl_concatenate_eq split: sum.splits) linarith
  qed (use "2.prems" in \<open>simp add: bl_concatenate_eq\<close>)
qed (simp add: bl_concatenate_eq)

lemma bvl_remove_prefix_views:
  "(case bl_remove_prefix n bl of Inl _ \<Rightarrow> None | Inr bl' \<Rightarrow> Some (concat (map buf_str bl'))) =
   (case bvl_remove_prefix n (map buf_str bl) of Inl _ \<Rightarrow> None | Inr vs \<Rightarrow> Some (concat vs))"
  if "\<forall>b \<in> set bl. buf_inv b"
  using that
proof (induction n bl rule: bl_remove_prefix.induct)
  case (2 n b bs)
  show ?case
  proof (cases "0 < n \<and> n < length (buf_str b)")
    case True
    moreover have "buf_inv b"
      using "2.prems" by simp
    ultimately obtain b' where "buf_remove_prefix n b = Inr b'" "buf_str b' = drop n (buf_str b)"
      using buf_remove_prefix_ok [of b n] by auto
    with True show ?thesis
      by simp
  next
    case False
    then show ?thesis
      using "2.IH" "2.prems" by auto
  qed
qed simp

text \<open>
  C28. A buffer list is the string its parts spell, wherever the cuts are: appending
  concatenates, the size is the length of that string, removing a prefix drops it or, when it
  is longer than the string, throws, and the view list of a buffer list removes the same prefix.
\<close>

theorem buffer_list_is_string:
  assumes "\<forall>b \<in> set bl. buf_inv b"
  shows "bl_concatenate (bl_append bl other) = bl_concatenate bl @ bl_concatenate other \<and>
    bl_size bl = length (bl_concatenate bl) \<and>
    (if n \<le> length (bl_concatenate bl)
     then \<exists>bl' vs. bl_remove_prefix n bl = Inr bl' \<and> (\<forall>b \<in> set bl'. buf_inv b) \<and>
       bl_concatenate bl' = drop n (bl_concatenate bl) \<and>
       bvl_remove_prefix n (bvl_from_buffers bl) = Inr vs \<and> concat vs = bl_concatenate bl'
     else bl_remove_prefix n bl = Inl (Out_Of_Range ''BufferList::remove_prefix''))"
  using bl_remove_prefix_spec [OF assms, of n] bvl_remove_prefix_views [OF assms, of n]
  by (auto simp: bl_size_eq bvl_from_buffers_def bl_concatenate_eq split: sum.splits)

theorem buffer_list_is_string_witness:
  "bl_size (bl_append (bl_from_string [1, 2]) (bl_from_string [3])) = 3"
  using buffer_list_is_string [of "[buffer_new [1, 2], buffer_new [3]]" "[]" 1]
  by (simp add: bl_from_string_def bl_from_buffer_def bl_concatenate_eq)

end
