(* ===== verification/File_Descriptor.thy ===== *)
theory File_Descriptor
  imports Buffers Address
begin

unbundle bit_operations_syntax

text \<open>
  System calls and descriptors: \<open>SystemCall\<close> of \<open>libsponge/util/util.cc\<close>,
  \<open>file_descriptor.hh\<close>, \<open>file_descriptor.cc\<close>, \<open>socket.hh\<close>, \<open>socket.cc\<close>, \<open>tun.hh\<close> and
  \<open>tun.cc\<close>. What the kernel does is an argument: the outcome of a call is its return value and
  \<open>errno\<close>, and where a call is repeated the kernel is a function on a state of its own.
  \<open>SystemCall\<close> takes the return value as an \<open>int\<close>; the calls modelled here ask for at most \<open>BUFFER_SIZE\<close> bytes or
  write buffers, and the narrowing of a count of \<open>2 ^ 31\<close> bytes or more, which Linux never returns, is left out.
\<close>

section \<open>SystemCall\<close>

type_synonym sysret = "int \<times> nat"

definition system_call :: "string \<Rightarrow> sysret \<Rightarrow> nat \<Rightarrow> int result" where
  "system_call attempt ret errno_mask =
     (let (return_value, errno) = ret
      in if return_value \<ge> 0 \<or> errno = errno_mask then Inr return_value else Inl (Unix_Error attempt errno))"

section \<open>FDWrapper\<close>

record fd_wrapper =
  fdw_fd :: int
  fdw_eof :: bool
  fdw_closed :: bool
  fdw_read_count :: u32
  fdw_write_count :: u32

definition fdw_new :: "int \<Rightarrow> fd_wrapper result" where
  "fdw_new fd =
     (if fd < 0 then Inl (Runtime_Error (''invalid fd number:-'' @ dec (nat (- fd))))
      else Inr \<lparr>fdw_fd = fd, fdw_eof = False, fdw_closed = False, fdw_read_count = 0, fdw_write_count = 0\<rparr>)"

definition fdw_close :: "sysret \<Rightarrow> fd_wrapper \<Rightarrow> unit result \<times> fd_wrapper" where
  "fdw_close ret w =
     (case system_call ''close'' ret 0 of
        Inl e \<Rightarrow> (Inl e, w)
      | Inr _ \<Rightarrow> (Inr (), w\<lparr>fdw_closed := True, fdw_eof := True\<rparr>))"

text \<open>The destructor swallows the exception.\<close>

definition fdw_destroy :: "sysret \<Rightarrow> fd_wrapper \<Rightarrow> fd_wrapper" where
  "fdw_destroy ret w = (if fdw_closed w then w else snd (fdw_close ret w))"

section \<open>FileDescriptor\<close>

definition register_read :: "fd_wrapper \<Rightarrow> fd_wrapper" where
  "register_read w = w\<lparr>fdw_read_count := fdw_read_count w + 1\<rparr>"

definition register_write :: "fd_wrapper \<Rightarrow> fd_wrapper" where
  "register_write w = w\<lparr>fdw_write_count := fdw_write_count w + 1\<rparr>"

definition BUFFER_SIZE :: nat where "BUFFER_SIZE = 1024 * 1024"

text \<open>
  The kernel gets the number of bytes asked for and answers with its outcome and the bytes it put
  into the buffer. A negative count that \<open>SystemCall\<close> lets pass makes \<open>resize\<close> throw.
\<close>

definition fd_read :: "nat \<Rightarrow> (nat \<Rightarrow> sysret \<times> byte list) \<Rightarrow> fd_wrapper \<Rightarrow> byte list result \<times> fd_wrapper" where
  "fd_read limit rd w =
     (let size_to_read = min BUFFER_SIZE limit;
          (ret, data) = rd size_to_read
      in case system_call ''read'' ret 0 of
           Inl e \<Rightarrow> (Inl e, w)
         | Inr bytes_read \<Rightarrow>
             let w = (if limit > 0 \<and> bytes_read = 0 then w\<lparr>fdw_eof := True\<rparr> else w)
             in if bytes_read > int size_to_read then (Inl (Runtime_Error ''read() read more than requested''), w)
                else if bytes_read < 0 then (Inl (Length_Error ''basic_string::resize''), w)
                else (Inr (take (nat bytes_read) data), register_read w))"

lemma bvl_size_eq: "bvl_size vs = length (concat vs)"
  by (simp add: bvl_size_def foldl_sum length_concat)

lemma bvl_remove_prefix_concat:
  "bvl_remove_prefix n vs = Inr vs' \<Longrightarrow> concat vs' = drop n (concat vs) \<and> n \<le> length (concat vs)"
  by (induction n vs rule: bvl_remove_prefix.induct) (auto split: if_splits)

lemma bvl_remove_prefix_fits: "n \<le> length (concat vs) \<Longrightarrow> \<exists>vs'. bvl_remove_prefix n vs = Inr vs'"
  by (induction n vs rule: bvl_remove_prefix.induct) auto

text \<open>
  The loop of \<open>write\<close>. Each round that does not throw removes what was written from the front,
  and a round that writes nothing only passes when nothing is left, so the size is a measure.
\<close>

function fd_write_loop :: "('k \<Rightarrow> (byte list \<times> nat) list \<Rightarrow> sysret \<times> 'k) \<Rightarrow> bool \<Rightarrow> buffer_view_list \<Rightarrow> nat \<Rightarrow>
    'k \<Rightarrow> fd_wrapper \<Rightarrow> nat result \<times> 'k \<times> fd_wrapper" where
  "fd_write_loop writev write_all buffer written k w =
     (let (ret, k) = writev k (bvl_as_iovecs buffer)
      in case system_call ''writev'' ret 0 of
           Inl e \<Rightarrow> (Inl e, k, w)
         | Inr bytes_written \<Rightarrow>
             if bytes_written = 0 \<and> bvl_size buffer \<noteq> 0
             then (Inl (Runtime_Error ''write returned 0 given non-empty input buffer''), k, w)
             else if bytes_written > int (bvl_size buffer)
             then (Inl (Runtime_Error ''write wrote more than length of input buffer''), k, w)
             else let w = register_write w
                  in case (if bytes_written < 0 then Inl (Out_Of_Range ''BufferListView::remove_prefix'')
                           else bvl_remove_prefix (nat bytes_written) buffer) of
                       Inl e \<Rightarrow> (Inl e, k, w)
                     | Inr buffer' \<Rightarrow>
                         if write_all \<and> bvl_size buffer' \<noteq> 0
                         then fd_write_loop writev write_all buffer' (written + nat bytes_written) k w
                         else (Inr (written + nat bytes_written), k, w))"
  by pat_completeness auto
termination
proof (relation "measure (\<lambda>(writev, write_all, buffer, written, k, w). bvl_size buffer)", goal_cases)
  case (2 writev write_all buffer written k w x ret k' n w' buffer')
  then have p: "bvl_remove_prefix (nat n) buffer = Inr buffer'" "0 \<le> n"
    and n: "\<not> (n = 0 \<and> bvl_size buffer \<noteq> 0)" "bvl_size buffer' \<noteq> 0"
    by (auto split: if_splits)
  have "bvl_size buffer' = bvl_size buffer - nat n"
    using bvl_remove_prefix_concat [OF p(1)] by (simp add: bvl_size_eq)
  then show ?case
    using n p(2) by (cases "n = 0") auto
qed simp

declare fd_write_loop.simps [simp del]

definition fd_write :: "('k \<Rightarrow> (byte list \<times> nat) list \<Rightarrow> sysret \<times> 'k) \<Rightarrow> buffer_view_list \<Rightarrow> bool \<Rightarrow>
    'k \<Rightarrow> fd_wrapper \<Rightarrow> nat result \<times> 'k \<times> fd_wrapper" where
  "fd_write writev buffer write_all k w = fd_write_loop writev write_all buffer 0 k w"

definition O_NONBLOCK :: u32 where "O_NONBLOCK = 0x800"

text \<open>The flags are read and written back; the result is the argument of the second call.\<close>

definition fd_set_blocking :: "bool \<Rightarrow> sysret \<Rightarrow> (u32 \<Rightarrow> sysret) \<Rightarrow> u32 result" where
  "fd_set_blocking blocking_state getfl setfl =
     (case system_call ''fcntl'' getfl 0 of
        Inl e \<Rightarrow> Inl e
      | Inr n \<Rightarrow>
          let flags = word_of_int n :: u32;
              flags = (if blocking_state then flags XOR (flags AND O_NONBLOCK) else flags OR O_NONBLOCK)
          in case system_call ''fcntl'' (setfl flags) 0 of Inl e \<Rightarrow> Inl e | Inr _ \<Rightarrow> Inr flags)"

section \<open>Sockets\<close>

text \<open>Constructors: a new socket, and a descriptor whose domain and type are verified.\<close>

definition socket_new :: "sysret \<Rightarrow> fd_wrapper result" where
  "socket_new ret = (case system_call ''socket'' ret 0 of Inl e \<Rightarrow> Inl e | Inr fd \<Rightarrow> fdw_new fd)"

text \<open>An answer of \<open>getsockopt\<close>: its outcome, the length it set and the value it stored.\<close>

type_synonym sockopt = "sysret \<times> nat \<times> int"

definition sockopt_is :: "string \<Rightarrow> int \<Rightarrow> sockopt \<Rightarrow> unit result" where
  "sockopt_is what expected answer =
     (let (ret, len, actual_value) = answer
      in case system_call ''getsockopt'' ret 0 of
           Inl e \<Rightarrow> Inl e
         | Inr _ \<Rightarrow> if len \<noteq> 4 \<or> actual_value \<noteq> expected then Inl (Runtime_Error (''socket '' @ what @ '' mismatch''))
                    else Inr ())"

definition socket_of_fd :: "fd_wrapper \<Rightarrow> int \<Rightarrow> int \<Rightarrow> sockopt \<Rightarrow> sockopt \<Rightarrow> fd_wrapper result" where
  "socket_of_fd fd domain type so_domain so_type =
     (case sockopt_is ''domain'' domain so_domain of
        Inl e \<Rightarrow> Inl e
      | Inr _ \<Rightarrow> (case sockopt_is ''type'' type so_type of Inl e \<Rightarrow> Inl e | Inr _ \<Rightarrow> Inr fd))"

text \<open>The kernel stores the address and its size.\<close>

definition socket_get_address :: "string \<Rightarrow> sysret \<times> byte list \<times> nat \<Rightarrow> address result" where
  "socket_get_address name_of_function answer =
     (let (ret, raw, sz) = answer
      in case system_call name_of_function ret 0 of Inl e \<Rightarrow> Inl e | Inr _ \<Rightarrow> address_of_raw raw sz)"

definition local_address :: "sysret \<times> byte list \<times> nat \<Rightarrow> address result" where
  "local_address answer = socket_get_address ''getsockname'' answer"

definition peer_address :: "sysret \<times> byte list \<times> nat \<Rightarrow> address result" where
  "peer_address answer = socket_get_address ''getpeername'' answer"

definition socket_bind :: "(byte list \<times> nat \<Rightarrow> sysret) \<Rightarrow> address \<Rightarrow> unit result" where
  "socket_bind kbind a = (case system_call ''bind'' (kbind (ad_raw a, ad_size a)) 0 of Inl e \<Rightarrow> Inl e | Inr _ \<Rightarrow> Inr ())"

definition socket_connect :: "(byte list \<times> nat \<Rightarrow> sysret) \<Rightarrow> address \<Rightarrow> unit result" where
  "socket_connect kconnect a =
     (case system_call ''connect'' (kconnect (ad_raw a, ad_size a)) 0 of Inl e \<Rightarrow> Inl e | Inr _ \<Rightarrow> Inr ())"

definition SHUT_RD :: int where "SHUT_RD = 0"
definition SHUT_WR :: int where "SHUT_WR = 1"
definition SHUT_RDWR :: int where "SHUT_RDWR = 2"

definition socket_shutdown :: "sysret \<Rightarrow> int \<Rightarrow> fd_wrapper \<Rightarrow> unit result \<times> fd_wrapper" where
  "socket_shutdown ret how w =
     (case system_call ''shutdown'' ret 0 of
        Inl e \<Rightarrow> (Inl e, w)
      | Inr _ \<Rightarrow>
          if how = SHUT_RD then (Inr (), register_read w)
          else if how = SHUT_WR then (Inr (), register_write w)
          else if how = SHUT_RDWR then (Inr (), register_write (register_read w))
          else (Inl (Runtime_Error ''Socket::shutdown() called with invalid `how`''), w))"

text \<open>A datagram: the outcome and the bytes, the sender's address and its size.\<close>

definition udp_recv :: "nat \<Rightarrow> (nat \<Rightarrow> sysret \<times> byte list \<times> byte list \<times> nat) \<Rightarrow> fd_wrapper \<Rightarrow>
    (address \<times> byte list) result \<times> fd_wrapper" where
  "udp_recv mtu recvfrom w =
     (let (ret, data, from, fromlen) = recvfrom mtu
      in case system_call ''recvfrom'' ret 0 of
           Inl e \<Rightarrow> (Inl e, w)
         | Inr recv_len \<Rightarrow>
             if recv_len > int mtu then (Inl (Runtime_Error ''recvfrom (oversized datagram)''), w)
             else let w = register_read w
                  in case address_of_raw from fromlen of
                       Inl e \<Rightarrow> (Inl e, w)
                     | Inr source_address \<Rightarrow>
                         if recv_len < 0 then (Inl (Length_Error ''basic_string::resize''), w)
                         else (Inr (source_address, take (nat recv_len) data), w))"

definition sendmsg_helper :: "((byte list \<times> nat) option \<Rightarrow> (byte list \<times> nat) list \<Rightarrow> sysret) \<Rightarrow> (byte list \<times> nat) option \<Rightarrow>
    buffer_view_list \<Rightarrow> unit result" where
  "sendmsg_helper sendmsg destination body =
     (case system_call ''sendmsg'' (sendmsg destination (bvl_as_iovecs body)) 0 of
        Inl e \<Rightarrow> Inl e
      | Inr bytes_sent \<Rightarrow>
          if bytes_sent \<noteq> int (bvl_size body) then Inl (Runtime_Error ''datagram payload too big for sendmsg()'')
          else Inr ())"

definition udp_sendto :: "((byte list \<times> nat) option \<Rightarrow> (byte list \<times> nat) list \<Rightarrow> sysret) \<Rightarrow> address \<Rightarrow>
    buffer_view_list \<Rightarrow> fd_wrapper \<Rightarrow> unit result \<times> fd_wrapper" where
  "udp_sendto sendmsg destination body w =
     (case sendmsg_helper sendmsg (Some (ad_raw destination, ad_size destination)) body of
        Inl e \<Rightarrow> (Inl e, w) | Inr _ \<Rightarrow> (Inr (), register_write w))"

definition udp_send :: "((byte list \<times> nat) option \<Rightarrow> (byte list \<times> nat) list \<Rightarrow> sysret) \<Rightarrow>
    buffer_view_list \<Rightarrow> fd_wrapper \<Rightarrow> unit result \<times> fd_wrapper" where
  "udp_send sendmsg body w =
     (case sendmsg_helper sendmsg None body of Inl e \<Rightarrow> (Inl e, w) | Inr _ \<Rightarrow> (Inr (), register_write w))"

definition tcp_listen :: "sysret \<Rightarrow> unit result" where
  "tcp_listen ret = (case system_call ''listen'' ret 0 of Inl e \<Rightarrow> Inl e | Inr _ \<Rightarrow> Inr ())"

definition AF_INET_domain :: int where "AF_INET_domain = 2"
definition SOCK_STREAM :: int where "SOCK_STREAM = 1"

definition tcp_accept :: "sysret \<Rightarrow> sockopt \<Rightarrow> sockopt \<Rightarrow> fd_wrapper \<Rightarrow> fd_wrapper result \<times> fd_wrapper" where
  "tcp_accept ret so_domain so_type w =
     (let w = register_read w
      in (case system_call ''accept'' ret 0 of
            Inl e \<Rightarrow> Inl e
          | Inr fd \<Rightarrow> (case fdw_new fd of
                Inl e \<Rightarrow> Inl e
              | Inr f \<Rightarrow> socket_of_fd f AF_INET_domain SOCK_STREAM so_domain so_type), w))"

definition set_reuseaddr :: "sysret \<Rightarrow> unit result" where
  "set_reuseaddr ret = (case system_call ''setsockopt'' ret 0 of Inl e \<Rightarrow> Inl e | Inr _ \<Rightarrow> Inr ())"

section \<open>TUN and TAP devices\<close>

definition IFNAMSIZ :: nat where "IFNAMSIZ = 16"
definition IFF_TUN :: u16 where "IFF_TUN = 1"
definition IFF_TAP :: u16 where "IFF_TAP = 2"
definition IFF_NO_PI :: u16 where "IFF_NO_PI = 0x1000"

text \<open>The request: flags and name; \<open>strncpy\<close> stops at a null byte and pads with null bytes.\<close>

definition tun_request :: "string \<Rightarrow> bool \<Rightarrow> u16 \<times> string" where
  "tun_request devname is_tun =
     (let nm = take (IFNAMSIZ - 1) (takeWhile (\<lambda>c. c \<noteq> CHR 0x00) devname)
      in ((if is_tun then IFF_TUN else IFF_TAP) OR IFF_NO_PI, nm @ replicate (IFNAMSIZ - length nm) (CHR 0x00)))"

definition tun_tap_open :: "string \<Rightarrow> bool \<Rightarrow> sysret \<Rightarrow> (u16 \<times> string \<Rightarrow> sysret) \<Rightarrow> fd_wrapper result" where
  "tun_tap_open devname is_tun open_ret ioctl =
     (case system_call ''open'' open_ret 0 of
        Inl e \<Rightarrow> Inl e
      | Inr fd \<Rightarrow> (case fdw_new fd of
          Inl e \<Rightarrow> Inl e
        | Inr w \<Rightarrow> (case system_call ''ioctl'' (ioctl (tun_request devname is_tun)) 0 of Inl e \<Rightarrow> Inl e | Inr _ \<Rightarrow> Inr w)))"

section \<open>Writing everything\<close>

text \<open>
  What is documented of \<open>writev\<close> on a blocking descriptor that does not fail: it takes a prefix
  of the data, at least one byte if there is any; \<open>out\<close> is what the kernel has been given.
\<close>

definition accepting_writev :: "('k \<Rightarrow> (byte list \<times> nat) list \<Rightarrow> sysret \<times> 'k) \<Rightarrow> ('k \<Rightarrow> byte list) \<Rightarrow> bool" where
  "accepting_writev writev out \<longleftrightarrow> (\<forall>k iov. let d = concat (map fst iov) in
     \<exists>n k'. writev k iov = ((int n, 0), k') \<and> n \<le> length d \<and> (d \<noteq> [] \<longrightarrow> 0 < n) \<and> out k' = out k @ take n d)"

lemma accepting_round:
  assumes "accepting_writev writev out"
  shows "\<exists>n k' buffer'. writev k (bvl_as_iovecs buffer) = ((int n, 0), k') \<and> (n = 0 \<longrightarrow> bvl_size buffer = 0) \<and>
    n \<le> bvl_size buffer \<and> bvl_remove_prefix n buffer = Inr buffer' \<and> concat buffer' = drop n (concat buffer) \<and>
    out k' = out k @ take n (concat buffer)"
proof -
  have d: "concat (map fst (bvl_as_iovecs buffer)) = concat buffer"
    by (simp add: bvl_as_iovecs_def comp_def)
  obtain n k' where n: "writev k (bvl_as_iovecs buffer) = ((int n, 0), k')" "n \<le> length (concat buffer)"
    "concat buffer \<noteq> [] \<longrightarrow> 0 < n" "out k' = out k @ take n (concat buffer)"
    using assms d unfolding accepting_writev_def Let_def by metis
  then obtain buffer' where "bvl_remove_prefix n buffer = Inr buffer'"
    using bvl_remove_prefix_fits by blast
  then show ?thesis
    using n bvl_remove_prefix_concat [of n buffer buffer'] by (auto simp: bvl_size_eq)
qed

lemma fd_write_loop_all:
  assumes "accepting_writev writev out"
  shows "\<exists>k' w'. fd_write_loop writev True buffer n0 k w = (Inr (n0 + bvl_size buffer), k', w') \<and>
    out k' = out k @ concat buffer"
proof (induction "bvl_size buffer" arbitrary: buffer n0 k w rule: less_induct)
  case less
  obtain n k' buffer' where r: "writev k (bvl_as_iovecs buffer) = ((int n, 0), k')" "n = 0 \<longrightarrow> bvl_size buffer = 0"
    "n \<le> bvl_size buffer" "bvl_remove_prefix n buffer = Inr buffer'" "concat buffer' = drop n (concat buffer)"
    "out k' = out k @ take n (concat buffer)"
    using accepting_round [OF assms] by blast
  have sz: "bvl_size buffer' = bvl_size buffer - n"
    using r(5) by (simp add: bvl_size_eq)
  have e: "fd_write_loop writev True buffer n0 k w =
      (if bvl_size buffer' \<noteq> 0 then fd_write_loop writev True buffer' (n0 + n) k' (register_write w)
       else (Inr (n0 + n), k', register_write w))"
    using r(1-4) by (subst fd_write_loop.simps) (auto simp: system_call_def Let_def)
  show ?case
  proof (cases "bvl_size buffer' = 0")
    case True
    then have "n = bvl_size buffer"
      using sz r(3) by linarith
    moreover from this have "take n (concat buffer) = concat buffer"
      by (simp only: bvl_size_eq take_all order_refl)
    ultimately have "n = bvl_size buffer" "take n (concat buffer) = concat buffer" .
    then show ?thesis
      using e True r(6) by simp
  next
    case False
    then have "bvl_size buffer' < bvl_size buffer"
      using sz r(2) by (cases "n = 0") auto
    from less [OF this, of "n0 + n" k' "register_write w"] show ?thesis
      using e False r(3,5,6) sz by auto
  qed
qed

section \<open>Properties\<close>

text \<open>
  C13. Writing all of a buffer list terminates and loses nothing: with a kernel that takes any
  nonempty prefix of what it is offered, \<open>write\<close> returns the size of the list, and the kernel
  has been given exactly its bytes, in order, behind what it had.
\<close>

theorem fd_write_all:
  assumes "accepting_writev writev out"
  shows "\<exists>k' w'. fd_write writev buffer True k w = (Inr (bvl_size buffer), k', w') \<and> out k' = out k @ concat buffer"
  using fd_write_loop_all [OF assms, of buffer 0 k w] by (simp add: fd_write_def)

theorem fd_write_all_witness:
  "\<exists>k' w'. fd_write (\<lambda>k iov. ((int (min 2 (length (concat (map fst iov)))), 0), k @ take 2 (concat (map fst iov))))
     [[1, 2, 3], [4, 5 :: byte]] True [] \<lparr>fdw_fd = 3, fdw_eof = False, fdw_closed = False, fdw_read_count = 0, fdw_write_count = 0\<rparr> =
     (Inr 5, k', w') \<and> k' = [1, 2, 3, 4, 5]"
proof -
  have "accepting_writev (\<lambda>k iov. ((int (min 2 (length (concat (map fst iov)))), 0), k @ take 2 (concat (map fst iov))))
      (\<lambda>k :: byte list. k)"
    unfolding accepting_writev_def Let_def
  proof (intro allI)
    fix k :: "byte list" and iov :: "(byte list \<times> nat) list"
    let ?d = "concat (map fst iov)"
    have "take 2 xs = take (min 2 (length xs)) xs" for xs :: "byte list"
      by (cases "2 \<le> length xs") (simp_all add: min_absorb1 min_absorb2)
    moreover have "?d \<noteq> [] \<longrightarrow> 0 < min 2 (length ?d)"
      by simp
    ultimately show "\<exists>n k'. ((int (min 2 (length ?d)), 0 :: nat), k @ take 2 ?d) = ((int n, 0), k') \<and> n \<le> length ?d \<and>
        (?d \<noteq> [] \<longrightarrow> 0 < n) \<and> k' = k @ take n ?d"
      by (intro exI [of _ "min 2 (length ?d)"] exI [of _ "k @ take 2 ?d"]) simp
  qed
  from fd_write_all [OF this, of "[[1, 2, 3], [4, 5]]" "[]"] show ?thesis
    by (simp add: bvl_size_def eval_nat_numeral)
qed

end
