(* ===== verification/Event_Loop.thy ===== *)
theory Event_Loop
  imports File_Descriptor "HOL-Library.Sublist"
begin

unbundle bit_operations_syntax

text \<open>
  The event loop: \<open>libsponge/util/eventloop.hh\<close> and \<open>eventloop.cc\<close>. The program's state is a
  type variable; callbacks are functions on it that may throw, and a descriptor is looked up in
  it by a number that stands for the shared pointer. \<open>poll\<close> is an argument.
\<close>

section \<open>Rules\<close>

datatype ev_direction = In | Out

definition POLLIN :: u16 where "POLLIN = 0x1"
definition POLLOUT :: u16 where "POLLOUT = 0x4"
definition POLLERR :: u16 where "POLLERR = 0x8"
definition POLLHUP :: u16 where "POLLHUP = 0x10"
definition POLLNVAL :: u16 where "POLLNVAL = 0x20"
definition EINTR :: nat where "EINTR = 4"

fun direction_events :: "ev_direction \<Rightarrow> u16" where
  "direction_events In = POLLIN"
| "direction_events Out = POLLOUT"

record 's ev_rule =
  rl_fd :: nat
  rl_direction :: ev_direction
  rl_callback :: "'s \<Rightarrow> 's result"
  rl_interest :: "'s \<Rightarrow> bool"
  rl_cancel :: "'s \<Rightarrow> 's result"

datatype ev_result = Success | Timeout | Exit

type_synonym 's fd_table = "'s \<Rightarrow> nat \<Rightarrow> fd_wrapper"

definition service_count :: "'s fd_table \<Rightarrow> 's ev_rule \<Rightarrow> 's \<Rightarrow> u32" where
  "service_count fds r s =
     (if rl_direction r = In then fdw_read_count (fds s (rl_fd r)) else fdw_write_count (fds s (rl_fd r)))"

definition add_rule :: "'s ev_rule list \<Rightarrow> nat \<Rightarrow> ev_direction \<Rightarrow> ('s \<Rightarrow> 's result) \<Rightarrow> ('s \<Rightarrow> bool) \<Rightarrow> ('s \<Rightarrow> 's result) \<Rightarrow>
    's ev_rule list" where
  "add_rule rules fd dir callback interest cancel =
     rules @ [\<lparr>rl_fd = fd, rl_direction = dir, rl_callback = callback, rl_interest = interest, rl_cancel = cancel\<rparr>]"

section \<open>The three parts of \<open>wait_next_event\<close>\<close>

text \<open>
  Setting up: rules at the end of their input and rules on closed descriptors are cancelled, the
  others get an entry to poll.
\<close>

fun poll_setup :: "'s fd_table \<Rightarrow> 's ev_rule list \<Rightarrow> 's \<Rightarrow> ('s ev_rule list \<times> (int \<times> u16) list \<times> bool \<times> 's) result" where
  "poll_setup fds [] s = Inr ([], [], False, s)"
| "poll_setup fds (r # rs) s =
     (let w = fds s (rl_fd r)
      in if rl_direction r = In \<and> fdw_eof w
         then (case rl_cancel r s of Inl e \<Rightarrow> Inl e | Inr s \<Rightarrow> poll_setup fds rs s)
         else if fdw_closed w
         then (case rl_cancel r s of Inl e \<Rightarrow> Inl e | Inr s \<Rightarrow> poll_setup fds rs s)
         else let interested = rl_interest r s
              in case poll_setup fds rs s of
                   Inl e \<Rightarrow> Inl e
                 | Inr (rs, pollfds, something_to_poll, s) \<Rightarrow>
                     Inr (r # rs, (fdw_fd w, if interested then direction_events (rl_direction r) else 0) # pollfds,
                       interested \<or> something_to_poll, s))"

text \<open>Going through the results: a rule with the events asked for and those that occurred.\<close>

fun poll_process :: "'s fd_table \<Rightarrow> ('s ev_rule \<times> u16 \<times> u16) list \<Rightarrow> 's \<Rightarrow> ('s ev_rule list \<times> 's) result" where
  "poll_process fds [] s = Inr ([], s)"
| "poll_process fds ((r, events, revents) # rest) s =
     (if revents AND (POLLERR OR POLLNVAL) \<noteq> 0
      then Inl (Runtime_Error ''EventLoop: error on polled file descriptor'')
      else let poll_ready = (revents AND events \<noteq> 0);
               poll_hup = (revents AND POLLHUP \<noteq> 0)
           in if poll_hup \<and> events \<noteq> 0 \<and> \<not> poll_ready
              then (case rl_cancel r s of Inl e \<Rightarrow> Inl e | Inr s \<Rightarrow> poll_process fds rest s)
              else if poll_ready
              then let count_before = service_count fds r s
                   in case rl_callback r s of
                        Inl e \<Rightarrow> Inl e
                      | Inr s \<Rightarrow>
                          if count_before = service_count fds r s \<and> rl_interest r s
                          then Inl (Runtime_Error (''EventLoop: busy wait detected: '' @
                                 ''callback did not read/write fd and is still interested''))
                          else (case poll_process fds rest s of Inl e \<Rightarrow> Inl e | Inr (rs, s) \<Rightarrow> Inr (r # rs, s))
              else (case poll_process fds rest s of Inl e \<Rightarrow> Inl e | Inr (rs, s) \<Rightarrow> Inr (r # rs, s)))"

text \<open>
  The entries after \<open>poll\<close>: the events that occurred were zero before the call, and the kernel
  may have stored others.
\<close>

definition poll_entries :: "'s ev_rule list \<Rightarrow> (int \<times> u16) list \<Rightarrow> u16 list \<Rightarrow> ('s ev_rule \<times> u16 \<times> u16) list" where
  "poll_entries rules pollfds revents = zip rules (zip (map snd pollfds) (revents @ replicate (length pollfds) 0))"

text \<open>
  \<open>poll\<close> gets the entries and the timeout and answers with its outcome and the events of each
  entry. An error other than an interrupted call is caught and then ignored.
\<close>

definition wait_next_event :: "'s fd_table \<Rightarrow> ((int \<times> u16) list \<Rightarrow> int \<Rightarrow> sysret \<times> u16 list) \<Rightarrow> int \<Rightarrow>
    's ev_rule list \<Rightarrow> 's \<Rightarrow> (ev_result \<times> 's ev_rule list \<times> 's) result" where
  "wait_next_event fds poll timeout_ms rules s =
     (case poll_setup fds rules s of
        Inl e \<Rightarrow> Inl e
      | Inr (rules, pollfds, something_to_poll, s) \<Rightarrow>
          if \<not> something_to_poll then Inr (Exit, rules, s)
          else let (ret, revents) = poll pollfds timeout_ms;
                   go = (case poll_process fds (poll_entries rules pollfds revents) s of
                           Inl e \<Rightarrow> Inl e | Inr (rules, s) \<Rightarrow> Inr (Success, rules, s))
               in case system_call ''poll'' ret 0 of
                    Inr n \<Rightarrow> if n = 0 then Inr (Timeout, rules, s) else go
                  | Inl (Unix_Error _ code) \<Rightarrow> if code = EINTR then Inr (Exit, rules, s) else go
                  | Inl _ \<Rightarrow> go)"

section \<open>What survives\<close>

lemma poll_setup_subseq:
  "poll_setup fds rules s = Inr (rules', pfs, some, s') \<Longrightarrow>
     subseq rules' rules \<and> length pfs = length rules' \<and> (some \<longleftrightarrow> (\<exists>p \<in> set pfs. snd p \<noteq> 0))"
proof (induction rules arbitrary: rules' pfs some s s')
  case (Cons r rs)
  have ev: "direction_events d \<noteq> 0" for d
    by (cases d) (simp_all add: POLLIN_def POLLOUT_def)
  show ?case
    using Cons.prems ev
    by (auto simp: Let_def split: if_splits sum.splits prod.splits dest!: Cons.IH)
qed simp

lemma poll_process_subseq:
  "poll_process fds entries s = Inr (rules', s') \<Longrightarrow> subseq rules' (map fst entries)"
proof (induction entries arbitrary: rules' s s')
  case (Cons x rest)
  obtain r events revents where x: "x = (r, events, revents)"
    by (cases x)
  show ?case
    using Cons.prems Cons.IH
    by (auto simp: x Let_def split: if_splits sum.splits prod.splits)
qed simp

text \<open>When no entry has events, nothing is called and every rule is kept.\<close>

lemma poll_process_idle:
  "(\<forall>x \<in> set entries. snd (snd x) = 0) \<Longrightarrow> poll_process fds entries s = Inr (map fst entries, s)"
  by (induction entries) auto

section \<open>Invariants of a turn\<close>

text \<open>A state predicate that every callback and every cancellation keeps holds after a turn.\<close>

definition cancels_keep :: "('s \<Rightarrow> bool) \<Rightarrow> 's ev_rule list \<Rightarrow> bool" where
  "cancels_keep I rules \<longleftrightarrow> (\<forall>r \<in> set rules. \<forall>s s'. I s \<longrightarrow> rl_cancel r s = Inr s' \<longrightarrow> I s')"

definition rules_keep :: "('s \<Rightarrow> bool) \<Rightarrow> 's ev_rule list \<Rightarrow> bool" where
  "rules_keep I rules \<longleftrightarrow> cancels_keep I rules \<and>
     (\<forall>r \<in> set rules. \<forall>s s'. I s \<longrightarrow> rl_callback r s = Inr s' \<longrightarrow> I s')"

lemma rules_keep_mono: "rules_keep I rules \<Longrightarrow> set rules' \<subseteq> set rules \<Longrightarrow> rules_keep I rules'"
  unfolding rules_keep_def cancels_keep_def by blast

lemma cancels_keep_Cons:
  "cancels_keep I (r # rs) \<longleftrightarrow> (\<forall>s s'. I s \<longrightarrow> rl_cancel r s = Inr s' \<longrightarrow> I s') \<and> cancels_keep I rs"
  unfolding cancels_keep_def by simp

lemma rules_keep_Cons:
  "rules_keep I (r # rs) \<longleftrightarrow> (\<forall>s s'. I s \<longrightarrow> (rl_callback r s = Inr s' \<longrightarrow> I s') \<and> (rl_cancel r s = Inr s' \<longrightarrow> I s')) \<and>
     rules_keep I rs"
  unfolding rules_keep_def cancels_keep_def by (simp; blast)

lemma rules_keep_Nil: "rules_keep I []"
  by (simp add: rules_keep_def cancels_keep_def)

lemma poll_setup_inv:
  "poll_setup fds rules s = Inr (rules', pfs, some, s') \<Longrightarrow> cancels_keep I rules \<Longrightarrow> I s \<Longrightarrow> I s'"
proof (induction rules arbitrary: rules' pfs some s s')
  case (Cons r rs)
  have k: "cancels_keep I rs" and c: "I u \<Longrightarrow> rl_cancel r u = Inr u' \<Longrightarrow> I u'" for u u'
    using Cons.prems(2) by (auto simp: cancels_keep_Cons)
  have rest: "poll_setup fds rs u = Inr (rs', ps, b, u') \<Longrightarrow> I u \<Longrightarrow> I u'" for u u' rs' ps b
    using Cons.IH k by blast
  consider u where "rl_cancel r s = Inr u" "poll_setup fds rs u = Inr (rules', pfs, some, s')"
    | rs' ps b where "poll_setup fds rs s = Inr (rs', ps, b, s')"
    using Cons.prems(1) by (auto simp: Let_def split: if_splits sum.splits)
  then show ?case
    using rest c Cons.prems(3) by cases blast+
qed simp

lemma poll_process_Cons:
  assumes "poll_process fds ((r, events, revents) # rest) s = Inr (rules', s')"
  shows "(\<exists>u. rl_cancel r s = Inr u \<and> poll_process fds rest u = Inr (rules', s')) \<or>
    (\<exists>u rs'. rl_callback r s = Inr u \<and> poll_process fds rest u = Inr (rs', s')) \<or>
    (\<exists>rs'. poll_process fds rest s = Inr (rs', s'))"
proof -
  define ready where "ready = (revents AND events \<noteq> 0)"
  define hup where "hup = (revents AND POLLHUP \<noteq> 0 \<and> events \<noteq> 0 \<and> \<not> ready)"
  show ?thesis
    using assms
    by (cases hup; cases ready; cases "rl_cancel r s"; cases "rl_callback r s")
      (auto simp: Let_def ready_def hup_def split: if_splits sum.splits)
qed

lemma poll_process_inv:
  "poll_process fds entries s = Inr (rules', s') \<Longrightarrow> rules_keep I (map fst entries) \<Longrightarrow> I s \<Longrightarrow> I s'"
proof (induction entries arbitrary: rules' s s')
  case (Cons x rest)
  obtain r events revents where x: "x = (r, events, revents)"
    by (cases x)
  have "rules_keep I (r # map fst rest)"
    using Cons.prems(2) by (simp add: x)
  then have k: "rules_keep I (map fst rest)" and c: "\<And>u u'. I u \<Longrightarrow> rl_cancel r u = Inr u' \<Longrightarrow> I u'"
    and b: "\<And>u u'. I u \<Longrightarrow> rl_callback r u = Inr u' \<Longrightarrow> I u'"
    unfolding rules_keep_Cons by (blast, blast, blast)
  note rest = Cons.IH [OF _ k]
  from poll_process_Cons [OF Cons.prems(1) [unfolded x]] consider
      u where "rl_cancel r s = Inr u" "poll_process fds rest u = Inr (rules', s')"
    | u rs' where "rl_callback r s = Inr u" "poll_process fds rest u = Inr (rs', s')"
    | rs' where "poll_process fds rest s = Inr (rs', s')"
    by blast
  then show ?case
  proof cases
    case (1 u)
    show ?thesis by (rule rest [OF 1(2) c [OF Cons.prems(3) 1(1)]])
  next
    case (2 u rs')
    show ?thesis by (rule rest [OF 2(2) b [OF Cons.prems(3) 2(1)]])
  next
    case (3 rs')
    show ?thesis by (rule rest [OF 3 Cons.prems(3)])
  qed
qed simp

lemma poll_entries_rules: "length pfs = length rules \<Longrightarrow> map fst (poll_entries rules pfs revents) = rules"
  by (simp add: poll_entries_def)

lemma wait_next_event_cases:
  assumes "wait_next_event fds poll t rules s = Inr (res, rules', s')"
  obtains rules1 pfs some s1 where "poll_setup fds rules s = Inr (rules1, pfs, some, s1)"
    "res \<noteq> Success \<Longrightarrow> rules' = rules1 \<and> s' = s1"
    "res = Exit \<Longrightarrow> some \<Longrightarrow> \<exists>rv evs. poll pfs t = ((rv, EINTR), evs) \<and> rv < 0"
    "res = Success \<Longrightarrow> poll_process fds (poll_entries rules1 pfs (snd (poll pfs t))) s1 = Inr (rules', s')"
proof -
  obtain x where "poll_setup fds rules s = Inr x"
    using assms by (cases "poll_setup fds rules s") (simp_all add: wait_next_event_def)
  then obtain rules1 pfs some s1 where st: "poll_setup fds rules s = Inr (rules1, pfs, some, s1)"
    by (cases x) auto
  obtain rv en evs where p: "poll pfs t = ((rv, en), evs)"
    by (cases "poll pfs t") auto
  define go where "go = poll_process fds (poll_entries rules1 pfs evs) s1"
  define turn where "turn = (case go of Inl e \<Rightarrow> Inl e | Inr (rules, s) \<Rightarrow> Inr (Success, rules, s))"
  have "wait_next_event fds poll t rules s =
    (if \<not> some then Inr (Exit, rules1, s1)
     else if rv \<ge> 0 \<or> en = 0 then if rv = 0 then Inr (Timeout, rules1, s1) else turn
     else if en = EINTR then Inr (Exit, rules1, s1) else turn)"
    by (simp add: wait_next_event_def st p system_call_def Let_def go_def turn_def)
  moreover have "turn = Inr (res, rules', s') \<longleftrightarrow> go = Inr (rules', s') \<and> res = Success"
    by (auto simp: turn_def split: sum.splits)
  ultimately show thesis
    using assms by (intro that [OF st]) (auto simp: p go_def [symmetric] split: if_splits)
qed

lemma wait_next_event_inv:
  assumes w: "wait_next_event fds poll t rules s = Inr (res, rules', s')" and k: "rules_keep I rules" and i: "I s"
  shows "I s' \<and> subseq rules' rules"
proof (rule wait_next_event_cases [OF w])
  fix rules1 pfs some s1
  assume st: "poll_setup fds rules s = Inr (rules1, pfs, some, s1)"
    and ns: "res \<noteq> Success \<Longrightarrow> rules' = rules1 \<and> s' = s1"
    and ok: "res = Success \<Longrightarrow> poll_process fds (poll_entries rules1 pfs (snd (poll pfs t))) s1 = Inr (rules', s')"
  have ck: "cancels_keep I rules"
    using k unfolding rules_keep_def by blast
  note i1 = poll_setup_inv [where I = I, OF st ck i]
  note sub = poll_setup_subseq [OF st, THEN conjunct1]
  show ?thesis
  proof (cases "res = Success")
    case True
    let ?z = "poll_entries rules1 pfs (snd (poll pfs t))"
    have z: "map fst ?z = rules1"
      by (rule poll_entries_rules) (use poll_setup_subseq [OF st] in blast)
    have fr: "subseq (map fst ?z) rules"
      using sub by (simp only: z)
    have "r \<in> set rules" if "r \<in> set (map fst ?z)" for r
      using list_emb_set [OF fr that] by auto
    then have kz: "rules_keep I (map fst ?z)"
      by (intro rules_keep_mono [OF k] subsetI)
    show ?thesis
      using poll_process_inv [where I = I, OF ok [OF True] kz i1]
        subseq_order.trans [OF poll_process_subseq [OF ok [OF True]] fr] by blast
  next
    case False
    then show ?thesis
      using ns i1 sub by blast
  qed
qed

text \<open>
  When nothing is left to poll for, each rule that survived had no interest: what follows from
  that for a state with the invariant, and is kept by the cancellations, holds at the end.
\<close>

lemma poll_setup_idle:
  assumes "poll_setup fds rules s = Inr (rules', pfs, False, s')" "r \<in> set rules'" "I s" "cancels_keep I rules"
    and int: "\<And>s. I s \<Longrightarrow> \<not> rl_interest r s \<Longrightarrow> P s"
    and keep: "cancels_keep (\<lambda>s. I s \<and> P s) rules"
  shows "P s'"
  using assms(1-4) keep
proof (induction rules arbitrary: rules' pfs s s')
  case (Cons q rs)
  have k: "cancels_keep I rs" "cancels_keep (\<lambda>s. I s \<and> P s) rs"
    and c: "\<And>u u'. I u \<Longrightarrow> rl_cancel q u = Inr u' \<Longrightarrow> I u'"
    using Cons.prems(4,5) unfolding cancels_keep_Cons by (blast, blast, blast)
  note rest = Cons.IH [OF _ _ _ k]
  consider u where "rl_cancel q s = Inr u" "poll_setup fds rs u = Inr (rules', pfs, False, s')"
    | rs' ps where "\<not> rl_interest q s" "rules' = q # rs'" "poll_setup fds rs s = Inr (rs', ps, False, s')"
    using Cons.prems(1) by (auto simp: Let_def split: if_splits sum.splits)
  then show ?case
  proof cases
    case (1 u)
    show ?thesis
      by (rule rest [OF 1(2) Cons.prems(2) c [OF Cons.prems(3) 1(1)]])
  next
    case (2 rs' ps)
    show ?thesis
    proof (cases "r \<in> set rs'")
      case True
      show ?thesis
        by (rule rest [OF 2(3) True Cons.prems(3)])
    next
      case False
      then have "r = q"
        using 2(2) Cons.prems(2) by simp
      then have "I s \<and> P s"
        using int [OF Cons.prems(3)] 2(1) Cons.prems(3) by blast
      from poll_setup_inv [where I = "\<lambda>s. I s \<and> P s", OF 2(3) k(2) this] show ?thesis
        by blast
    qed
  qed
qed simp

lemma wait_next_event_subset:
  assumes "wait_next_event fds poll t rules s = Inr (res, rules', s')"
  shows "set rules' \<subseteq> set rules"
proof -
  have "subseq rules' rules"
    using wait_next_event_inv [where I = "\<lambda>_. True", OF assms] by (simp add: rules_keep_def cancels_keep_def)
  from list_emb_set [OF this] show ?thesis
    by auto
qed

section \<open>Assertions along a turn\<close>

text \<open>
  An assertion about the rules gone through, those to come and the state, through the two loops of a turn.
\<close>

lemma poll_setup_steps:
  assumes "poll_setup fds rules s = Inr (rules', pfs, some, s')" "Q kept rules s"
    and drop: "\<And>kept r rest s u. Q kept (r # rest) s \<Longrightarrow>
      rl_direction r = In \<and> fdw_eof (fds s (rl_fd r)) \<or> fdw_closed (fds s (rl_fd r)) \<Longrightarrow> rl_cancel r s = Inr u \<Longrightarrow> Q kept rest u"
    and keep: "\<And>kept r rest s. Q kept (r # rest) s \<Longrightarrow> rl_direction r = In \<Longrightarrow> \<not> fdw_eof (fds s (rl_fd r)) \<Longrightarrow> Q (kept @ [r]) rest s"
      "\<And>kept r rest s. Q kept (r # rest) s \<Longrightarrow> \<not> fdw_closed (fds s (rl_fd r)) \<Longrightarrow> rl_direction r = Out \<Longrightarrow> Q (kept @ [r]) rest s"
  shows "Q (kept @ rules') [] s'"
  using assms(1,2)
proof (induction rules arbitrary: kept rules' pfs some s)
  case (Cons r rs)
  let ?gone = "rl_direction r = In \<and> fdw_eof (fds s (rl_fd r)) \<or> fdw_closed (fds s (rl_fd r))"
  consider u where ?gone "rl_cancel r s = Inr u" "poll_setup fds rs u = Inr (rules', pfs, some, s')"
    | rs' ps b where "\<not> ?gone" "rules' = r # rs'" "poll_setup fds rs s = Inr (rs', ps, b, s')"
    using Cons.prems(1) by (auto simp: Let_def split: if_splits sum.splits)
  then show ?case
  proof cases
    case (1 u)
    show ?thesis
      by (rule Cons.IH [OF 1(3) drop [OF Cons.prems(2) 1(1,2)]])
  next
    case (2 rs' ps b)
    have "Q (kept @ [r]) rs s"
      using keep [OF Cons.prems(2)] 2(1) by (cases "rl_direction r") auto
    from Cons.IH [OF 2(3) this] show ?thesis
      by (simp add: 2(2))
  qed
qed simp

lemma poll_process_steps:
  assumes "poll_process fds entries s = Inr (rules', s')" "Q kept entries s"
    and cancel: "\<And>kept r ev rv rest s u. Q kept ((r, ev, rv) # rest) s \<Longrightarrow> rv AND POLLHUP \<noteq> 0 \<Longrightarrow> ev \<noteq> 0 \<Longrightarrow> rv AND ev = 0 \<Longrightarrow>
      rl_cancel r s = Inr u \<Longrightarrow> Q kept rest u"
    and call: "\<And>kept r ev rv rest s u. Q kept ((r, ev, rv) # rest) s \<Longrightarrow> rv AND ev \<noteq> 0 \<Longrightarrow> rl_callback r s = Inr u \<Longrightarrow> Q (kept @ [r]) rest u"
    and skip: "\<And>kept r ev rv rest s. Q kept ((r, ev, rv) # rest) s \<Longrightarrow> Q (kept @ [r]) rest s"
  shows "Q (kept @ rules') [] s'"
  using assms(1,2)
proof (induction entries arbitrary: kept rules' s)
  case (Cons x rest)
  obtain r ev rv where x: "x = (r, ev, rv)"
    by (cases x)
  consider u where "rv AND POLLHUP \<noteq> 0" "ev \<noteq> 0" "rv AND ev = 0" "rl_cancel r s = Inr u" "poll_process fds rest u = Inr (rules', s')"
    | u rs' where "rv AND ev \<noteq> 0" "rl_callback r s = Inr u" "rules' = r # rs'" "poll_process fds rest u = Inr (rs', s')"
    | rs' where "rules' = r # rs'" "poll_process fds rest s = Inr (rs', s')"
    using Cons.prems(1) by (auto simp: x Let_def split: if_splits sum.splits)
  then show ?case
  proof cases
    case (1 u)
    show ?thesis
      by (rule Cons.IH [OF 1(5) cancel [OF Cons.prems(2) [unfolded x] 1(1-4)]])
  next
    case (2 u rs')
    from Cons.IH [OF 2(4) call [OF Cons.prems(2) [unfolded x] 2(1,2)]] show ?thesis
      by (simp add: 2(3))
  next
    case (3 rs')
    from Cons.IH [OF 3(2) skip [OF Cons.prems(2) [unfolded x]]] show ?thesis
      by (simp add: 3(1))
  qed
qed simp

text \<open>The events asked for: those of the direction of the rule, and only when it was interested.\<close>

lemma poll_setup_events:
  "poll_setup fds rules s = Inr (rules', pfs, some, s') \<Longrightarrow> cancels_keep I rules \<Longrightarrow> I s \<Longrightarrow>
     list_all2 (\<lambda>r p. snd p \<noteq> 0 \<longrightarrow> snd p = direction_events (rl_direction r) \<and> (\<exists>s. I s \<and> rl_interest r s)) rules' pfs"
proof (induction rules arbitrary: rules' pfs some s s')
  case (Cons r rs)
  have k: "cancels_keep I rs" and c: "I u \<Longrightarrow> rl_cancel r u = Inr u' \<Longrightarrow> I u'" for u u'
    using Cons.prems(2) by (auto simp: cancels_keep_Cons)
  consider u where "rl_cancel r s = Inr u" "poll_setup fds rs u = Inr (rules', pfs, some, s')"
    | rs' ps b where "rules' = r # rs'" "pfs = (fdw_fd (fds s (rl_fd r)), if rl_interest r s then direction_events (rl_direction r) else 0) # ps"
        "poll_setup fds rs s = Inr (rs', ps, b, s')"
    using Cons.prems(1) by (auto simp: Let_def split: if_splits sum.splits)
  then show ?case
  proof cases
    case (1 u)
    show ?thesis
      by (rule Cons.IH [OF 1(2) k c [OF Cons.prems(3) 1(1)]])
  next
    case (2 rs' ps b)
    show ?thesis
      using Cons.IH [OF 2(3) k Cons.prems(3)] Cons.prems(3) unfolding 2(1,2) by auto
  qed
qed simp

lemma poll_entries_nth:
  assumes "(r, ev, rv) \<in> set (poll_entries rules pfs revents)"
  obtains i where "i < length rules" "i < length pfs" "r = rules ! i" "ev = snd (pfs ! i)"
    "rv \<noteq> 0 \<longrightarrow> i < length revents \<and> rv = revents ! i"
  using assms by (auto simp: poll_entries_def set_zip nth_append split: if_splits)

text \<open>
  Whether no descriptor hangs up while the loop waits to write to it: an entry that asks for \<open>POLLOUT\<close> is not reported
  as hung up without being writable.
\<close>

definition writers_stay :: "((int \<times> u16) list \<Rightarrow> int \<Rightarrow> sysret \<times> u16 list) \<Rightarrow> bool" where
  "writers_stay poll \<longleftrightarrow> (\<forall>pfs t i. i < length pfs \<longrightarrow> i < length (snd (poll pfs t)) \<longrightarrow> snd (pfs ! i) = POLLOUT \<longrightarrow>
     (snd (poll pfs t) ! i) AND POLLHUP = 0 \<or> (snd (poll pfs t) ! i) AND POLLOUT \<noteq> 0)"

text \<open>A rule that calls back was of interest in a state with the invariant; the others do not matter.\<close>

lemma wait_next_event_interested:
  fixes rules :: "'s ev_rule list"
  assumes w: "wait_next_event fds poll t rules s = Inr (res, rules', s')" and i: "I s" and ck: "cancels_keep I rules"
    and call: "\<And>r s0 s s'. r \<in> set rules \<Longrightarrow> I s0 \<Longrightarrow> rl_interest r s0 \<Longrightarrow> I s \<Longrightarrow> rl_callback r s = Inr s' \<Longrightarrow> I s'"
  shows "I s'"
proof (rule wait_next_event_cases [OF w])
  fix rules1 pfs some s1
  assume st: "poll_setup fds rules s = Inr (rules1, pfs, some, s1)"
    and ns: "res \<noteq> Success \<Longrightarrow> rules' = rules1 \<and> s' = s1"
    and ok: "res = Success \<Longrightarrow> poll_process fds (poll_entries rules1 pfs (snd (poll pfs t))) s1 = Inr (rules', s')"
  have i1: "I s1"
    by (rule poll_setup_inv [OF st ck i])
  have sub: "set rules1 \<subseteq> set rules"
    using list_emb_set [OF poll_setup_subseq [OF st, THEN conjunct1]] by auto
  note ev = poll_setup_events [OF st ck i]
  let ?ok = "\<lambda>(r, ev :: u16, rv :: u16). r \<in> set rules \<and> (ev \<noteq> 0 \<longrightarrow> (\<exists>s. I s \<and> rl_interest r s))"
  have e: "?ok x" if x: "x \<in> set (poll_entries rules1 pfs (snd (poll pfs t)))" for x
  proof -
    obtain r ev rv where xe: "x = (r, ev, rv)"
      by (cases x)
    from poll_entries_nth [OF x [unfolded xe]] obtain j where "j < length rules1" "j < length pfs" "r = rules1 ! j" "ev = snd (pfs ! j)" .
    then show ?thesis
      using ev sub by (auto simp: xe list_all2_conv_all_nth)
  qed
  show ?thesis
  proof (cases "res = Success")
    case True
    define Q where "Q = (\<lambda>(kept :: 's ev_rule list) entries s. I s \<and> (\<forall>x \<in> set entries. ?ok x))"
    have "Q [] (poll_entries rules1 pfs (snd (poll pfs t))) s1"
      unfolding Q_def using i1 e by blast
    then have "Q ([] @ rules') [] s'"
    proof (rule poll_process_steps [where Q = Q, OF ok [OF True]], goal_cases)
      case (1 kept r ev rv rest s u)
      then show ?case using ck unfolding cancels_keep_def Q_def by auto
    next
      case (2 kept r ev rv rest s u)
      then have "ev \<noteq> 0" by auto
      then show ?case using 2 call [of r _ s u] unfolding Q_def by auto
    next
      case (3 kept r ev rv rest s)
      then show ?case unfolding Q_def by auto
    qed
    then show ?thesis unfolding Q_def by blast
  next
    case False
    then show ?thesis using ns i1 by blast
  qed
qed

section \<open>Property\<close>

text \<open>
  When \<open>poll\<close> fails with any error but an interruption, the turn is not reported as failed:
  it counts as a success that called nothing, and the rules and the state are those after the
  set-up. So a loop on such a descriptor set turns without end and without an exception.
\<close>

theorem poll_error_ignored:
  assumes "poll_setup fds rules s = Inr (rules', pollfds, True, s')" "poll pollfds t = ((rv, en), revents)"
    "rv < 0" "en \<noteq> 0" "en \<noteq> EINTR" "revents = replicate (length pollfds) 0"
  shows "wait_next_event fds poll t rules s = Inr (Success, rules', s')"
proof -
  let ?z = "poll_entries rules' pollfds revents"
  have l: "length pollfds = length rules'"
    using poll_setup_subseq [OF assms(1)] by blast
  have "\<forall>x \<in> set ?z. snd (snd x) = 0"
    using assms(6) by (auto simp: poll_entries_def dest!: set_zip_rightD)
  moreover have "map fst ?z = rules'"
    by (rule poll_entries_rules [OF l])
  ultimately have "poll_process fds ?z s' = Inr (rules', s')"
    by (metis poll_process_idle)
  then show ?thesis
    using assms(1-5) by (simp add: wait_next_event_def system_call_def Let_def)
qed

text \<open>Applied to one reader of an open descriptor whose \<open>poll\<close> fails with \<open>EINVAL\<close>.\<close>

definition demo_fd :: "unit fd_table" where
  "demo_fd s i = \<lparr>fdw_fd = 3, fdw_eof = False, fdw_closed = False, fdw_read_count = 0, fdw_write_count = 0\<rparr>"

theorem poll_error_ignored_witness:
  "let r = \<lparr>rl_fd = 0, rl_direction = In, rl_callback = Inr, rl_interest = (\<lambda>_. True), rl_cancel = Inr\<rparr>
   in wait_next_event demo_fd (\<lambda>_ _. ((-1, 22), [0])) 100 [r] () = Inr (Success, [r], ())"
  unfolding Let_def
  by (rule poll_error_ignored [where pollfds = "[(3, POLLIN)]" and rv = "-1" and en = 22 and revents = "[0]"])
    (simp_all add: demo_fd_def EINTR_def)

end
