(* ===== verification/Kernel_Calls.thy ===== *)
theory Kernel_Calls
  imports File_Descriptor
begin

text \<open>
  A kernel with a state of its own, for the programs that read and write descriptors again and
  again, and what is documented of its calls over the bytes that went through a descriptor.
\<close>

section \<open>Calls\<close>

text \<open>The kernel: its calls on the descriptors, as functions on a state of its own.\<close>

record 'k kernel_calls =
  kc_read :: "nat \<Rightarrow> nat \<Rightarrow> 'k \<Rightarrow> (sysret \<times> byte list) \<times> 'k"
  kc_writev :: "nat \<Rightarrow> 'k \<Rightarrow> (byte list \<times> nat) list \<Rightarrow> sysret \<times> 'k"
  kc_shutdown :: "nat \<Rightarrow> int \<Rightarrow> 'k \<Rightarrow> sysret \<times> 'k"
  kc_close :: "nat \<Rightarrow> 'k \<Rightarrow> sysret \<times> 'k"

text \<open>Reading a descriptor, with the state of the kernel after the call.\<close>

definition kernel_read :: "'k kernel_calls \<Rightarrow> nat \<Rightarrow> nat \<Rightarrow> 'k \<Rightarrow> fd_wrapper \<Rightarrow> byte list result \<times> fd_wrapper \<times> 'k" where
  "kernel_read K fd limit k w =
     (let (r, w) = fd_read limit (\<lambda>n. fst (kc_read K fd n k)) w
      in (r, w, snd (kc_read K fd (min BUFFER_SIZE limit) k)))"

section \<open>What the kernel was given and gave\<close>

text \<open>
  What is documented of the calls, over the bytes \<open>got fd\<close> that were read from a descriptor and
  the bytes \<open>put fd\<close> that were written to it: a read that returns \<open>n\<close> delivers \<open>n\<close> bytes, a
  write that returns \<open>n\<close> takes the first \<open>n\<close> bytes, and no call touches another descriptor.
\<close>

definition honest_read :: "'k kernel_calls \<Rightarrow> (nat \<Rightarrow> 'k \<Rightarrow> byte list) \<Rightarrow> (nat \<Rightarrow> 'k \<Rightarrow> byte list) \<Rightarrow> bool" where
  "honest_read K got put \<longleftrightarrow> (\<forall>fd n k. let ((ret, data), k') = kc_read K fd n k
     in (fst ret \<ge> 0 \<longrightarrow> nat (fst ret) \<le> length data) \<and> (\<forall>i. put i k' = put i k) \<and>
        (\<forall>i. got i k' = got i k @ (if i = fd \<and> fst ret \<ge> 0 then take (nat (fst ret)) data else [])))"

definition honest_write :: "'k kernel_calls \<Rightarrow> (nat \<Rightarrow> 'k \<Rightarrow> byte list) \<Rightarrow> (nat \<Rightarrow> 'k \<Rightarrow> byte list) \<Rightarrow> bool" where
  "honest_write K got put \<longleftrightarrow> (\<forall>fd k iov. let (ret, k') = kc_writev K fd k iov
     in (\<forall>i. got i k' = got i k) \<and>
        (\<forall>i. put i k' = put i k @ (if i = fd \<and> fst ret \<ge> 0 then take (nat (fst ret)) (concat (map fst iov)) else [])))"

definition honest_close :: "'k kernel_calls \<Rightarrow> (nat \<Rightarrow> 'k \<Rightarrow> byte list) \<Rightarrow> (nat \<Rightarrow> 'k \<Rightarrow> byte list) \<Rightarrow> bool" where
  "honest_close K got put \<longleftrightarrow>
     (\<forall>fd how k i. got i (snd (kc_shutdown K fd how k)) = got i k \<and> put i (snd (kc_shutdown K fd how k)) = put i k) \<and>
     (\<forall>fd k i. got i (snd (kc_close K fd k)) = got i k \<and> put i (snd (kc_close K fd k)) = put i k)"

definition honest_kernel :: "'k kernel_calls \<Rightarrow> (nat \<Rightarrow> 'k \<Rightarrow> byte list) \<Rightarrow> (nat \<Rightarrow> 'k \<Rightarrow> byte list) \<Rightarrow> bool" where
  "honest_kernel K got put \<longleftrightarrow> honest_read K got put \<and> honest_write K got put \<and> honest_close K got put"

lemma kernel_read_ok:
  assumes h: "honest_kernel K got put" and r: "kernel_read K fd limit k w = (Inr data, w', k')"
  shows "length data \<le> limit" "got i k' = got i k @ (if i = fd then data else [])" "put i k' = put i k"
proof -
  obtain v en d k1 where e: "kc_read K fd (min BUFFER_SIZE limit) k = (((v, en), d), k1)"
    by (metis prod.exhaust)
  have k1: "k' = k1" and v: "0 \<le> v" "v \<le> int (min BUFFER_SIZE limit)" and d: "data = take (nat v) d"
    using r by (auto simp: kernel_read_def fd_read_def e system_call_def Let_def split: if_splits)
  have "honest_read K got put"
    using h unfolding honest_kernel_def by blast
  from this [unfolded honest_read_def, THEN spec, THEN spec, THEN spec, of fd "min BUFFER_SIZE limit" k]
  have g: "nat v \<le> length d" "put i k' = put i k" "got i k' = got i k @ (if i = fd then take (nat v) d else [])"
    using v(1) by (simp_all add: e k1)
  show "length data \<le> limit" "got i k' = got i k @ (if i = fd then data else [])" "put i k' = put i k"
    using g v(2) d by auto
qed

lemma fd_write_once:
  assumes h: "honest_kernel K got put"
    and r: "fd_write (kc_writev K fd) (bvl_from_view d) False k w = (Inr n, k', w')"
  shows "n \<le> length d" "put i k' = put i k @ (if i = fd then take n d else [])" "got i k' = got i k"
proof -
  obtain v en k1 where e: "kc_writev K fd k [(d, length d)] = ((v, en), k1)"
    by (metis prod.exhaust)
  have k1: "k' = k1" and v: "v \<ge> 0" "v \<le> int (length d)" "n = nat v"
    using r
    by (auto simp: fd_write_def fd_write_loop.simps [of _ False] bvl_from_view_def bvl_as_iovecs_def bvl_size_def e
        system_call_def Let_def split: if_splits sum.splits)
  have "honest_write K got put"
    using h unfolding honest_kernel_def by blast
  from this [unfolded honest_write_def, THEN spec, THEN spec, THEN spec, of fd k "[(d, length d)]"]
  have "got i k' = got i k" "put i k' = put i k @ (if i = fd then take n d else [])"
    using v by (simp_all add: e k1)
  then show "n \<le> length d" "put i k' = put i k @ (if i = fd then take n d else [])" "got i k' = got i k"
    using v by auto
qed

lemma honest_closing:
  assumes "honest_kernel K got put"
  shows "kc_shutdown K fd how k = (ret, k') \<Longrightarrow> got i k' = got i k \<and> put i k' = put i k"
    "kc_close K fd k = (ret, k') \<Longrightarrow> got i k' = got i k \<and> put i k' = put i k"
  using assms unfolding honest_kernel_def honest_close_def by (metis snd_conv)+

end
