(* ===== verification/Stream_Copy.thy ===== *)
theory Stream_Copy
  imports Event_Loop Kernel_Calls Byte_Stream
begin

unbundle bit_operations_syntax

text \<open>
  \<open>apps/bidirectional_stream_copy.cc\<close>: standard input is copied to a socket through one byte
  stream and the socket to standard output through another, by four rules of an event loop.
\<close>

section \<open>State\<close>

definition max_copy_length :: nat where "max_copy_length = 65536"
definition buffer_size :: nat where "buffer_size = 1048576"

definition STDIN :: nat where "STDIN = 0"
definition STDOUT :: nat where "STDOUT = 1"
definition SOCKET :: nat where "SOCKET = 2"

record 'k copy_state =
  cs_input :: fd_wrapper
  cs_output :: fd_wrapper
  cs_socket :: fd_wrapper
  cs_outbound :: byte_stream
  cs_inbound :: byte_stream
  cs_outbound_shutdown :: bool
  cs_inbound_shutdown :: bool
  cs_kernel :: 'k

definition copy_fds :: "'k copy_state fd_table" where
  "copy_fds s i = (if i = STDIN then cs_input s else if i = STDOUT then cs_output s else cs_socket s)"

section \<open>The rules\<close>

definition stdin_callback :: "'k kernel_calls \<Rightarrow> 'k copy_state \<Rightarrow> 'k copy_state result" where
  "stdin_callback K s =
     (let (r, w, k) = kernel_read K STDIN (bs_remaining_capacity (cs_outbound s)) (cs_kernel s) (cs_input s)
      in case r of
           Inl e \<Rightarrow> Inl e
         | Inr data \<Rightarrow>
             let outbound = snd (bs_write data (cs_outbound s));
                 outbound = (if fdw_eof w then bs_end_input outbound else outbound)
             in Inr (s\<lparr>cs_outbound := outbound, cs_input := w, cs_kernel := k\<rparr>))"

definition stdin_interest :: "'k copy_state \<Rightarrow> bool" where
  "stdin_interest s \<longleftrightarrow>
     \<not> bs_error (cs_outbound s) \<and> bs_remaining_capacity (cs_outbound s) > 0 \<and> \<not> bs_error (cs_inbound s)"

definition outbound_end :: "'k copy_state \<Rightarrow> 'k copy_state result" where
  "outbound_end s = Inr (s\<lparr>cs_outbound := bs_end_input (cs_outbound s)\<rparr>)"

definition socket_out_callback :: "'k kernel_calls \<Rightarrow> 'k copy_state \<Rightarrow> 'k copy_state result" where
  "socket_out_callback K s =
     (let bytes_to_write = min max_copy_length (bs_buffer_size (cs_outbound s));
          (r, k, w) = fd_write (kc_writev K SOCKET) (bvl_from_view (bs_peek_output bytes_to_write (cs_outbound s)))
                        False (cs_kernel s) (cs_socket s)
      in case r of
           Inl e \<Rightarrow> Inl e
         | Inr bytes_written \<Rightarrow>
             let outbound = bs_pop_output bytes_written (cs_outbound s);
                 s = s\<lparr>cs_outbound := outbound, cs_socket := w, cs_kernel := k\<rparr>
             in if bs_eof outbound
                then let (ret, k) = kc_shutdown K SOCKET SHUT_WR k
                     in case socket_shutdown ret SHUT_WR w of
                          (Inl e, _) \<Rightarrow> Inl e
                        | (Inr _, w) \<Rightarrow> Inr (s\<lparr>cs_socket := w, cs_kernel := k, cs_outbound_shutdown := True\<rparr>)
                else Inr s)"

definition socket_out_interest :: "'k copy_state \<Rightarrow> bool" where
  "socket_out_interest s \<longleftrightarrow>
     \<not> bs_buffer_empty (cs_outbound s) \<or> bs_eof (cs_outbound s) \<and> \<not> cs_outbound_shutdown s"

definition socket_in_callback :: "'k kernel_calls \<Rightarrow> 'k copy_state \<Rightarrow> 'k copy_state result" where
  "socket_in_callback K s =
     (let (r, w, k) = kernel_read K SOCKET (bs_remaining_capacity (cs_inbound s)) (cs_kernel s) (cs_socket s)
      in case r of
           Inl e \<Rightarrow> Inl e
         | Inr data \<Rightarrow>
             let inbound = snd (bs_write data (cs_inbound s));
                 inbound = (if fdw_eof w then bs_end_input inbound else inbound)
             in Inr (s\<lparr>cs_inbound := inbound, cs_socket := w, cs_kernel := k\<rparr>))"

definition socket_in_interest :: "'k copy_state \<Rightarrow> bool" where
  "socket_in_interest s \<longleftrightarrow>
     \<not> bs_error (cs_inbound s) \<and> bs_remaining_capacity (cs_inbound s) > 0 \<and> \<not> bs_error (cs_outbound s)"

definition inbound_end :: "'k copy_state \<Rightarrow> 'k copy_state result" where
  "inbound_end s = Inr (s\<lparr>cs_inbound := bs_end_input (cs_inbound s)\<rparr>)"

definition stdout_callback :: "'k kernel_calls \<Rightarrow> 'k copy_state \<Rightarrow> 'k copy_state result" where
  "stdout_callback K s =
     (let bytes_to_write = min max_copy_length (bs_buffer_size (cs_inbound s));
          (r, k, w) = fd_write (kc_writev K STDOUT) (bvl_from_view (bs_peek_output bytes_to_write (cs_inbound s)))
                        False (cs_kernel s) (cs_output s)
      in case r of
           Inl e \<Rightarrow> Inl e
         | Inr bytes_written \<Rightarrow>
             let inbound = bs_pop_output bytes_written (cs_inbound s);
                 s = s\<lparr>cs_inbound := inbound, cs_output := w, cs_kernel := k\<rparr>
             in if bs_eof inbound
                then let (ret, k) = kc_close K STDOUT k
                     in case fdw_close ret w of
                          (Inl e, _) \<Rightarrow> Inl e
                        | (Inr _, w) \<Rightarrow> Inr (s\<lparr>cs_output := w, cs_kernel := k, cs_inbound_shutdown := True\<rparr>)
                else Inr s)"

definition stdout_interest :: "'k copy_state \<Rightarrow> bool" where
  "stdout_interest s \<longleftrightarrow>
     \<not> bs_buffer_empty (cs_inbound s) \<or> bs_eof (cs_inbound s) \<and> \<not> cs_inbound_shutdown s"

definition copy_rules :: "'k kernel_calls \<Rightarrow> 'k copy_state ev_rule list" where
  "copy_rules K =
     (let rules = add_rule [] STDIN In (stdin_callback K) stdin_interest outbound_end;
          rules = add_rule rules SOCKET Out (socket_out_callback K) socket_out_interest outbound_end;
          rules = add_rule rules SOCKET In (socket_in_callback K) socket_in_interest inbound_end
      in add_rule rules STDOUT Out (stdout_callback K) stdout_interest inbound_end)"

section \<open>The loop\<close>

text \<open>
  The loop runs for as long as \<open>poll\<close> answers: one answer of the list per turn. The result says
  whether the loop returned, with the rules that are left and the state.
\<close>

fun copy_loop :: "((int \<times> u16) list \<Rightarrow> int \<Rightarrow> sysret \<times> u16 list) list \<Rightarrow> 'k copy_state ev_rule list \<Rightarrow> 'k copy_state \<Rightarrow>
    (bool \<times> 'k copy_state ev_rule list \<times> 'k copy_state) result" where
  "copy_loop [] rules s = Inr (False, rules, s)"
| "copy_loop (poll # polls) rules s =
     (case wait_next_event copy_fds poll (-1) rules s of
        Inl e \<Rightarrow> Inl e
      | Inr (res, rules, s) \<Rightarrow> if res = Exit then Inr (True, rules, s) else copy_loop polls rules s)"

definition copy_start :: "fd_wrapper \<Rightarrow> 'k \<Rightarrow> 'k copy_state result" where
  "copy_start socket k =
     (case fdw_new 0 of Inl e \<Rightarrow> Inl e | Inr input \<Rightarrow>
      case fdw_new 1 of Inl e \<Rightarrow> Inl e | Inr output \<Rightarrow>
        Inr \<lparr>cs_input = input, cs_output = output, cs_socket = socket, cs_outbound = byte_stream_new buffer_size,
             cs_inbound = byte_stream_new buffer_size, cs_outbound_shutdown = False, cs_inbound_shutdown = False,
             cs_kernel = k\<rparr>)"

text \<open>The outcomes of the two \<open>fcntl\<close> calls per descriptor are arguments.\<close>

definition bidirectional_stream_copy :: "'k kernel_calls \<Rightarrow> (nat \<Rightarrow> sysret) \<Rightarrow> (nat \<Rightarrow> u32 \<Rightarrow> sysret) \<Rightarrow>
    ((int \<times> u16) list \<Rightarrow> int \<Rightarrow> sysret \<times> u16 list) list \<Rightarrow> fd_wrapper \<Rightarrow> 'k \<Rightarrow>
    (bool \<times> 'k copy_state ev_rule list \<times> 'k copy_state) result" where
  "bidirectional_stream_copy K getfl setfl polls socket k =
     (case copy_start socket k of Inl e \<Rightarrow> Inl e | Inr s \<Rightarrow>
      case fd_set_blocking False (getfl SOCKET) (setfl SOCKET) of Inl e \<Rightarrow> Inl e | Inr _ \<Rightarrow>
      case fd_set_blocking False (getfl STDIN) (setfl STDIN) of Inl e \<Rightarrow> Inl e | Inr _ \<Rightarrow>
      case fd_set_blocking False (getfl STDOUT) (setfl STDOUT) of Inl e \<Rightarrow> Inl e | Inr _ \<Rightarrow>
        copy_loop polls (copy_rules K) s)"

section \<open>The invariant\<close>

definition copy_inv :: "(nat \<Rightarrow> 'k \<Rightarrow> byte list) \<Rightarrow> (nat \<Rightarrow> 'k \<Rightarrow> byte list) \<Rightarrow> 'k copy_state \<Rightarrow> bool" where
  "copy_inv got put s \<longleftrightarrow>
     bs_inv (cs_outbound s) \<and> bs_inv (cs_inbound s) \<and>
     bs_maximumcapacity (cs_outbound s) = buffer_size \<and> bs_maximumcapacity (cs_inbound s) = buffer_size \<and>
     got STDIN (cs_kernel s) = put SOCKET (cs_kernel s) @ bs_que (cs_outbound s) \<and>
     got SOCKET (cs_kernel s) = put STDOUT (cs_kernel s) @ bs_que (cs_inbound s)"

lemma fd_numbers:
  "STDIN \<noteq> STDOUT" "STDIN \<noteq> SOCKET" "STDOUT \<noteq> SOCKET" "STDOUT \<noteq> STDIN" "SOCKET \<noteq> STDIN" "SOCKET \<noteq> STDOUT"
  by (simp_all add: STDIN_def STDOUT_def SOCKET_def)

lemma copy_inv_stdin:
  assumes h: "honest_kernel K got put" and i: "copy_inv got put s" and c: "stdin_callback K s = Inr s'"
  shows "copy_inv got put s'"
proof -
  obtain data w k where r: "kernel_read K STDIN (bs_remaining_capacity (cs_outbound s)) (cs_kernel s) (cs_input s) = (Inr data, w, k)"
    using c by (auto simp: stdin_callback_def split: prod.splits sum.splits)
  note rd = kernel_read_ok [OF h r]
  have "take (bs_capacity (cs_outbound s)) data = data"
    using rd(1) by (simp add: bs_remaining_capacity_def)
  then show ?thesis
    using c i rd(2,3) by (auto simp: stdin_callback_def r copy_inv_def fd_numbers Let_def)
qed

lemma copy_inv_socket_in:
  assumes h: "honest_kernel K got put" and i: "copy_inv got put s" and c: "socket_in_callback K s = Inr s'"
  shows "copy_inv got put s'"
proof -
  obtain data w k where r: "kernel_read K SOCKET (bs_remaining_capacity (cs_inbound s)) (cs_kernel s) (cs_socket s) = (Inr data, w, k)"
    using c by (auto simp: socket_in_callback_def split: prod.splits sum.splits)
  note rd = kernel_read_ok [OF h r]
  have "take (bs_capacity (cs_inbound s)) data = data"
    using rd(1) by (simp add: bs_remaining_capacity_def)
  then show ?thesis
    using c i rd(2,3) by (auto simp: socket_in_callback_def r copy_inv_def fd_numbers Let_def)
qed

lemma take_take_drop: "n \<le> length (take m xs) \<Longrightarrow> take n (take m xs) @ drop n xs = xs"
  by (simp add: min_absorb1)

lemma copy_inv_socket_out:
  assumes h: "honest_kernel K got put" and i: "copy_inv got put s" and c: "socket_out_callback K s = Inr s'"
  shows "copy_inv got put s'"
proof -
  define m where "m = min max_copy_length (bs_buffer_size (cs_outbound s))"
  obtain n k w where r: "fd_write (kc_writev K SOCKET) (bvl_from_view (take m (bs_que (cs_outbound s))))
      False (cs_kernel s) (cs_socket s) = (Inr n, k, w)"
    using c by (auto simp: socket_out_callback_def m_def [symmetric] Let_def split: prod.splits sum.splits)
  note wr = fd_write_once [OF h r] and q = take_take_drop [of n m "bs_que (cs_outbound s)"]
  define s1 where "s1 = s\<lparr>cs_outbound := bs_pop_output n (cs_outbound s), cs_socket := w, cs_kernel := k\<rparr>"
  have i1: "copy_inv got put (s1\<lparr>cs_socket := w', cs_kernel := k', cs_outbound_shutdown := b\<rparr>)"
    if "\<And>i. got i k' = got i k \<and> put i k' = put i k" for w' k' b
    using i wr q that by (simp add: copy_inv_def s1_def fd_numbers)
  have "copy_inv got put s1"
    using i wr q by (simp add: copy_inv_def s1_def fd_numbers)
  then show ?thesis
    using c i1 honest_closing(1) [OF h]
    by (auto simp: socket_out_callback_def m_def [symmetric] r Let_def s1_def [symmetric] split: if_splits prod.splits sum.splits)
qed

lemma copy_inv_stdout:
  assumes h: "honest_kernel K got put" and i: "copy_inv got put s" and c: "stdout_callback K s = Inr s'"
  shows "copy_inv got put s'"
proof -
  define m where "m = min max_copy_length (bs_buffer_size (cs_inbound s))"
  obtain n k w where r: "fd_write (kc_writev K STDOUT) (bvl_from_view (take m (bs_que (cs_inbound s))))
      False (cs_kernel s) (cs_output s) = (Inr n, k, w)"
    using c by (auto simp: stdout_callback_def m_def [symmetric] Let_def split: prod.splits sum.splits)
  note wr = fd_write_once [OF h r] and q = take_take_drop [of n m "bs_que (cs_inbound s)"]
  define s1 where "s1 = s\<lparr>cs_inbound := bs_pop_output n (cs_inbound s), cs_output := w, cs_kernel := k\<rparr>"
  have i1: "copy_inv got put (s1\<lparr>cs_output := w', cs_kernel := k', cs_inbound_shutdown := b\<rparr>)"
    if "\<And>i. got i k' = got i k \<and> put i k' = put i k" for w' k' b
    using i wr q that by (simp add: copy_inv_def s1_def fd_numbers)
  have "copy_inv got put s1"
    using i wr q by (simp add: copy_inv_def s1_def fd_numbers)
  then show ?thesis
    using c i1 honest_closing(2) [OF h]
    by (auto simp: stdout_callback_def m_def [symmetric] r Let_def s1_def [symmetric] split: if_splits prod.splits sum.splits)
qed

lemma copy_inv_ends:
  "copy_inv got put s \<Longrightarrow> outbound_end s = Inr s' \<Longrightarrow> copy_inv got put s'"
  "copy_inv got put s \<Longrightarrow> inbound_end s = Inr s' \<Longrightarrow> copy_inv got put s'"
  by (auto simp: copy_inv_def outbound_end_def inbound_end_def)

lemma copy_rules_unfold:
  "copy_rules K =
     [\<lparr>rl_fd = STDIN, rl_direction = In, rl_callback = stdin_callback K, rl_interest = stdin_interest, rl_cancel = outbound_end\<rparr>,
      \<lparr>rl_fd = SOCKET, rl_direction = Out, rl_callback = socket_out_callback K, rl_interest = socket_out_interest, rl_cancel = outbound_end\<rparr>,
      \<lparr>rl_fd = SOCKET, rl_direction = In, rl_callback = socket_in_callback K, rl_interest = socket_in_interest, rl_cancel = inbound_end\<rparr>,
      \<lparr>rl_fd = STDOUT, rl_direction = Out, rl_callback = stdout_callback K, rl_interest = stdout_interest, rl_cancel = inbound_end\<rparr>]"
  by (simp add: copy_rules_def add_rule_def)

lemma copy_rules_keep:
  assumes h: "honest_kernel K got put"
  shows "rules_keep (copy_inv got put) (copy_rules K)"
  unfolding copy_rules_unfold rules_keep_Cons ev_rule.select_convs
  by (intro conjI allI impI rules_keep_Nil;
      (erule (1) copy_inv_stdin [OF h] copy_inv_socket_in [OF h] copy_inv_socket_out [OF h] copy_inv_stdout [OF h]
        copy_inv_ends))

lemma copy_cancel_queue:
  "cancels_keep (\<lambda>s. copy_inv got put s \<and> bs_que (cs_outbound s) = []) (copy_rules K)"
  "cancels_keep (\<lambda>s. copy_inv got put s \<and> bs_que (cs_inbound s) = []) (copy_rules K)"
  unfolding cancels_keep_def copy_rules_unfold
  by (auto simp: outbound_end_def inbound_end_def copy_inv_def)

section \<open>What each rule does to the inbound path\<close>

text \<open>The part of the state that decides when the inbound path is done.\<close>

definition copy_view :: "'k copy_state \<Rightarrow> bool \<times> bool \<times> bool \<times> bool \<times> byte list" where
  "copy_view s = (fdw_closed (cs_socket s), fdw_eof (cs_socket s), fdw_closed (cs_output s), bs_end (cs_inbound s), bs_que (cs_inbound s))"

lemma fd_write_flags:
  "fd_write writev buffer False k w = (r, k', w') \<Longrightarrow> fdw_closed w' = fdw_closed w \<and> fdw_eof w' = fdw_eof w"
  by (auto simp: fd_write_def fd_write_loop.simps [of _ False] register_write_def Let_def split: prod.splits sum.splits if_splits)

lemma kernel_read_closed: "kernel_read K fd limit k w = (r, w', k') \<Longrightarrow> fdw_closed w' = fdw_closed w"
  by (auto simp: kernel_read_def fd_read_def register_read_def Let_def split: prod.splits sum.splits if_splits)

lemma socket_shutdown_flags: "socket_shutdown ret how w = (r, w') \<Longrightarrow> fdw_closed w' = fdw_closed w \<and> fdw_eof w' = fdw_eof w"
  by (auto simp: socket_shutdown_def register_read_def register_write_def split: sum.splits if_splits)

lemma view_stdin: "stdin_callback K s = Inr s' \<Longrightarrow> copy_view s' = copy_view s"
  by (auto simp: stdin_callback_def copy_view_def Let_def split: prod.splits sum.splits)

lemma view_outbound_end: "outbound_end s = Inr s' \<Longrightarrow> copy_view s' = copy_view s"
  by (auto simp: outbound_end_def copy_view_def)

lemma view_socket_out:
  assumes "socket_out_callback K s = Inr s'"
  shows "copy_view s' = copy_view s"
proof -
  define m where "m = min max_copy_length (bs_buffer_size (cs_outbound s))"
  obtain r k w where e: "fd_write (kc_writev K SOCKET) (bvl_from_view (take m (bs_que (cs_outbound s)))) False (cs_kernel s) (cs_socket s) = (r, k, w)"
    by (metis prod_cases3)
  show ?thesis
    using assms fd_write_flags [OF e]
    by (auto simp: socket_out_callback_def m_def [symmetric] e copy_view_def Let_def split: prod.splits sum.splits if_splits
        dest!: socket_shutdown_flags)
qed

lemma view_socket_in:
  assumes "socket_in_callback K s = Inr s'"
  shows "fdw_closed (cs_socket s') = fdw_closed (cs_socket s)" "cs_output s' = cs_output s"
    "bs_end (cs_inbound s') \<Longrightarrow> \<not> bs_end (cs_inbound s) \<Longrightarrow> fdw_eof (cs_socket s')"
proof -
  obtain r w k where e: "kernel_read K SOCKET (bs_remaining_capacity (cs_inbound s)) (cs_kernel s) (cs_socket s) = (r, w, k)"
    by (metis prod_cases3)
  show "fdw_closed (cs_socket s') = fdw_closed (cs_socket s)" "cs_output s' = cs_output s"
    "bs_end (cs_inbound s') \<Longrightarrow> \<not> bs_end (cs_inbound s) \<Longrightarrow> fdw_eof (cs_socket s')"
    using assms kernel_read_closed [OF e] by (auto simp: socket_in_callback_def e Let_def split: sum.splits if_splits)
qed

lemma view_stdout:
  assumes "stdout_callback K s = Inr s'" "copy_inv got put s"
  shows "cs_socket s' = cs_socket s" "bs_end (cs_inbound s') = bs_end (cs_inbound s)"
    "fdw_closed (cs_output s') \<Longrightarrow> fdw_closed (cs_output s) \<or> bs_end (cs_inbound s) \<and> bs_que (cs_inbound s') = []"
    "bs_que (cs_inbound s) = [] \<Longrightarrow> bs_que (cs_inbound s') = []" "fdw_closed (cs_output s) \<Longrightarrow> fdw_closed (cs_output s')"
proof -
  define m where "m = min max_copy_length (bs_buffer_size (cs_inbound s))"
  obtain r k w where e: "fd_write (kc_writev K STDOUT) (bvl_from_view (take m (bs_que (cs_inbound s)))) False (cs_kernel s) (cs_output s) = (r, k, w)"
    by (metis prod_cases3)
  obtain n where n: "r = Inr n"
    using assms(1) by (cases r) (auto simp: stdout_callback_def m_def [symmetric] e Let_def)
  define inb where "inb = bs_pop_output n (cs_inbound s)"
  have i: "bs_inv inb" "bs_end inb = bs_end (cs_inbound s)" "bs_que inb = drop n (bs_que (cs_inbound s))"
    using assms(2) by (simp_all add: inb_def copy_inv_def)
  have q: "bs_eof inb \<Longrightarrow> bs_end inb \<and> bs_que inb = []"
    using i(1) by (auto simp: bs_eof_def bs_inv_def)
  obtain ret k2 where kc: "kc_close K STDOUT k = (ret, k2)"
    by (metis surj_pair)
  have s': "cs_socket s' = cs_socket s \<and> cs_inbound s' = inb \<and>
      (if bs_eof inb then fdw_closed (cs_output s') else cs_output s' = w)"
    using assms(1) by (auto simp: stdout_callback_def m_def [symmetric] e n inb_def [symmetric] kc fdw_close_def Let_def
        split: if_splits sum.splits)
  show "cs_socket s' = cs_socket s" "bs_end (cs_inbound s') = bs_end (cs_inbound s)"
    "fdw_closed (cs_output s') \<Longrightarrow> fdw_closed (cs_output s) \<or> bs_end (cs_inbound s) \<and> bs_que (cs_inbound s') = []"
    "bs_que (cs_inbound s) = [] \<Longrightarrow> bs_que (cs_inbound s') = []" "fdw_closed (cs_output s) \<Longrightarrow> fdw_closed (cs_output s')"
    using s' i q fd_write_flags [OF e] by (auto split: if_splits)
qed

section \<open>Which rules are left\<close>

definition copy_rule :: "'k kernel_calls \<Rightarrow> nat \<Rightarrow> 'k copy_state ev_rule" where
  "copy_rule K i = copy_rules K ! i"

lemma copy_rule_all: "set (copy_rules K) = {copy_rule K 0, copy_rule K (Suc 0), copy_rule K 2, copy_rule K 3}"
  by (simp add: copy_rule_def copy_rules_unfold eval_nat_numeral)

lemma copy_rule_fields:
  "rl_fd (copy_rule K 0) = STDIN" "rl_direction (copy_rule K 0) = In" "rl_callback (copy_rule K 0) = stdin_callback K"
  "rl_cancel (copy_rule K 0) = outbound_end"
  "rl_fd (copy_rule K (Suc 0)) = SOCKET" "rl_direction (copy_rule K (Suc 0)) = Out" "rl_callback (copy_rule K (Suc 0)) = socket_out_callback K"
  "rl_cancel (copy_rule K (Suc 0)) = outbound_end" "rl_interest (copy_rule K (Suc 0)) = socket_out_interest"
  "rl_fd (copy_rule K 2) = SOCKET" "rl_direction (copy_rule K 2) = In" "rl_callback (copy_rule K 2) = socket_in_callback K"
  "rl_cancel (copy_rule K 2) = inbound_end"
  "rl_fd (copy_rule K 3) = STDOUT" "rl_direction (copy_rule K 3) = Out" "rl_callback (copy_rule K 3) = stdout_callback K"
  "rl_cancel (copy_rule K 3) = inbound_end" "rl_interest (copy_rule K 3) = stdout_interest"
  by (simp_all add: copy_rule_def copy_rules_unfold eval_nat_numeral)

lemma copy_rule_neq:
  "copy_rule K 0 \<noteq> copy_rule K (Suc 0)" "copy_rule K 0 \<noteq> copy_rule K 2" "copy_rule K 0 \<noteq> copy_rule K 3"
  "copy_rule K (Suc 0) \<noteq> copy_rule K 2" "copy_rule K (Suc 0) \<noteq> copy_rule K 3" "copy_rule K 2 \<noteq> copy_rule K 3"
  by (auto dest: arg_cong [where f = rl_fd] arg_cong [where f = rl_direction] simp: copy_rule_fields fd_numbers)

text \<open>
  The rules \<open>A\<close> that are left: the one that writes to the socket is, as long as the socket is open; the one that writes to
  standard output is, until that is closed, which happens only once nothing is to come and nothing is left to write.
\<close>

definition copy_paths :: "'k kernel_calls \<Rightarrow> (nat \<Rightarrow> 'k \<Rightarrow> byte list) \<Rightarrow> (nat \<Rightarrow> 'k \<Rightarrow> byte list) \<Rightarrow> 'k copy_state ev_rule set \<Rightarrow>
    'k copy_state \<Rightarrow> bool" where
  "copy_paths K got put A s \<longleftrightarrow> copy_inv got put s \<and> A \<subseteq> set (copy_rules K) \<and> \<not> fdw_closed (cs_socket s) \<and> copy_rule K (Suc 0) \<in> A \<and>
     (copy_rule K 3 \<in> A \<or> fdw_closed (cs_output s)) \<and>
     (fdw_closed (cs_output s) \<longrightarrow> bs_end (cs_inbound s) \<and> bs_que (cs_inbound s) = [])"

definition copy_turn :: "'k kernel_calls \<Rightarrow> (nat \<Rightarrow> 'k \<Rightarrow> byte list) \<Rightarrow> (nat \<Rightarrow> 'k \<Rightarrow> byte list) \<Rightarrow> 'k copy_state ev_rule list \<Rightarrow>
    'k copy_state \<Rightarrow> bool" where
  "copy_turn K got put rules s \<longleftrightarrow> copy_paths K got put (set rules) s \<and> distinct rules \<and>
     (copy_rule K 2 \<in> set rules \<and> bs_end (cs_inbound s) \<longrightarrow> fdw_eof (cs_socket s))"

text \<open>Within the setting up: rules gone through, and rules to come.\<close>

definition copy_setup :: "'k kernel_calls \<Rightarrow> (nat \<Rightarrow> 'k \<Rightarrow> byte list) \<Rightarrow> (nat \<Rightarrow> 'k \<Rightarrow> byte list) \<Rightarrow> 'k copy_state ev_rule list \<Rightarrow>
    'k copy_state ev_rule list \<Rightarrow> 'k copy_state \<Rightarrow> bool" where
  "copy_setup K got put kept rest s \<longleftrightarrow> copy_paths K got put (set kept \<union> set rest) s \<and> distinct (kept @ rest) \<and>
     (copy_rule K 2 \<in> set rest \<and> bs_end (cs_inbound s) \<longrightarrow> fdw_eof (cs_socket s)) \<and>
     (copy_rule K 2 \<in> set kept \<longrightarrow> \<not> bs_end (cs_inbound s))"

definition copy_pass :: "'k kernel_calls \<Rightarrow> (nat \<Rightarrow> 'k \<Rightarrow> byte list) \<Rightarrow> (nat \<Rightarrow> 'k \<Rightarrow> byte list) \<Rightarrow> 'k copy_state ev_rule list \<Rightarrow>
    'k copy_state ev_rule list \<Rightarrow> 'k copy_state \<Rightarrow> bool" where
  "copy_pass K got put kept rest s \<longleftrightarrow> copy_paths K got put (set kept \<union> set rest) s \<and> distinct (kept @ rest) \<and>
     (copy_rule K 2 \<in> set rest \<longrightarrow> \<not> bs_end (cs_inbound s)) \<and>
     (copy_rule K 2 \<in> set kept \<and> bs_end (cs_inbound s) \<longrightarrow> fdw_eof (cs_socket s))"

lemma copy_ends:
  "outbound_end s = Inr u \<Longrightarrow> copy_view u = copy_view s"
  "inbound_end s = Inr u \<Longrightarrow> cs_socket u = cs_socket s \<and> cs_output u = cs_output s \<and> bs_end (cs_inbound u) \<and>
     bs_que (cs_inbound u) = bs_que (cs_inbound s)"
  by (auto simp: outbound_end_def inbound_end_def copy_view_def)

lemma copy_view_eqs:
  "copy_view u = copy_view s \<longleftrightarrow> fdw_closed (cs_socket u) = fdw_closed (cs_socket s) \<and> fdw_eof (cs_socket u) = fdw_eof (cs_socket s) \<and>
     fdw_closed (cs_output u) = fdw_closed (cs_output s) \<and> bs_end (cs_inbound u) = bs_end (cs_inbound s) \<and>
     bs_que (cs_inbound u) = bs_que (cs_inbound s)"
  by (auto simp: copy_view_def)

lemma copy_fds_socket: "copy_fds s SOCKET = cs_socket s" "copy_fds s STDOUT = cs_output s"
  by (simp_all add: copy_fds_def fd_numbers)

lemma copy_setup_drop:
  assumes q: "copy_setup K got put kept (r # rest) s"
    and g: "rl_direction r = In \<and> fdw_eof (copy_fds s (rl_fd r)) \<or> fdw_closed (copy_fds s (rl_fd r))" and c: "rl_cancel r s = Inr u"
  shows "copy_setup K got put kept rest u"
proof -
  have i: "copy_inv got put s"
    using q by (simp add: copy_setup_def copy_paths_def)
  have "r \<in> set (copy_rules K)"
    using q by (simp add: copy_setup_def copy_paths_def)
  then consider "r = copy_rule K 0" | "r = copy_rule K (Suc 0)" | "r = copy_rule K 2" | "r = copy_rule K 3"
    by (auto simp: copy_rule_all)
  then show ?thesis
  proof cases
    case 1
    note e = c [unfolded 1 copy_rule_fields]
    show ?thesis
      using q copy_ends(1) [OF e] copy_inv_ends(1) [OF i e] copy_rule_neq [of K]
      by (auto simp: copy_setup_def copy_paths_def copy_view_eqs 1)
  next
    case 2
    then show ?thesis
      using q g by (auto simp: copy_setup_def copy_paths_def copy_rule_fields copy_fds_socket)
  next
    case 3
    note e = c [unfolded 3 copy_rule_fields]
    show ?thesis
      using q copy_ends(2) [OF e] copy_inv_ends(2) [OF i e] copy_rule_neq [of K]
      by (auto simp: copy_setup_def copy_paths_def 3)
  next
    case 4
    note e = c [unfolded 4 copy_rule_fields]
    show ?thesis
      using q g copy_ends(2) [OF e] copy_inv_ends(2) [OF i e] copy_rule_neq [of K]
      by (auto simp: copy_setup_def copy_paths_def 4 copy_rule_fields copy_fds_socket)
  qed
qed

lemma copy_setup_keep:
  assumes q: "copy_setup K got put kept (r # rest) s"
  shows "rl_direction r = In \<Longrightarrow> \<not> fdw_eof (copy_fds s (rl_fd r)) \<Longrightarrow> copy_setup K got put (kept @ [r]) rest s"
    "rl_direction r = Out \<Longrightarrow> copy_setup K got put (kept @ [r]) rest s"
  using q by (auto simp: copy_setup_def copy_rule_fields copy_fds_socket)

lemma copy_pass_skip: "copy_pass K got put kept (r # rest) s \<Longrightarrow> copy_pass K got put (kept @ [r]) rest s"
  by (auto simp: copy_pass_def)

lemma copy_pass_cancel:
  assumes q: "copy_pass K got put kept (r # rest) s" and d: "rl_direction r = In" and c: "rl_cancel r s = Inr u"
  shows "copy_pass K got put kept rest u"
proof -
  have i: "copy_inv got put s"
    using q by (simp add: copy_pass_def copy_paths_def)
  have "r \<in> set (copy_rules K)"
    using q by (simp add: copy_pass_def copy_paths_def)
  then consider "r = copy_rule K 0" | "r = copy_rule K 2"
    using d by (auto simp: copy_rule_all copy_rule_fields)
  then show ?thesis
  proof cases
    case 1
    note e = c [unfolded 1 copy_rule_fields]
    show ?thesis
      using q copy_ends(1) [OF e] copy_inv_ends(1) [OF i e] copy_rule_neq [of K]
      by (auto simp: copy_pass_def copy_paths_def copy_view_eqs 1)
  next
    case 2
    note e = c [unfolded 2 copy_rule_fields]
    show ?thesis
      using q copy_ends(2) [OF e] copy_inv_ends(2) [OF i e] copy_rule_neq [of K]
      by (auto simp: copy_pass_def copy_paths_def 2)
  qed
qed

lemma copy_pass_call:
  assumes h: "honest_kernel K got put" and q: "copy_pass K got put kept (r # rest) s" and c: "rl_callback r s = Inr u"
  shows "copy_pass K got put (kept @ [r]) rest u"
proof -
  have i: "copy_inv got put s" and r: "r \<in> set (copy_rules K)"
    using q by (simp_all add: copy_pass_def copy_paths_def)
  have iu: "copy_inv got put u"
    using copy_rules_keep [OF h] r i c unfolding rules_keep_def by blast
  consider "r = copy_rule K 0" | "r = copy_rule K (Suc 0)" | "r = copy_rule K 2" | "r = copy_rule K 3"
    using r by (auto simp: copy_rule_all)
  then show ?thesis
  proof cases
    case 1
    show ?thesis
      using copy_pass_skip [OF q] iu view_stdin [OF c [unfolded 1 copy_rule_fields]]
      by (simp add: copy_pass_def copy_paths_def copy_view_eqs)
  next
    case 2
    show ?thesis
      using copy_pass_skip [OF q] iu view_socket_out [OF c [unfolded 2 copy_rule_fields]]
      by (simp add: copy_pass_def copy_paths_def copy_view_eqs)
  next
    case 3
    have "copy_rule K 2 \<notin> set rest" "\<not> bs_end (cs_inbound s)"
      using q by (auto simp: copy_pass_def 3)
    then show ?thesis
      using copy_pass_skip [OF q] iu view_socket_in [OF c [unfolded 3 copy_rule_fields]]
      by (auto simp: copy_pass_def copy_paths_def 3)
  next
    case 4
    show ?thesis
      using copy_pass_skip [OF q] iu view_stdout [OF c [unfolded 4 copy_rule_fields] i]
      by (auto simp: copy_pass_def copy_paths_def)
  qed
qed

lemma copy_turn_setup:
  assumes t: "copy_turn K got put rules s" and st: "poll_setup copy_fds rules s = Inr (rules', pfs, some, s')"
  shows "copy_pass K got put [] rules' s'"
proof -
  have "copy_setup K got put [] rules s"
    using t by (simp add: copy_turn_def copy_setup_def)
  then have "copy_setup K got put ([] @ rules') [] s'"
    by (rule poll_setup_steps [where Q = "copy_setup K got put", OF st]) (blast intro: copy_setup_drop copy_setup_keep)+
  then show ?thesis
    by (auto simp: copy_setup_def copy_pass_def)
qed

text \<open>No entry to write is given up when the descriptors that are waited for do not hang up.\<close>

lemma copy_entries_stay:
  assumes p: "writers_stay poll" and st: "poll_setup fds rules s = Inr (rules', pfs, some, s')"
    and x: "(r, ev, rv) \<in> set (poll_entries rules' pfs (snd (poll pfs t)))" and d: "rl_direction r = Out"
    and g: "rv AND POLLHUP \<noteq> 0" "ev \<noteq> 0"
  shows "rv AND ev \<noteq> 0"
proof -
  from poll_entries_nth [OF x] obtain i where i: "i < length rules'" "i < length pfs" "r = rules' ! i" "ev = snd (pfs ! i)"
    "rv \<noteq> 0 \<longrightarrow> i < length (snd (poll pfs t)) \<and> rv = snd (poll pfs t) ! i" .
  have "cancels_keep (\<lambda>_. True) rules"
    by (simp add: cancels_keep_def)
  from poll_setup_events [OF st this] have "ev = POLLOUT"
    using i d g(2) by (auto simp: list_all2_conv_all_nth)
  moreover have "rv \<noteq> 0"
    using g(1) by auto
  ultimately show ?thesis
    using p i g(1) unfolding writers_stay_def by metis
qed

lemma copy_turn_next:
  assumes h: "honest_kernel K got put" and p: "writers_stay poll" and t: "copy_turn K got put rules s"
    and w: "wait_next_event copy_fds poll tm rules s = Inr (res, rules', s')"
  shows "copy_turn K got put rules' s'"
proof (rule wait_next_event_cases [OF w])
  fix rules1 pfs some s1
  assume st: "poll_setup copy_fds rules s = Inr (rules1, pfs, some, s1)"
    and ns: "res \<noteq> Success \<Longrightarrow> rules' = rules1 \<and> s' = s1"
    and ok: "res = Success \<Longrightarrow> poll_process copy_fds (poll_entries rules1 pfs (snd (poll pfs tm))) s1 = Inr (rules', s')"
  note a = copy_turn_setup [OF t st]
  let ?es = "poll_entries rules1 pfs (snd (poll pfs tm))"
  have z: "map fst ?es = rules1"
    by (rule poll_entries_rules) (use poll_setup_subseq [OF st] in blast)
  define Q where "Q = (\<lambda>kept entries s. copy_pass K got put kept (map fst entries) s \<and> set entries \<subseteq> set ?es)"
  show ?thesis
  proof (cases "res = Success")
    case True
    have "Q [] ?es s1"
      using a by (simp add: Q_def z)
    then have "Q ([] @ rules') [] s'"
    proof (rule poll_process_steps [where Q = Q, OF ok [OF True]], goal_cases)
      case (1 kept r ev rv rest s u)
      have "rl_direction r = In"
        using copy_entries_stay [OF p st, of r ev rv tm] 1 by (cases "rl_direction r") (auto simp: Q_def)
      then show ?case
        using 1 copy_pass_cancel [of K got put kept r "map fst rest" s u] by (simp add: Q_def)
    next
      case (2 kept r ev rv rest s u)
      then show ?case
        using copy_pass_call [OF h, of kept r "map fst rest" s u] by (simp add: Q_def)
    next
      case (3 kept r ev rv rest s)
      then show ?case
        using copy_pass_skip [of K got put kept r "map fst rest" s] by (simp add: Q_def)
    qed
    then show ?thesis
      by (auto simp: Q_def copy_pass_def copy_turn_def)
  next
    case False
    then show ?thesis
      using a ns by (auto simp: copy_pass_def copy_turn_def)
  qed
qed

section \<open>Runs\<close>

lemma copy_loop_inv:
  "copy_loop polls rules s = Inr (finished, rules', s') \<Longrightarrow> rules_keep I rules \<Longrightarrow> I s \<Longrightarrow> I s' \<and> set rules' \<subseteq> set rules"
proof (induction polls rules s rule: copy_loop.induct)
  case (2 poll polls rules s)
  obtain res rules1 s1 where w: "wait_next_event copy_fds poll (-1) rules s = Inr (res, rules1, s1)"
    using 2(2) by (cases "wait_next_event copy_fds poll (-1) rules s") auto
  have i: "I s1" and sub: "subseq rules1 rules"
    using wait_next_event_inv [where I = I, OF w 2(3,4)] by blast+
  have sub: "set rules1 \<subseteq> set rules"
    using list_emb_set [OF sub] by auto
  show ?case
  proof (cases "res = Exit")
    case True
    then show ?thesis
      using 2(2) w i sub by simp
  next
    case False
    then have "copy_loop polls rules1 s1 = Inr (finished, rules', s')"
      using 2(2) w by simp
    from 2(1) [OF w refl refl False this rules_keep_mono [OF 2(3) sub] i] show ?thesis
      using sub by blast
  qed
qed simp

text \<open>
  Unless a signal interrupts it, the loop returns because no rule has an interest left: in a turn that begins
  with whatever \<open>T\<close> every turn keeps of the rules and the state.
\<close>

lemma copy_loop_exit:
  "copy_loop polls rules s = Inr (True, rules', s') \<Longrightarrow> T rules s \<Longrightarrow>
     (\<forall>poll \<in> set polls. \<forall>p t. snd (fst (poll p t)) \<noteq> EINTR) \<Longrightarrow>
     (\<And>poll rules s res rules' s'. poll \<in> set polls \<Longrightarrow> T rules s \<Longrightarrow>
        wait_next_event copy_fds poll (-1) rules s = Inr (res, rules', s') \<Longrightarrow> T rules' s') \<Longrightarrow>
     \<exists>rules0 s0 pfs. poll_setup copy_fds rules0 s0 = Inr (rules', pfs, False, s') \<and> T rules0 s0"
proof (induction polls rules s rule: copy_loop.induct)
  case (2 poll polls rules s)
  obtain res rules1 s1 where w: "wait_next_event copy_fds poll (-1) rules s = Inr (res, rules1, s1)"
    using 2(2) by (cases "wait_next_event copy_fds poll (-1) rules s") auto
  show ?case
  proof (cases "res = Exit")
    case True
    then have e: "rules' = rules1" "s' = s1"
      using 2(2) w by simp_all
    show ?thesis
    proof (rule wait_next_event_cases [OF w])
      fix rules2 pfs some s2
      assume st: "poll_setup copy_fds rules s = Inr (rules2, pfs, some, s2)"
        "res \<noteq> Success \<Longrightarrow> rules1 = rules2 \<and> s1 = s2"
        "res = Exit \<Longrightarrow> some \<Longrightarrow> \<exists>rv evs. poll pfs (-1) = ((rv, EINTR), evs) \<and> rv < 0"
      have "snd (fst (poll pfs (-1))) \<noteq> EINTR"
        using 2(4) by simp
      then have "\<not> some"
        using st(3) [OF True] by auto
      then show ?thesis
        using st(1,2) e True 2(3) by auto
    qed
  next
    case False
    then have c: "copy_loop polls rules1 s1 = Inr (True, rules', s')"
      using 2(2) w by simp
    have t: "T rules1 s1"
      by (rule 2(5) [OF _ 2(3) w]) simp
    have n: "\<forall>poll \<in> set polls. \<forall>p t. snd (fst (poll p t)) \<noteq> EINTR"
      using 2(4) by simp
    show ?thesis
      by (rule 2(1) [OF w refl refl False c t n], rule 2(5)) simp_all
  qed
qed simp

lemma copy_start_inv:
  assumes "copy_start socket k = Inr s" "\<And>i. got i k = [] \<and> put i k = []"
  shows "copy_inv got put s"
  using assms(1) by (auto simp: copy_start_def fdw_new_def copy_inv_def assms(2))

lemma copy_start_turn:
  assumes "copy_start socket k = Inr s" "\<And>i. got i k = [] \<and> put i k = []" "\<not> fdw_closed socket"
  shows "copy_turn K got put (copy_rules K) s"
proof -
  have "distinct (copy_rules K)"
    using copy_rule_neq [of K] by (simp add: copy_rule_def copy_rules_unfold eval_nat_numeral)
  then show ?thesis
    using copy_start_inv [of socket k s got put, OF assms(1,2)] assms(1,3)
    by (auto simp: copy_turn_def copy_paths_def copy_rule_all copy_start_def fdw_new_def byte_stream_new_def)
qed

text \<open>At the end a rule that writes and is still installed has nothing left.\<close>

lemma copy_exit_installed:
  assumes h: "honest_kernel K got put" and i: "copy_inv got put s0" and sub: "set rules0 \<subseteq> set (copy_rules K)"
    and st: "poll_setup copy_fds rules0 s0 = Inr (rules, pfs, False, s)"
  shows "copy_rule K (Suc 0) \<in> set rules \<Longrightarrow> bs_que (cs_outbound s) = []"
    "copy_rule K 3 \<in> set rules \<Longrightarrow> bs_que (cs_inbound s) = []"
proof -
  have m: "cancels_keep I rules0" if "cancels_keep I (copy_rules K)" for I
    using that sub unfolding cancels_keep_def by blast
  note k = m [OF copy_rules_keep [OF h, unfolded rules_keep_def, THEN conjunct1]] m [OF copy_cancel_queue(1)] m [OF copy_cancel_queue(2)]
  have out: "bs_que (cs_outbound s) = []" if "copy_inv got put s" "\<not> rl_interest (copy_rule K (Suc 0)) s" for s
    using that by (simp add: copy_rule_fields socket_out_interest_def bs_buffer_empty_iff copy_inv_def)
  have inb: "bs_que (cs_inbound s) = []" if "copy_inv got put s" "\<not> rl_interest (copy_rule K 3) s" for s
    using that by (simp add: copy_rule_fields stdout_interest_def bs_buffer_empty_iff copy_inv_def)
  show "copy_rule K (Suc 0) \<in> set rules \<Longrightarrow> bs_que (cs_outbound s) = []"
    by (rule poll_setup_idle [where I = "copy_inv got put" and P = "\<lambda>s. bs_que (cs_outbound s) = []", OF st _ i k(1) out k(2)])
  show "copy_rule K 3 \<in> set rules \<Longrightarrow> bs_que (cs_inbound s) = []"
    by (rule poll_setup_idle [where I = "copy_inv got put" and P = "\<lambda>s. bs_que (cs_inbound s) = []", OF st _ i k(1) inb k(3)])
qed

lemma copy_run_cases:
  assumes "bidirectional_stream_copy K getfl setfl polls socket k = Inr (finished, rules, s)"
  obtains s0 where "copy_start socket k = Inr s0" "copy_loop polls (copy_rules K) s0 = Inr (finished, rules, s)"
  using assms by (auto simp: bidirectional_stream_copy_def split: sum.splits)

lemma copy_return_installed:
  assumes h: "honest_kernel K got put" and z: "\<And>i. got i k = [] \<and> put i k = []" and s0: "copy_start socket k = Inr s0"
    and lp: "copy_loop polls (copy_rules K) s0 = Inr (True, rules, s)"
    and ne: "\<forall>poll \<in> set polls. \<forall>p t. snd (fst (poll p t)) \<noteq> EINTR"
  shows "(copy_rule K (Suc 0) \<in> set rules \<longrightarrow> bs_que (cs_outbound s) = []) \<and> (copy_rule K 3 \<in> set rules \<longrightarrow> bs_que (cs_inbound s) = [])"
proof -
  let ?T = "\<lambda>rules s. set rules \<subseteq> set (copy_rules K) \<and> copy_inv got put s"
  note keep = copy_rules_keep [OF h]
  have n: "?T rules' s'" if "?T rules s" "wait_next_event copy_fds poll (-1) rules s = Inr (res, rules', s')" for poll rules s res rules' s'
    using wait_next_event_inv [where I = "copy_inv got put", OF that(2)] rules_keep_mono [OF keep] that(1)
      list_emb_set [of "(=)" rules' rules] by blast
  have "?T (copy_rules K) s0"
    using copy_start_inv [of socket k s0 got put, OF s0 z] by blast
  from copy_loop_exit [where T = ?T, OF lp this ne] obtain rules1 s1 pfs
    where "poll_setup copy_fds rules1 s1 = Inr (rules, pfs, False, s)" "?T rules1 s1"
    using n by blast
  then show ?thesis
    using copy_exit_installed [OF h] by blast
qed

lemma copy_return_empty:
  assumes h: "honest_kernel K got put" and z: "\<And>i. got i k = [] \<and> put i k = []" and s0: "copy_start socket k = Inr s0"
    and lp: "copy_loop polls (copy_rules K) s0 = Inr (True, rules, s)"
    and ne: "\<forall>poll \<in> set polls. \<forall>p t. snd (fst (poll p t)) \<noteq> EINTR"
  shows "(\<forall>poll \<in> set polls. writers_stay poll) \<and> \<not> fdw_closed socket \<longrightarrow> bs_que (cs_outbound s) = [] \<and> bs_que (cs_inbound s) = []"
proof (intro impI, elim conjE)
  assume p: "\<forall>poll \<in> set polls. writers_stay poll" and o: "\<not> fdw_closed socket"
  from copy_loop_exit [where T = "copy_turn K got put", OF lp copy_start_turn [of socket k s0 got put K, OF s0 z o] ne] obtain rules1 s1 pfs
    where st: "poll_setup copy_fds rules1 s1 = Inr (rules, pfs, False, s)" and t: "copy_turn K got put rules1 s1"
    using copy_turn_next [OF h] p by blast
  have "copy_rule K (Suc 0) \<in> set rules" "copy_rule K 3 \<in> set rules \<or> bs_que (cs_inbound s) = []"
    using copy_turn_setup [OF t st] by (auto simp: copy_pass_def copy_paths_def)
  then show "bs_que (cs_outbound s) = [] \<and> bs_que (cs_inbound s) = []"
    using copy_exit_installed [OF h _ _ st] t by (auto simp: copy_turn_def copy_paths_def)
qed

section \<open>Property\<close>

text \<open>
  C4. The copying loop loses, repeats and reorders nothing. After any number of turns, with any
  answers of \<open>poll\<close>, what was read from standard input is what was written to the socket and
  then what the outbound stream still holds, and likewise from the socket to standard output;
  the streams never hold more than \<open>buffer_size\<close> bytes. When the loop has returned, not being
  interrupted by a signal, each path whose writing rule is still installed has written everything
  that was read. If moreover no descriptor hung up while the loop waited to write to it and the
  socket was open at the start, then both paths have written everything that was read, whatever
  rules are left.
\<close>

theorem stream_copy_complete:
  assumes h: "honest_kernel K got put" and z: "\<And>i. got i k = [] \<and> put i k = []"
    and run: "bidirectional_stream_copy K getfl setfl polls socket k = Inr (finished, rules, s)"
  shows "got STDIN (cs_kernel s) = put SOCKET (cs_kernel s) @ bs_que (cs_outbound s) \<and>
    got SOCKET (cs_kernel s) = put STDOUT (cs_kernel s) @ bs_que (cs_inbound s) \<and>
    length (bs_que (cs_outbound s)) \<le> buffer_size \<and> length (bs_que (cs_inbound s)) \<le> buffer_size \<and>
    (finished \<and> (\<forall>poll \<in> set polls. \<forall>p t. snd (fst (poll p t)) \<noteq> EINTR) \<longrightarrow>
      (copy_rules K ! 1 \<in> set rules \<longrightarrow> put SOCKET (cs_kernel s) = got STDIN (cs_kernel s)) \<and>
      (copy_rules K ! 3 \<in> set rules \<longrightarrow> put STDOUT (cs_kernel s) = got SOCKET (cs_kernel s)) \<and>
      ((\<forall>poll \<in> set polls. writers_stay poll) \<and> \<not> fdw_closed socket \<longrightarrow>
        put SOCKET (cs_kernel s) = got STDIN (cs_kernel s) \<and> put STDOUT (cs_kernel s) = got SOCKET (cs_kernel s)))"
proof (rule copy_run_cases [OF run])
  fix s0
  assume s0: "copy_start socket k = Inr s0" and loop: "copy_loop polls (copy_rules K) s0 = Inr (finished, rules, s)"
  have i: "copy_inv got put s"
    using copy_loop_inv [where I = "copy_inv got put", OF loop copy_rules_keep [OF h] copy_start_inv [of socket k s0 got put, OF s0 z]]
    by blast
  have e: "(copy_rules K ! 1 \<in> set rules \<longrightarrow> bs_que (cs_outbound s) = []) \<and> (copy_rules K ! 3 \<in> set rules \<longrightarrow> bs_que (cs_inbound s) = []) \<and>
      ((\<forall>poll \<in> set polls. writers_stay poll) \<and> \<not> fdw_closed socket \<longrightarrow> bs_que (cs_outbound s) = [] \<and> bs_que (cs_inbound s) = [])"
    if "finished" and ne: "\<forall>poll \<in> set polls. \<forall>p t. snd (fst (poll p t)) \<noteq> EINTR"
  proof -
    have lp: "copy_loop polls (copy_rules K) s0 = Inr (True, rules, s)"
      using loop that(1) by simp
    show ?thesis
      using copy_return_installed [OF h z s0 lp ne] copy_return_empty [OF h z s0 lp ne] by (simp add: copy_rule_def)
  qed
  show ?thesis
    using i e by (auto simp: copy_inv_def bs_inv_def)
qed

text \<open>
  Applied to a whole run: a byte arrives on standard input and then its end, and is sent; a byte arrives from the
  socket, is written to standard output, and the socket ends; standard output is closed, and the loop returns.
\<close>

definition copy_demo_kernel :: "((byte list \<times> byte list) \<times> (byte list \<times> byte list) \<times> byte list \<times> byte list) kernel_calls" where
  "copy_demo_kernel =
     \<lparr>kc_read = (\<lambda>fd n ((rest0, got0), (rest2, got2), puts).
        if fd = STDIN then (((int (length (take n rest0)), 0), take n rest0), ((drop n rest0, got0 @ take n rest0), (rest2, got2), puts))
        else if fd = SOCKET then (((int (length (take n rest2)), 0), take n rest2), ((rest0, got0), (drop n rest2, got2 @ take n rest2), puts))
        else (((-1, 9), []), ((rest0, got0), (rest2, got2), puts))),
      kc_writev = (\<lambda>fd (in0, in2, put2, put1) iov. let d = concat (map fst iov)
        in if fd = SOCKET then ((int (length d), 0), (in0, in2, put2 @ d, put1))
           else if fd = STDOUT then ((int (length d), 0), (in0, in2, put2, put1 @ d))
           else ((-1, 9), (in0, in2, put2, put1))),
      kc_shutdown = (\<lambda>_ _ k. ((0, 0), k)), kc_close = (\<lambda>_ k. ((0, 0), k))\<rparr>"

definition copy_demo_got :: "nat \<Rightarrow> (byte list \<times> byte list) \<times> (byte list \<times> byte list) \<times> byte list \<times> byte list \<Rightarrow> byte list" where
  "copy_demo_got i k = (if i = STDIN then snd (fst k) else if i = SOCKET then snd (fst (snd k)) else [])"

definition copy_demo_put :: "nat \<Rightarrow> (byte list \<times> byte list) \<times> (byte list \<times> byte list) \<times> byte list \<times> byte list \<Rightarrow> byte list" where
  "copy_demo_put i k = (if i = SOCKET then fst (snd (snd k)) else if i = STDOUT then snd (snd (snd k)) else [])"

definition copy_demo_polls :: "((int \<times> u16) list \<Rightarrow> int \<Rightarrow> sysret \<times> u16 list) list" where
  "copy_demo_polls = map (\<lambda>evs _ _. ((1, 0), evs))
     [[POLLIN, 0, 0, 0], [0, POLLOUT, 0, 0], [POLLIN, 0, 0, 0], [POLLOUT, 0, 0], [0, POLLIN, 0], [0, 0, POLLOUT],
      [0, POLLIN, 0], [0, POLLOUT], []]"

lemma copy_demo_honest: "honest_kernel copy_demo_kernel copy_demo_got copy_demo_put"
proof -
  have t: "take n a = take (min (length a) n) a" for n and a :: "byte list"
    by (simp add: min_def)
  show ?thesis
    unfolding honest_kernel_def honest_read_def honest_write_def honest_close_def
    by (auto simp: copy_demo_kernel_def copy_demo_got_def copy_demo_put_def fd_numbers Let_def intro: t)
qed

lemmas copy_demo_eval = bidirectional_stream_copy_def copy_start_def fdw_new_def fd_set_blocking_def system_call_def
  copy_demo_polls_def wait_next_event_def poll_entries_def copy_fds_def fd_numbers stdin_interest_def socket_out_interest_def
  socket_in_interest_def stdout_interest_def bs_op_defs buffer_size_def BUFFER_SIZE_def max_copy_length_def
  POLLIN_def POLLOUT_def POLLERR_def POLLNVAL_def POLLHUP_def service_count_def stdin_callback_def socket_out_callback_def
  socket_in_callback_def stdout_callback_def outbound_end_def inbound_end_def kernel_read_def fd_read_def fd_write_def
  fd_write_loop.simps [of _ False] bvl_from_view_def bvl_as_iovecs_def bvl_size_def register_read_def register_write_def
  socket_shutdown_def SHUT_RD_def SHUT_WR_def fdw_close_def Let_def

lemmas copy_demo_calls = arg_cong [OF copy_demo_kernel_def, of kc_read, simplified]
  arg_cong [OF copy_demo_kernel_def, of kc_writev, simplified] arg_cong [OF copy_demo_kernel_def, of kc_shutdown, simplified]
  arg_cong [OF copy_demo_kernel_def, of kc_close, simplified]

lemma copy_demo_run:
  "\<exists>rules s. bidirectional_stream_copy copy_demo_kernel (\<lambda>_. (0, 0)) (\<lambda>_ _. (0, 0)) copy_demo_polls
     \<lparr>fdw_fd = 3, fdw_eof = False, fdw_closed = False, fdw_read_count = 0, fdw_write_count = 0\<rparr> (([7], []), ([8], []), [], []) =
     Inr (True, rules, s) \<and> cs_kernel s = (([], [7]), ([], [8]), [7], [8])"
  by (simp add: copy_rules_unfold copy_demo_eval copy_demo_calls split del: if_split cong: if_cong)

lemma copy_demo_stay: "\<forall>poll \<in> set copy_demo_polls. writers_stay poll"
  by (auto simp: copy_demo_polls_def writers_stay_def POLLIN_def POLLOUT_def POLLHUP_def less_Suc_eq)

theorem stream_copy_complete_witness:
  "\<exists>rules s. bidirectional_stream_copy copy_demo_kernel (\<lambda>_. (0, 0)) (\<lambda>_ _. (0, 0)) copy_demo_polls
     \<lparr>fdw_fd = 3, fdw_eof = False, fdw_closed = False, fdw_read_count = 0, fdw_write_count = 0\<rparr> (([7], []), ([8], []), [], []) =
     Inr (True, rules, s) \<and> copy_demo_put SOCKET (cs_kernel s) = [7] \<and> copy_demo_put STDOUT (cs_kernel s) = [8]"
proof -
  obtain rules s where run: "bidirectional_stream_copy copy_demo_kernel (\<lambda>_. (0, 0)) (\<lambda>_ _. (0, 0)) copy_demo_polls
     \<lparr>fdw_fd = 3, fdw_eof = False, fdw_closed = False, fdw_read_count = 0, fdw_write_count = 0\<rparr> (([7], []), ([8], []), [], []) =
     Inr (True, rules, s)" and k: "cs_kernel s = (([], [7]), ([], [8]), [7], [8])"
    using copy_demo_run by blast
  have g: "copy_demo_got STDIN (cs_kernel s) = [7]" "copy_demo_got SOCKET (cs_kernel s) = [8]"
    by (simp_all add: k copy_demo_got_def fd_numbers)
  have z: "copy_demo_got i (([7], []), ([8], []), [], []) = [] \<and> copy_demo_put i (([7], []), ([8], []), [], []) = []" for i
    by (simp add: copy_demo_got_def copy_demo_put_def)
  have ne: "\<forall>poll \<in> set copy_demo_polls. \<forall>p t. snd (fst (poll p t)) \<noteq> EINTR"
    by (simp add: copy_demo_polls_def EINTR_def)
  have sock: "\<not> fdw_closed \<lparr>fdw_fd = 3, fdw_eof = False, fdw_closed = False, fdw_read_count = 0, fdw_write_count = 0\<rparr>"
    by simp
  have "copy_demo_put SOCKET (cs_kernel s) = copy_demo_got STDIN (cs_kernel s) \<and>
      copy_demo_put STDOUT (cs_kernel s) = copy_demo_got SOCKET (cs_kernel s)"
    using stream_copy_complete [OF copy_demo_honest z run] ne copy_demo_stay sock by blast
  then have "copy_demo_put SOCKET (cs_kernel s) = [7] \<and> copy_demo_put STDOUT (cs_kernel s) = [8]"
    by (simp only: g)
  then show ?thesis
    using run by blast
qed

end
