(* ===== verification/Network_Interface.thy ===== *)
theory Network_Interface
  imports TCP_Over_IP
begin

text \<open>
  The link between IP and Ethernet as the repository has it: \<open>libsponge/network_interface.cc\<close> and
  \<open>libsponge/router.cc\<close> are the dummy implementations of the course, and the definitions below
  do as little as they do; \<open>router.hh\<close>; and the adapter that would carry TCP over Ethernet,
  \<open>TCPOverIPv4OverEthernetAdapter\<close> of \<open>tcp_helpers/tuntap_adapter.cc\<close>. Addresses are the numbers
  that \<open>ipv4_numeric\<close> returns.
\<close>

section \<open>NetworkInterface\<close>

record network_interface =
  ni_ethernet_address :: ethernet_address
  ni_ip_address :: u32
  ni_frames_out :: "ethernet_frame list"

definition network_interface_new :: "ethernet_address \<Rightarrow> u32 \<Rightarrow> network_interface" where
  "network_interface_new eth ip = \<lparr>ni_ethernet_address = eth, ni_ip_address = ip, ni_frames_out = []\<rparr>"

text \<open>The body computes the number of the next hop and hands everything to a function that does nothing.\<close>

definition ni_send_datagram :: "ipv4_datagram \<Rightarrow> u32 \<Rightarrow> network_interface \<Rightarrow> network_interface" where
  "ni_send_datagram dgram next_hop ni = ni"

definition ni_recv_frame :: "ethernet_frame \<Rightarrow> network_interface \<Rightarrow> ipv4_datagram option \<times> network_interface" where
  "ni_recv_frame frame ni = (None, ni)"

definition ni_tick :: "nat \<Rightarrow> network_interface \<Rightarrow> network_interface" where
  "ni_tick ms_since_last_tick ni = ni"

section \<open>AsyncNetworkInterface\<close>

record async_interface =
  as_interface :: network_interface
  as_datagrams_out :: "ipv4_datagram list"

definition async_interface_new :: "network_interface \<Rightarrow> async_interface" where
  "async_interface_new ni = \<lparr>as_interface = ni, as_datagrams_out = []\<rparr>"

definition async_recv_frame :: "ethernet_frame \<Rightarrow> async_interface \<Rightarrow> async_interface" where
  "async_recv_frame frame x =
     (let (optional_dgram, ni) = ni_recv_frame frame (as_interface x);
          x = x\<lparr>as_interface := ni\<rparr>
      in case optional_dgram of
           Some dgram \<Rightarrow> x\<lparr>as_datagrams_out := as_datagrams_out x @ [dgram]\<rparr>
         | None \<Rightarrow> x)"

definition async_send_datagram :: "ipv4_datagram \<Rightarrow> u32 \<Rightarrow> async_interface \<Rightarrow> async_interface" where
  "async_send_datagram dgram next_hop x = x\<lparr>as_interface := ni_send_datagram dgram next_hop (as_interface x)\<rparr>"

definition frames_out :: "async_interface \<Rightarrow> ethernet_frame list" where
  "frames_out x = ni_frames_out (as_interface x)"

section \<open>Router\<close>

record router =
  rt_interfaces :: "async_interface list"

definition router_new :: router where
  "router_new = \<lparr>rt_interfaces = []\<rparr>"

definition add_interface :: "async_interface \<Rightarrow> router \<Rightarrow> nat \<times> router" where
  "add_interface interface r =
     (let r = r\<lparr>rt_interfaces := rt_interfaces r @ [interface]\<rparr> in (length (rt_interfaces r) - 1, r))"

definition router_interface :: "nat \<Rightarrow> router \<Rightarrow> async_interface result" where
  "router_interface N r =
     (if N < length (rt_interfaces r) then Inr (rt_interfaces r ! N) else Inl (Out_Of_Range ''vector::_M_range_check''))"

definition add_route :: "u32 \<Rightarrow> u8 \<Rightarrow> u32 option \<Rightarrow> nat \<Rightarrow> router \<Rightarrow> router" where
  "add_route route_prefix prefix_length next_hop interface_num r = r"

definition route_one_datagram :: "ipv4_datagram \<Rightarrow> router \<Rightarrow> router" where
  "route_one_datagram dgram r = r"

text \<open>
  The inner loop of \<open>route\<close> works on the queue of interface \<open>i\<close>, the outer loop goes through the
  interfaces. A datagram is popped after it was routed, and routing one may change the router.
\<close>

definition pop_datagram :: "nat \<Rightarrow> router \<Rightarrow> router" where
  "pop_datagram i r = r\<lparr>rt_interfaces := (rt_interfaces r)[i := (rt_interfaces r ! i)\<lparr>as_datagrams_out :=
     tl (as_datagrams_out (rt_interfaces r ! i))\<rparr>]\<rparr>"

function route_queue :: "nat \<Rightarrow> router \<Rightarrow> router" where
  "route_queue i r =
     (case (if i < length (rt_interfaces r) then as_datagrams_out (rt_interfaces r ! i) else []) of
        [] \<Rightarrow> r
      | dgram # _ \<Rightarrow> route_queue i (pop_datagram i (route_one_datagram dgram r)))"
  by pat_completeness auto
termination
  by (relation "measure (\<lambda>(i, r). length (as_datagrams_out (rt_interfaces r ! i)))")
    (auto simp: pop_datagram_def route_one_datagram_def split: if_splits)

declare route_queue.simps [simp del]

definition route :: "router \<Rightarrow> router" where
  "route r = fold route_queue [0..<length (rt_interfaces r)] r"

section \<open>The Ethernet adapter\<close>

record eth_adapter =
  ea_base :: fd_adapter
  ea_interface :: network_interface
  ea_next_hop :: u32

text \<open>Frames the adapter wants written to the device, oldest first, and the interface without them.\<close>

definition send_pending :: "eth_adapter \<Rightarrow> byte list list \<times> eth_adapter" where
  "send_pending a =
     (map ethernet_frame_serialize (ni_frames_out (ea_interface a)),
      a\<lparr>ea_interface := (ea_interface a)\<lparr>ni_frames_out := []\<rparr>\<rparr>)"

text \<open>The constructor writes a dummy frame first.\<close>

definition eth_adapter_new :: "ethernet_address \<Rightarrow> u32 \<Rightarrow> u32 \<Rightarrow> byte list list \<times> eth_adapter" where
  "eth_adapter_new eth ip next_hop =
     ([ethernet_frame_serialize ethernet_frame_new],
      \<lparr>ea_base = fd_adapter_new, ea_interface = network_interface_new eth ip, ea_next_hop = next_hop\<rparr>)"

definition eth_read :: "byte list \<Rightarrow> eth_adapter \<Rightarrow> tcp_segment option \<times> byte list list \<times> eth_adapter" where
  "eth_read packet a =
     (let (res, frame) = ethernet_frame_parse packet ethernet_frame_new
      in if res \<noteq> NoError then (None, [], a)
         else let (ip_dgram, ni) = ni_recv_frame frame (ea_interface a);
                  (written, a) = send_pending (a\<lparr>ea_interface := ni\<rparr>)
              in case ip_dgram of
                   Some d \<Rightarrow> let (seg, base) = unwrap_tcp_in_ip d (ea_base a) in (seg, written, a\<lparr>ea_base := base\<rparr>)
                 | None \<Rightarrow> (None, written, a))"

definition eth_tick :: "nat \<Rightarrow> eth_adapter \<Rightarrow> byte list list \<times> eth_adapter" where
  "eth_tick ms a = send_pending (a\<lparr>ea_interface := ni_tick ms (ea_interface a)\<rparr>)"

definition eth_write :: "tcp_segment \<Rightarrow> eth_adapter \<Rightarrow> (tcp_segment \<times> byte list list \<times> eth_adapter) result" where
  "eth_write seg a =
     (case wrap_tcp_in_ip seg (ea_base a) of
        Inl e \<Rightarrow> Inl e
      | Inr (seg, dgram) \<Rightarrow>
          Inr (seg, send_pending (a\<lparr>ea_interface := ni_send_datagram dgram (ea_next_hop a) (ea_interface a)\<rparr>)))"

section \<open>A link that carries nothing\<close>

lemma route_queue_idle: "as_datagrams_out (rt_interfaces r ! i) = [] \<Longrightarrow> route_queue i r = r"
  by (subst route_queue.simps) simp

text \<open>The queues of a router are empty after \<open>route\<close>, whatever was in them, and only they change.\<close>

lemma route_queue_eq:
  "i < length (rt_interfaces r) \<Longrightarrow> route_queue i r =
     r\<lparr>rt_interfaces := (rt_interfaces r)[i := (rt_interfaces r ! i)\<lparr>as_datagrams_out := []\<rparr>]\<rparr>"
proof (induction i r rule: route_queue.induct)
  case (1 i r)
  show ?case
  proof (cases "as_datagrams_out (rt_interfaces r ! i)")
    case Nil
    then have "rt_interfaces r ! i = (rt_interfaces r ! i)\<lparr>as_datagrams_out := []\<rparr>"
      by simp
    then show ?thesis
      using route_queue_idle [OF Nil] by (metis list_update_id router.surjective router.update_convs(1))
  next
    case (Cons dgram rest)
    then have "route_queue i r = route_queue i (pop_datagram i r)"
      using 1(2) by (subst route_queue.simps) (simp add: route_one_datagram_def)
    then show ?thesis
      using 1 Cons by (simp add: route_one_datagram_def pop_datagram_def)
  qed
qed

lemma eth_write_nothing: "eth_write seg a = Inr (seg', written, a') \<Longrightarrow> ni_frames_out (ea_interface a) = [] \<Longrightarrow> written = []"
  by (auto simp: eth_write_def send_pending_def ni_send_datagram_def split: sum.splits)

end
