(* ===== verification/Network_Simulator.thy ===== *)
theory Network_Simulator
  imports Network_Interface
begin

unbundle bit_operations_syntax

text \<open>
  \<open>apps/network_simulator.cc\<close>: six hosts around a router, the exchange of frames between them,
  and the sequence of tests. The random numbers are a function from the number of the draw, and
  the order in which the hash table of the hosts is walked is an argument. What goes to the
  console is left out, except for the messages of exceptions.
\<close>

section \<open>Helpers\<close>

definition text_bytes :: "string \<Rightarrow> byte list" where
  "text_bytes s = map of_char s"

definition bytes_text :: "byte list \<Rightarrow> string" where
  "bytes_text bs = map (\<lambda>b. char_of (unat b)) bs"

definition quad :: "u8 \<Rightarrow> u8 \<Rightarrow> u8 \<Rightarrow> u8 \<Rightarrow> u32" where
  "quad a b c d = (push_bit 24 (ucast a)) OR (push_bit 16 (ucast b)) OR (push_bit 8 (ucast c)) OR ucast d"

definition random_bytes :: "(nat \<Rightarrow> u32) \<Rightarrow> nat \<Rightarrow> byte list" where
  "random_bytes rd n = map (\<lambda>i. ucast (rd i)) [n..<n + 6]"

definition random_host_ethernet_address :: "(nat \<Rightarrow> u32) \<Rightarrow> nat \<Rightarrow> ethernet_address" where
  "random_host_ethernet_address rd n =
     (let addr = random_bytes rd n;
          addr = addr[0 := (addr ! 0) OR 0x02]
      in addr[0 := (addr ! 0) AND 0xfe])"

definition random_router_ethernet_address :: "(nat \<Rightarrow> u32) \<Rightarrow> nat \<Rightarrow> ethernet_address" where
  "random_router_ethernet_address rd n = (random_bytes rd n)[0 := 0x02, 1 := 0, 2 := 0]"

text \<open>Both queues lose as many elements as the first has.\<close>

definition clear_frames :: "ethernet_frame list \<Rightarrow> async_interface \<Rightarrow> async_interface" where
  "clear_frames queue1 x =
     x\<lparr>as_interface := (as_interface x)\<lparr>ni_frames_out := drop (length queue1) (frames_out x)\<rparr>\<rparr>"

definition frame_summary :: "ethernet_frame \<Rightarrow> string" where
  "frame_summary frame =
     ethernet_header_to_string (fr_header frame) @
     (if eth_type (fr_header frame) = TYPE_IPv4
      then let (res, dgram) = ipv4_datagram_parse (fr_payload frame) ipv4_datagram_new
           in if res = NoError
              then '' '' @ ipv4_header_summary (dg_header dgram) @ '' payload=\"'' @ bytes_text (dg_payload dgram) @ ''\"''
              else '' (bad IPv4)''
      else if eth_type (fr_header frame) = TYPE_ARP
      then let (res, arp) = arp_parse (fr_payload frame) arp_message_new
           in if res = NoError then '' '' @ arp_to_string arp else '' (bad ARP)''
      else '''')"

section \<open>Host\<close>

record host =
  hs_name :: string
  hs_my_address :: u32
  hs_interface :: async_interface
  hs_next_hop :: u32
  hs_expecting :: "ipv4_datagram list"

definition host_new :: "string \<Rightarrow> u32 \<Rightarrow> u32 \<Rightarrow> ethernet_address \<Rightarrow> host" where
  "host_new name my_address next_hop eth =
     \<lparr>hs_name = name, hs_my_address = my_address,
      hs_interface = async_interface_new (network_interface_new eth my_address), hs_next_hop = next_hop, hs_expecting = []\<rparr>"

fun expecting :: "ipv4_datagram \<Rightarrow> ipv4_datagram list \<Rightarrow> bool result" where
  "expecting expected [] = Inr False"
| "expecting expected (x # xs) =
     (case ipv4_datagram_serialize x of Inl e \<Rightarrow> Inl e | Inr a \<Rightarrow>
      case ipv4_datagram_serialize expected of Inl e \<Rightarrow> Inl e | Inr b \<Rightarrow>
        if a = b then Inr True else expecting expected xs)"

fun remove_expectation :: "ipv4_datagram \<Rightarrow> ipv4_datagram list \<Rightarrow> ipv4_datagram list result" where
  "remove_expectation expected [] = Inr []"
| "remove_expectation expected (x # xs) =
     (case ipv4_datagram_serialize x of Inl e \<Rightarrow> Inl e | Inr a \<Rightarrow>
      case ipv4_datagram_serialize expected of Inl e \<Rightarrow> Inl e | Inr b \<Rightarrow>
        if a = b then Inr xs
        else case remove_expectation expected xs of Inl e \<Rightarrow> Inl e | Inr xs' \<Rightarrow> Inr (x # xs'))"

definition send_to :: "u32 \<Rightarrow> u8 \<Rightarrow> u32 \<Rightarrow> host \<Rightarrow> ipv4_datagram \<times> host" where
  "send_to destination ttl random h =
     (let dgram = ipv4_datagram_new;
          hd = (dg_header dgram)\<lparr>ip_src := hs_my_address h, ip_dst := destination\<rparr>;
          body = text_bytes (''random payload: {'' @ dec (unat random) @ ''}'');
          hd = hd\<lparr>ip_len := of_nat (unat (ip_hlen hd) * 4 + length body)\<rparr>;
          hd = hd\<lparr>ip_ttl := ttl\<rparr>;
          dgram = \<lparr>dg_header = hd, dg_payload = body\<rparr>
      in (dgram, h\<lparr>hs_interface := async_send_datagram dgram (hs_next_hop h) (hs_interface h)\<rparr>))"

definition expect :: "ipv4_datagram \<Rightarrow> host \<Rightarrow> host" where
  "expect expected h = h\<lparr>hs_expecting := hs_expecting h @ [expected]\<rparr>"

definition datagram_text :: "ipv4_datagram \<Rightarrow> string" where
  "datagram_text d = ipv4_header_summary (dg_header d) @ '' payload=\"'' @ bytes_text (dg_payload d) @ ''\"''"

text \<open>The loop of \<open>check\<close> over the received datagrams.\<close>

fun check_received :: "string \<Rightarrow> ipv4_datagram list \<Rightarrow> ipv4_datagram list \<Rightarrow> ipv4_datagram list result" where
  "check_received name [] exps = Inr exps"
| "check_received name (d # ds) exps =
     (case expecting d exps of Inl e \<Rightarrow> Inl e | Inr known \<Rightarrow>
        if \<not> known
        then Inl (Runtime_Error (''Host '' @ name @ '' received unexpected Internet datagram: '' @ datagram_text d))
        else case remove_expectation d exps of Inl e \<Rightarrow> Inl e | Inr exps \<Rightarrow> check_received name ds exps)"

definition host_check :: "host \<Rightarrow> host result" where
  "host_check h =
     (case check_received (hs_name h) (as_datagrams_out (hs_interface h)) (hs_expecting h) of
        Inl e \<Rightarrow> Inl e
      | Inr exps \<Rightarrow>
          (case exps of
             expected # _ \<Rightarrow> Inl (Runtime_Error (''Host '' @ hs_name h @
               '' did NOT receive an expected Internet datagram: '' @ datagram_text expected))
           | [] \<Rightarrow> Inr (h\<lparr>hs_expecting := [], hs_interface := (hs_interface h)\<lparr>as_datagrams_out := []\<rparr>\<rparr>)))"

section \<open>Network\<close>

record network =
  nw_router :: router
  nw_hosts :: "(string \<times> host) list"
  nw_default_id :: nat
  nw_eth0_id :: nat
  nw_eth1_id :: nat
  nw_eth2_id :: nat
  nw_uun3_id :: nat
  nw_hs4_id :: nat
  nw_mit5_id :: nat

definition deliver :: "ethernet_frame list \<Rightarrow> async_interface \<Rightarrow> async_interface" where
  "deliver src dst = fold async_recv_frame src dst"

definition exchange_frames :: "async_interface \<Rightarrow> async_interface \<Rightarrow> async_interface \<times> async_interface" where
  "exchange_frames x y =
     (let x_frames = frames_out x; y_frames = frames_out y;
          y = deliver x_frames y;
          x = deliver y_frames x
      in (clear_frames x_frames x, clear_frames y_frames y))"

definition exchange_frames3 :: "async_interface \<Rightarrow> async_interface \<Rightarrow> async_interface \<Rightarrow>
    async_interface \<times> async_interface \<times> async_interface" where
  "exchange_frames3 x y z =
     (let x_frames = frames_out x; y_frames = frames_out y; z_frames = frames_out z;
          y = deliver x_frames y;
          z = deliver x_frames z;
          x = deliver y_frames x;
          z = deliver y_frames z;
          x = deliver z_frames x;
          y = deliver z_frames y
      in (clear_frames x_frames x, clear_frames y_frames y, clear_frames z_frames z))"

definition network_host :: "string \<Rightarrow> network \<Rightarrow> host result" where
  "network_host name n =
     (case map_of (nw_hosts n) name of
        None \<Rightarrow> Inl (Runtime_Error (''unknown host: '' @ name))
      | Some h \<Rightarrow> if hs_name h \<noteq> name then Inl (Runtime_Error (''invalid host: '' @ name)) else Inr h)"

text \<open>Writing back what the references returned by \<open>host\<close> and \<open>interface\<close> point to.\<close>

definition set_host :: "string \<Rightarrow> host \<Rightarrow> network \<Rightarrow> network" where
  "set_host name h n = n\<lparr>nw_hosts := map (\<lambda>(m, g). if m = name then (m, h) else (m, g)) (nw_hosts n)\<rparr>"

definition set_interface :: "nat \<Rightarrow> async_interface \<Rightarrow> network \<Rightarrow> network" where
  "set_interface i x n = n\<lparr>nw_router := (nw_router n)\<lparr>rt_interfaces := (rt_interfaces (nw_router n))[i := x]\<rparr>\<rparr>"

definition host_specs :: "(string \<times> u32 \<times> u32) list" where
  "host_specs =
     [(''applesauce'', quad 10 0 0 2, quad 10 0 0 1), (''default_router'', quad 171 67 76 1, 0),
      (''cherrypie'', quad 192 168 0 2, quad 192 168 0 1), (''hs_router'', quad 143 195 0 1, 0),
      (''dm42'', quad 198 178 229 42, quad 198 178 229 1), (''dm43'', quad 198 178 229 43, quad 198 178 229 1)]"

definition router_addresses :: "u32 list" where
  "router_addresses = [quad 171 67 76 46, quad 10 0 0 1, quad 172 16 0 1, quad 192 168 0 1, quad 198 178 229 1,
     quad 143 195 0 2, quad 128 30 76 255]"

text \<open>The interfaces are added in order, so their numbers are 0 to 6; each address takes six draws.\<close>

definition network_new :: "(nat \<Rightarrow> u32) \<Rightarrow> network result" where
  "network_new rd =
     (let r = fold (\<lambda>(i, ip) r. snd (add_interface (async_interface_new (network_interface_new
                (random_router_ethernet_address rd (6 * i)) ip)) r)) (enumerate 0 router_addresses) router_new;
          hosts = map (\<lambda>(i, name, ip, hop). (name, host_new name ip hop (random_host_ethernet_address rd (6 * i))))
                    (enumerate 7 host_specs);
          n = \<lparr>nw_router = r, nw_hosts = hosts, nw_default_id = 0, nw_eth0_id = 1, nw_eth1_id = 2, nw_eth2_id = 3,
               nw_uun3_id = 4, nw_hs4_id = 5, nw_mit5_id = 6\<rparr>
      in case network_host ''default_router'' n of Inl e \<Rightarrow> Inl e | Inr dr \<Rightarrow>
         case network_host ''hs_router'' n of Inl e \<Rightarrow> Inl e | Inr hr \<Rightarrow>
           let r = nw_router n;
               r = add_route (quad 0 0 0 0) 0 (Some (hs_my_address dr)) (nw_default_id n) r;
               r = add_route (quad 10 0 0 0) 8 None (nw_eth0_id n) r;
               r = add_route (quad 172 16 0 0) 16 None (nw_eth1_id n) r;
               r = add_route (quad 192 168 0 0) 24 None (nw_eth2_id n) r;
               r = add_route (quad 198 178 229 0) 24 None (nw_uun3_id n) r;
               r = add_route (quad 143 195 0 0) 17 (Some (hs_my_address hr)) (nw_hs4_id n) r;
               r = add_route (quad 143 195 128 0) 18 (Some (hs_my_address hr)) (nw_hs4_id n) r;
               r = add_route (quad 143 195 192 0) 19 (Some (hs_my_address hr)) (nw_hs4_id n) r;
               r = add_route (quad 128 30 76 255) 16 (Some (quad 128 30 0 1)) (nw_mit5_id n) r
           in Inr (n\<lparr>nw_router := r\<rparr>))"

text \<open>One link between an interface of the router and a host.\<close>

definition link_exchange :: "nat \<Rightarrow> string \<Rightarrow> network \<Rightarrow> network result" where
  "link_exchange i name n =
     (case router_interface i (nw_router n) of Inl e \<Rightarrow> Inl e | Inr x \<Rightarrow>
      case network_host name n of Inl e \<Rightarrow> Inl e | Inr h \<Rightarrow>
        let (x, y) = exchange_frames x (hs_interface h)
        in Inr (set_host name (h\<lparr>hs_interface := y\<rparr>) (set_interface i x n)))"

definition link_exchange3 :: "nat \<Rightarrow> string \<Rightarrow> string \<Rightarrow> network \<Rightarrow> network result" where
  "link_exchange3 i name1 name2 n =
     (case router_interface i (nw_router n) of Inl e \<Rightarrow> Inl e | Inr x \<Rightarrow>
      case network_host name1 n of Inl e \<Rightarrow> Inl e | Inr g \<Rightarrow>
      case network_host name2 n of Inl e \<Rightarrow> Inl e | Inr h \<Rightarrow>
        let (x, y, z) = exchange_frames3 x (hs_interface g) (hs_interface h)
        in Inr (set_host name2 (h\<lparr>hs_interface := z\<rparr>) (set_host name1 (g\<lparr>hs_interface := y\<rparr>) (set_interface i x n))))"

definition simulate_physical_connections :: "network \<Rightarrow> network result" where
  "simulate_physical_connections n =
     (case link_exchange (nw_default_id n) ''default_router'' n of Inl e \<Rightarrow> Inl e | Inr n \<Rightarrow>
      case link_exchange (nw_eth0_id n) ''applesauce'' n of Inl e \<Rightarrow> Inl e | Inr n \<Rightarrow>
      case link_exchange (nw_eth2_id n) ''cherrypie'' n of Inl e \<Rightarrow> Inl e | Inr n \<Rightarrow>
      case link_exchange (nw_hs4_id n) ''hs_router'' n of Inl e \<Rightarrow> Inl e | Inr n \<Rightarrow>
        link_exchange3 (nw_uun3_id n) ''dm42'' ''dm43'' n)"

fun simulate_rounds :: "nat \<Rightarrow> network \<Rightarrow> network result" where
  "simulate_rounds 0 n = Inr n"
| "simulate_rounds (Suc i) n =
     (case simulate_physical_connections (n\<lparr>nw_router := route (nw_router n)\<rparr>) of
        Inl e \<Rightarrow> Inl e | Inr n \<Rightarrow> simulate_rounds i n)"

fun check_hosts :: "string list \<Rightarrow> network \<Rightarrow> network result" where
  "check_hosts [] n = Inr n"
| "check_hosts (name # names) n =
     (case map_of (nw_hosts n) name of
        None \<Rightarrow> check_hosts names n
      | Some h \<Rightarrow> (case host_check h of Inl e \<Rightarrow> Inl e | Inr h \<Rightarrow> check_hosts names (set_host name h n)))"

definition simulate :: "string list \<Rightarrow> network \<Rightarrow> network result" where
  "simulate order n = (case simulate_rounds 256 n of Inl e \<Rightarrow> Inl e | Inr n \<Rightarrow> check_hosts order n)"

section \<open>The tests\<close>

text \<open>
  One block of the program: a host sends, and unless the block expects nothing the datagram with
  its TTL decremented is expected at another host; then the network is simulated.
\<close>

definition traffic_test :: "string list \<Rightarrow> u32 \<Rightarrow> string \<Rightarrow> (network \<Rightarrow> u32 result) \<Rightarrow> u8 \<Rightarrow> string option \<Rightarrow> network \<Rightarrow> network result" where
  "traffic_test order random sender dest ttl receiver n =
     (case dest n of Inl e \<Rightarrow> Inl e | Inr dst \<Rightarrow>
      case network_host sender n of Inl e \<Rightarrow> Inl e | Inr h \<Rightarrow>
        let (dgram_sent, h) = send_to dst ttl random h;
            n = set_host sender h n
        in case receiver of
             None \<Rightarrow> simulate order n
           | Some name \<Rightarrow>
               let dgram_sent = dgram_sent\<lparr>dg_header := (dg_header dgram_sent)\<lparr>ip_ttl := ip_ttl (dg_header dgram_sent) - 1\<rparr>\<rparr>
               in case network_host name n of Inl e \<Rightarrow> Inl e | Inr g \<Rightarrow>
                    simulate order (set_host name (expect dgram_sent g) n))"

definition to_host :: "string \<Rightarrow> network \<Rightarrow> u32 result" where
  "to_host name n = (case network_host name n of Inl e \<Rightarrow> Inl e | Inr h \<Rightarrow> Inr (hs_my_address h))"

definition simulator_tests :: "(string \<times> (network \<Rightarrow> u32 result) \<times> u8 \<times> string option) list" where
  "simulator_tests =
     [(''applesauce'', to_host ''cherrypie'', 64, Some ''cherrypie''),
      (''cherrypie'', to_host ''applesauce'', 64, Some ''applesauce''),
      (''applesauce'', (\<lambda>_. Inr (quad 1 2 3 4)), 64, Some ''default_router''),
      (''applesauce'', (\<lambda>_. Inr (quad 143 195 131 17)), 64, Some ''hs_router''),
      (''cherrypie'', (\<lambda>_. Inr (quad 143 195 193 52)), 64, Some ''hs_router''),
      (''cherrypie'', (\<lambda>_. Inr (quad 143 195 223 255)), 64, Some ''hs_router''),
      (''cherrypie'', (\<lambda>_. Inr (quad 143 195 224 0)), 64, Some ''default_router''),
      (''dm42'', to_host ''dm43'', 64, Some ''dm43''),
      (''applesauce'', (\<lambda>_. Inr (quad 1 2 3 4)), 1, None),
      (''applesauce'', (\<lambda>_. Inr (quad 1 2 3 4)), 0, None)]"

fun run_tests :: "string list \<Rightarrow> (nat \<Rightarrow> u32) \<Rightarrow> nat \<Rightarrow> (string \<times> (network \<Rightarrow> u32 result) \<times> u8 \<times> string option) list \<Rightarrow>
    network \<Rightarrow> network result" where
  "run_tests order rd i [] n = Inr n"
| "run_tests order rd i ((sender, dest, ttl, receiver) # tests) n =
     (case traffic_test order (rd i) sender dest ttl receiver n of
        Inl e \<Rightarrow> Inl e | Inr n \<Rightarrow> run_tests order rd (Suc i) tests n)"

text \<open>The addresses have taken 78 draws.\<close>

definition network_simulator :: "string list \<Rightarrow> (nat \<Rightarrow> u32) \<Rightarrow> network result" where
  "network_simulator order rd =
     (case network_new rd of Inl e \<Rightarrow> Inl e | Inr n \<Rightarrow> run_tests order rd 78 simulator_tests n)"

section \<open>Nothing is ever delivered\<close>

definition quiet_interface :: "async_interface \<Rightarrow> bool" where
  "quiet_interface x \<longleftrightarrow> frames_out x = [] \<and> as_datagrams_out x = []"

definition quiet :: "network \<Rightarrow> bool" where
  "quiet n \<longleftrightarrow> (\<forall>x \<in> set (rt_interfaces (nw_router n)). quiet_interface x) \<and>
     (\<forall>(name, h) \<in> set (nw_hosts n). quiet_interface (hs_interface h) \<and> hs_name h = name) \<and> distinct (map fst (nw_hosts n))"

lemma exchange_quiet:
  "quiet_interface x \<Longrightarrow> quiet_interface y \<Longrightarrow> exchange_frames x y = (x, y)"
  "quiet_interface x \<Longrightarrow> quiet_interface y \<Longrightarrow> quiet_interface z \<Longrightarrow> exchange_frames3 x y z = (x, y, z)"
  by (simp_all add: exchange_frames_def exchange_frames3_def quiet_interface_def deliver_def clear_frames_def frames_out_def)

lemma set_host_same: "distinct (map fst (nw_hosts n)) \<Longrightarrow> map_of (nw_hosts n) name = Some h \<Longrightarrow> set_host name h n = n"
proof -
  assume d: "distinct (map fst (nw_hosts n))" and m: "map_of (nw_hosts n) name = Some h"
  have "(\<lambda>(m, g). if m = name then (m, h) else (m, g)) (k, g) = (k, g)" if "(k, g) \<in> set (nw_hosts n)" for k g
    using map_of_is_SomeI [OF d that] m by auto
  then have "(\<lambda>(m, g). if m = name then (m, h) else (m, g)) p = p" if "p \<in> set (nw_hosts n)" for p
    using that by (cases p) blast
  then have "map (\<lambda>(m, g). if m = name then (m, h) else (m, g)) (nw_hosts n) = nw_hosts n"
    by (simp add: map_idI)
  then show ?thesis
    by (simp add: set_host_def)
qed

lemma link_quiet:
  assumes q: "quiet n" and i: "i < length (rt_interfaces (nw_router n))" and h: "map_of (nw_hosts n) name = Some h"
  shows "link_exchange i name n = Inr n"
proof -
  have mem: "(name, h) \<in> set (nw_hosts n)"
    using h by (rule map_of_SomeD)
  have qi: "quiet_interface (hs_interface h)" "hs_name h = name" "quiet_interface (rt_interfaces (nw_router n) ! i)"
    using q mem i by (auto simp: quiet_def)
  then have "link_exchange i name n = Inr (set_host name h n)"
    using i h by (simp add: link_exchange_def router_interface_def network_host_def exchange_quiet set_interface_def)
  then show ?thesis
    using set_host_same [OF _ h] q by (simp add: quiet_def)
qed

lemma link3_quiet:
  assumes q: "quiet n" and i: "i < length (rt_interfaces (nw_router n))" and g: "map_of (nw_hosts n) name1 = Some g"
    and h: "map_of (nw_hosts n) name2 = Some h"
  shows "link_exchange3 i name1 name2 n = Inr n"
proof -
  have mem: "(name1, g) \<in> set (nw_hosts n)" "(name2, h) \<in> set (nw_hosts n)"
    using g h by (auto dest: map_of_SomeD)
  have qi: "quiet_interface (hs_interface g)" "hs_name g = name1" "quiet_interface (hs_interface h)" "hs_name h = name2"
    "quiet_interface (rt_interfaces (nw_router n) ! i)"
    using q mem i by (auto simp: quiet_def)
  then have "link_exchange3 i name1 name2 n = Inr (set_host name2 h (set_host name1 g n))"
    using i g h by (simp add: link_exchange3_def router_interface_def network_host_def exchange_quiet set_interface_def)
  then show ?thesis
    using set_host_same [OF _ g] set_host_same [OF _ h] q by (simp add: quiet_def)
qed

lemma route_idle:
  assumes "\<forall>x \<in> set (rt_interfaces r). quiet_interface x"
  shows "route r = r"
proof -
  have "as_datagrams_out (rt_interfaces r ! i) = []" if "i < length (rt_interfaces r)" for i
    using assms that by (simp add: quiet_interface_def)
  then have "fold route_queue [0..<m] r = r" if "m \<le> length (rt_interfaces r)" for m
    using that by (induction m) (simp_all add: route_queue_idle)
  then show ?thesis
    by (simp add: route_def)
qed

lemma route_quiet: "quiet n \<Longrightarrow> route (nw_router n) = nw_router n"
  by (simp add: quiet_def route_idle)

text \<open>The shape of the simulated network.\<close>

definition wired :: "network \<Rightarrow> bool" where
  "wired n \<longleftrightarrow> quiet n \<and> length (rt_interfaces (nw_router n)) = 7 \<and> nw_default_id n = 0 \<and> nw_eth0_id n = 1 \<and>
     nw_eth2_id n = 3 \<and> nw_hs4_id n = 5 \<and> nw_uun3_id n = 4 \<and> map fst (nw_hosts n) = map fst host_specs"

lemma wired_host:
  assumes "wired n" "name \<in> set (map fst host_specs)"
  obtains h where "map_of (nw_hosts n) name = Some h" "network_host name n = Inr h" "(name, h) \<in> set (nw_hosts n)"
    "quiet_interface (hs_interface h)" "hs_name h = name"
proof -
  have "name \<in> set (map fst (nw_hosts n))"
    using assms by (simp add: wired_def)
  then obtain h where h: "map_of (nw_hosts n) name = Some h"
    by (metis dom_map_of_conv_image_fst domD set_map)
  have mem: "(name, h) \<in> set (nw_hosts n)"
    using h by (rule map_of_SomeD)
  then have "quiet_interface (hs_interface h)" "hs_name h = name"
    using assms(1) by (auto simp: wired_def quiet_def)
  then show thesis
    using that h mem by (simp add: network_host_def)
qed

lemma physical_quiet:
  assumes w: "wired n"
  shows "simulate_physical_connections n = Inr n"
proof -
  have q: "quiet n" and l: "length (rt_interfaces (nw_router n)) = 7"
    using w by (simp_all add: wired_def)
  obtain h1 where h1: "map_of (nw_hosts n) ''default_router'' = Some h1"
    using wired_host [OF w] by (auto simp: host_specs_def)
  obtain h2 where h2: "map_of (nw_hosts n) ''applesauce'' = Some h2"
    using wired_host [OF w] by (auto simp: host_specs_def)
  obtain h3 where h3: "map_of (nw_hosts n) ''cherrypie'' = Some h3"
    using wired_host [OF w] by (auto simp: host_specs_def)
  obtain h4 where h4: "map_of (nw_hosts n) ''hs_router'' = Some h4"
    using wired_host [OF w] by (auto simp: host_specs_def)
  obtain h5 where h5: "map_of (nw_hosts n) ''dm42'' = Some h5"
    using wired_host [OF w] by (auto simp: host_specs_def)
  obtain h6 where h6: "map_of (nw_hosts n) ''dm43'' = Some h6"
    using wired_host [OF w] by (auto simp: host_specs_def)
  show ?thesis
    using w link_quiet [OF q _ h1, of 0] link_quiet [OF q _ h2, of 1] link_quiet [OF q _ h3, of 3]
      link_quiet [OF q _ h4, of 5] link3_quiet [OF q _ h5 h6, of 4] l
    by (simp add: simulate_physical_connections_def wired_def)
qed

lemma rounds_quiet: "wired n \<Longrightarrow> simulate_rounds i n = Inr n"
  by (induction i) (simp_all add: physical_quiet route_quiet wired_def [of n])

lemma host_check_idle: "quiet_interface (hs_interface h) \<Longrightarrow> hs_expecting h = [] \<Longrightarrow> host_check h = Inr h"
  by (simp add: host_check_def quiet_interface_def)

lemma check_hosts_missing:
  assumes w: "wired n" and x: "(x, g) \<in> set (nw_hosts n)" "hs_expecting g = [d]"
    and others: "\<And>name h. (name, h) \<in> set (nw_hosts n) \<Longrightarrow> name \<noteq> x \<Longrightarrow> hs_expecting h = []"
    and "x \<in> set order"
  shows "check_hosts order n =
    Inl (Runtime_Error (''Host '' @ x @ '' did NOT receive an expected Internet datagram: '' @ datagram_text d))"
  using assms(5)
proof (induction order)
  case (Cons name names)
  have d: "distinct (map fst (nw_hosts n))"
    using w unfolding wired_def quiet_def by blast
  have q: "quiet_interface (hs_interface h) \<and> hs_name h = k" if "(k, h) \<in> set (nw_hosts n)" for k h
    using w that by (auto simp: wired_def quiet_def)
  show ?case
  proof (cases "name = x")
    case True
    then show ?thesis
      using map_of_is_SomeI [OF d x(1)] q [OF x(1)] x(2) by (simp add: host_check_def quiet_interface_def)
  next
    case False
    show ?thesis
    proof (cases "map_of (nw_hosts n) name")
      case (Some h)
      have mem: "(name, h) \<in> set (nw_hosts n)"
        using Some by (rule map_of_SomeD)
      have "host_check h = Inr h"
        using q [OF mem] others [OF mem False] by (simp add: host_check_idle)
      then show ?thesis
        using Cons False Some set_host_same [OF d Some] by simp
    qed (use Cons False in simp)
  qed
qed simp

lemma wired_set_host:
  assumes w: "wired n" and h: "quiet_interface (hs_interface h)" "hs_name h = name"
  shows "wired (set_host name h n)"
proof -
  have f: "map fst (nw_hosts (set_host name h n)) = map fst (nw_hosts n)"
    by (induction "nw_hosts n") (auto simp: set_host_def)
  have "quiet_interface (hs_interface g) \<and> hs_name g = k" if "(k, g) \<in> set (nw_hosts (set_host name h n))" for k g
    using that w h by (auto simp: set_host_def wired_def quiet_def split: if_splits)
  then have hq: "\<forall>(k, g) \<in> set (nw_hosts (set_host name h n)). quiet_interface (hs_interface g) \<and> hs_name g = k"
    by blast
  have r: "nw_router (set_host name h n) = nw_router n"
    by (simp add: set_host_def)
  have "quiet (set_host name h n)"
    using w hq unfolding wired_def quiet_def f r by blast
  then show ?thesis
    using w f unfolding wired_def by (simp add: set_host_def)
qed

lemma network_new_wired:
  obtains n where "network_new rd = Inr n" "wired n"
    "nw_hosts n = map (\<lambda>(i, name, ip, hop). (name, host_new name ip hop (random_host_ethernet_address rd (6 * i)))) (enumerate 7 host_specs)"
proof -
  obtain n where n: "network_new rd = Inr n"
    "nw_hosts n = map (\<lambda>(i, name, ip, hop). (name, host_new name ip hop (random_host_ethernet_address rd (6 * i)))) (enumerate 7 host_specs)"
    "rt_interfaces (nw_router n) = map (\<lambda>(i, ip). async_interface_new (network_interface_new
       (random_router_ethernet_address rd (6 * i)) ip)) (enumerate 0 router_addresses)"
    "nw_default_id n = 0" "nw_eth0_id n = 1" "nw_eth2_id n = 3" "nw_uun3_id n = 4" "nw_hs4_id n = 5"
    by (simp add: network_new_def network_host_def host_specs_def host_new_def router_addresses_def add_interface_def
        router_new_def add_route_def Let_def)
  have "wired n"
    using n(4-8) unfolding wired_def quiet_def n(2,3)
    by (auto simp: host_specs_def router_addresses_def quiet_interface_def host_new_def async_interface_new_def
        network_interface_new_def frames_out_def)
  then show thesis
    using that n by blast
qed

section \<open>Property\<close>

text \<open>
  C39. With the network interface and the router the repository has, the simulation never
  succeeds: whatever the random numbers, and in whatever order the hosts are walked, it stops in
  its first test with the complaint that the host \<open>cherrypie\<close> did not receive the datagram
  that \<open>applesauce\<close> sent to it.
\<close>

theorem simulator_first_test_fails:
  assumes "''cherrypie'' \<in> set order"
  shows "\<exists>d. network_simulator order rd = Inl (Runtime_Error
      (''Host cherrypie did NOT receive an expected Internet datagram: '' @ datagram_text d)) \<and>
    ip_src (dg_header d) = quad 10 0 0 2 \<and> ip_dst (dg_header d) = quad 192 168 0 2 \<and> ip_ttl (dg_header d) = 63"
proof -
  obtain n where n: "network_new rd = Inr n" and w: "wired n"
    and hosts: "nw_hosts n = map (\<lambda>(i, name, ip, hop). (name, host_new name ip hop (random_host_ethernet_address rd (6 * i)))) (enumerate 7 host_specs)"
    by (rule network_new_wired)
  define a where "a = host_new ''applesauce'' (quad 10 0 0 2) (quad 10 0 0 1) (random_host_ethernet_address rd 42)"
  define c where "c = host_new ''cherrypie'' (quad 192 168 0 2) (quad 192 168 0 1) (random_host_ethernet_address rd 54)"
  define d where "d = fst (send_to (quad 192 168 0 2) 64 (rd 78) a)"
  define d' where "d' = d\<lparr>dg_header := (dg_header d)\<lparr>ip_ttl := ip_ttl (dg_header d) - 1\<rparr>\<rparr>"
  define n' where "n' = set_host ''cherrypie'' (expect d' c) n"
  have s: "send_to (quad 192 168 0 2) 64 (rd 78) a = (d, a)"
    by (simp add: d_def send_to_def async_send_datagram_def ni_send_datagram_def Let_def)
  have m: "map_of (nw_hosts n) ''applesauce'' = Some a" "map_of (nw_hosts n) ''cherrypie'' = Some c"
    by (simp_all add: hosts host_specs_def a_def c_def)
  have dist: "distinct (map fst (nw_hosts n))"
    using w unfolding wired_def quiet_def by blast
  have f: "hs_name a = ''applesauce''" "hs_name c = ''cherrypie''" "hs_my_address c = quad 192 168 0 2"
    "quiet_interface (hs_interface c)" "hs_expecting c = []"
    by (simp_all add: a_def c_def host_new_def quiet_interface_def async_interface_new_def network_interface_new_def frames_out_def)
  have w': "wired n'"
    unfolding n'_def by (rule wired_set_host [OF w]) (use f in \<open>simp_all add: expect_def\<close>)
  have mem: "(''cherrypie'', expect d' c) \<in> set (nw_hosts n')"
    using map_of_SomeD [OF m(2)] by (force simp: n'_def set_host_def)
  have others: "hs_expecting h = []" if "(name, h) \<in> set (nw_hosts n')" "name \<noteq> ''cherrypie''" for name h
    using that by (auto simp: n'_def set_host_def hosts host_specs_def host_new_def split: if_splits)
  have "simulate order n' = Inl (Runtime_Error (''Host '' @ ''cherrypie'' @
      '' did NOT receive an expected Internet datagram: '' @ datagram_text d'))"
    using rounds_quiet [OF w', of 256] check_hosts_missing [OF w' mem _ others assms] f(5)
    by (simp add: simulate_def expect_def)
  moreover have "traffic_test order (rd 78) ''applesauce'' (to_host ''cherrypie'') 64 (Some ''cherrypie'') n = simulate order n'"
    using m f s set_host_same [OF dist m(1)]
    by (simp add: traffic_test_def to_host_def network_host_def n'_def d'_def Let_def)
  ultimately have "network_simulator order rd = Inl (Runtime_Error
      (''Host cherrypie did NOT receive an expected Internet datagram: '' @ datagram_text d'))"
    by (simp add: network_simulator_def n simulator_tests_def)
  moreover have "ip_src (dg_header d') = quad 10 0 0 2" "ip_dst (dg_header d') = quad 192 168 0 2" "ip_ttl (dg_header d') = 63"
    by (simp_all add: d'_def d_def send_to_def a_def host_new_def Let_def)
  ultimately show ?thesis
    by blast
qed

theorem simulator_first_test_fails_witness:
  "\<exists>d. network_simulator (map fst host_specs) (\<lambda>_. 7) = Inl (Runtime_Error
      (''Host cherrypie did NOT receive an expected Internet datagram: '' @ datagram_text d)) \<and>
    ip_src (dg_header d) = quad 10 0 0 2 \<and> ip_dst (dg_header d) = quad 192 168 0 2 \<and> ip_ttl (dg_header d) = 63"
  by (rule simulator_first_test_fails) (simp add: host_specs_def)

end
