(* ===== verification/Sponge_Socket.thy ===== *)
theory Sponge_Socket
  imports Event_Loop Kernel_Calls Network_Interface Connection_Props
begin

unbundle bit_operations_syntax

text \<open>
  The socket that runs a TCP connection: \<open>libsponge/tcp_helpers/tcp_sponge_socket.hh\<close> and
  \<open>tcp_sponge_socket.cc\<close>. The template parameter \<open>AdaptT\<close> is a record of operations, of which
  the adapters of \<open>TCP_Over_IP\<close> are instances. The thread that runs the connection is a
  sequence of turns: what \<open>poll\<close> answered, what the clock showed and whether the owner had asked
  to abort. Messages to the console are left out.
\<close>

section \<open>The adapter parameter\<close>

record 'a adapter_ops =
  ao_fd :: "'a \<Rightarrow> fd_wrapper"
  ao_read :: "'a \<Rightarrow> (tcp_segment option \<times> 'a) result"
  ao_write :: "tcp_segment \<Rightarrow> 'a \<Rightarrow> 'a result"
  ao_set_config :: "fd_adapter_config \<Rightarrow> 'a \<Rightarrow> 'a"
  ao_set_listening :: "bool \<Rightarrow> 'a \<Rightarrow> 'a"
  ao_tick :: "nat \<Rightarrow> 'a \<Rightarrow> 'a result"

section \<open>State\<close>

record ('a, 'k) sponge =
  sp_socket :: fd_wrapper
  sp_thread_data :: fd_wrapper
  sp_adapter :: 'a
  sp_tcp :: "tcp_connection option"
  sp_abort :: bool
  sp_inbound_shutdown :: bool
  sp_outbound_shutdown :: bool
  sp_fully_acked :: bool
  sp_thread :: bool
  sp_kernel :: 'k

definition TCP_TICK_MS :: int where "TCP_TICK_MS = 10"

definition ADAPTER :: nat where "ADAPTER = 0"
definition THREAD_DATA :: nat where "THREAD_DATA = 1"
definition OWNER :: nat where "OWNER = 2"

definition sponge_fds :: "'a adapter_ops \<Rightarrow> ('a, 'k) sponge fd_table" where
  "sponge_fds A s i =
     (if i = ADAPTER then ao_fd A (sp_adapter s) else if i = THREAD_DATA then sp_thread_data s else sp_socket s)"

text \<open>Using the connection when there is none.\<close>

definition no_tcp :: exn where "no_tcp = Runtime_Error ''bad_optional_access''"

section \<open>Construction\<close>

definition AF_UNIX :: int where "AF_UNIX = 1"

definition socket_pair_helper :: "sysret \<Rightarrow> int \<times> int \<Rightarrow> (fd_wrapper \<times> fd_wrapper) result" where
  "socket_pair_helper ret fds =
     (case system_call ''socketpair'' ret 0 of Inl e \<Rightarrow> Inl e | Inr _ \<Rightarrow>
      case fdw_new (fst fds) of Inl e \<Rightarrow> Inl e | Inr a \<Rightarrow>
      case fdw_new (snd fds) of Inl e \<Rightarrow> Inl e | Inr b \<Rightarrow> Inr (a, b))"

text \<open>Both ends are checked to be local stream sockets; the thread's end does not block.\<close>

definition sponge_new :: "fd_wrapper \<times> fd_wrapper \<Rightarrow> 'a \<Rightarrow> 'k \<Rightarrow> sockopt \<times> sockopt \<Rightarrow> sockopt \<times> sockopt \<Rightarrow> sysret \<Rightarrow>
    (u32 \<Rightarrow> sysret) \<Rightarrow> ('a, 'k) sponge result" where
  "sponge_new data_socket_pair datagram_interface k opts1 opts2 getfl setfl =
     (case socket_of_fd (fst data_socket_pair) AF_UNIX SOCK_STREAM (fst opts1) (snd opts1) of Inl e \<Rightarrow> Inl e | Inr own \<Rightarrow>
      case socket_of_fd (snd data_socket_pair) AF_UNIX SOCK_STREAM (fst opts2) (snd opts2) of Inl e \<Rightarrow> Inl e | Inr thr \<Rightarrow>
      case fd_set_blocking False getfl setfl of Inl e \<Rightarrow> Inl e | Inr _ \<Rightarrow>
        Inr \<lparr>sp_socket = own, sp_thread_data = thr, sp_adapter = datagram_interface, sp_tcp = None, sp_abort = False,
             sp_inbound_shutdown = False, sp_outbound_shutdown = False, sp_fully_acked = False, sp_thread = False,
             sp_kernel = k\<rparr>)"

definition sponge_open :: "sysret \<Rightarrow> int \<times> int \<Rightarrow> 'a \<Rightarrow> 'k \<Rightarrow> sockopt \<times> sockopt \<Rightarrow> sockopt \<times> sockopt \<Rightarrow> sysret \<Rightarrow>
    (u32 \<Rightarrow> sysret) \<Rightarrow> ('a, 'k) sponge result" where
  "sponge_open ret fds datagram_interface k opts1 opts2 getfl setfl =
     (case socket_pair_helper ret fds of Inl e \<Rightarrow> Inl e
      | Inr p \<Rightarrow> sponge_new p datagram_interface k opts1 opts2 getfl setfl)"

section \<open>The four rules\<close>

definition datagram_callback :: "'a adapter_ops \<Rightarrow> ('a, 'k) sponge \<Rightarrow> ('a, 'k) sponge result" where
  "datagram_callback A s =
     (case sp_tcp s of None \<Rightarrow> Inl no_tcp | Some tcp \<Rightarrow>
      case ao_read A (sp_adapter s) of Inl e \<Rightarrow> Inl e | Inr (seg, a) \<Rightarrow>
        let tcp = (case seg of Some seg \<Rightarrow> conn_segment_received seg tcp | None \<Rightarrow> tcp);
            s = s\<lparr>sp_adapter := a, sp_tcp := Some tcp\<rparr>
        in Inr (if fdw_eof (sp_thread_data s) \<and> conn_bytes_in_flight tcp = 0 \<and> \<not> sp_fully_acked s
                then s\<lparr>sp_fully_acked := True\<rparr> else s))"

definition tcp_active :: "('a, 'k) sponge \<Rightarrow> bool" where
  "tcp_active s = (case sp_tcp s of None \<Rightarrow> False | Some tcp \<Rightarrow> conn_active tcp)"

definition pipe_in_callback :: "'k kernel_calls \<Rightarrow> ('a, 'k) sponge \<Rightarrow> ('a, 'k) sponge result" where
  "pipe_in_callback K s =
     (case sp_tcp s of None \<Rightarrow> Inl no_tcp | Some tcp \<Rightarrow>
        let (r, w, k) = kernel_read K THREAD_DATA (conn_remaining_outbound_capacity tcp) (sp_kernel s) (sp_thread_data s)
        in case r of
             Inl e \<Rightarrow> Inl e
           | Inr data \<Rightarrow>
               let (amount_written, tcp) = conn_write data tcp
               in if amount_written \<noteq> length data
                  then Inl (Runtime_Error ''TCPConnection::write() accepted less than advertised length'')
                  else let s = s\<lparr>sp_thread_data := w, sp_kernel := k, sp_tcp := Some tcp\<rparr>
                       in Inr (if fdw_eof w
                               then s\<lparr>sp_tcp := Some (conn_end_input_stream tcp), sp_outbound_shutdown := True\<rparr> else s))"

definition pipe_in_interest :: "('a, 'k) sponge \<Rightarrow> bool" where
  "pipe_in_interest s \<longleftrightarrow> tcp_active s \<and> \<not> sp_outbound_shutdown s \<and>
     (case sp_tcp s of None \<Rightarrow> False | Some tcp \<Rightarrow> conn_remaining_outbound_capacity tcp > 0)"

definition pipe_in_cancel :: "('a, 'k) sponge \<Rightarrow> ('a, 'k) sponge result" where
  "pipe_in_cancel s =
     (case sp_tcp s of None \<Rightarrow> Inl no_tcp
      | Some tcp \<Rightarrow> Inr (s\<lparr>sp_tcp := Some (conn_end_input_stream tcp), sp_outbound_shutdown := True\<rparr>))"

abbreviation inbound_stream :: "tcp_connection \<Rightarrow> byte_stream" where
  "inbound_stream tcp \<equiv> rcv_stream_out (conn_receiver tcp)"

text \<open>
  Popping what was written is reading it: \<open>pop_output\<close> on the reference to the inbound stream is
  the read of the connection.
\<close>

definition pipe_out_callback :: "'k kernel_calls \<Rightarrow> ('a, 'k) sponge \<Rightarrow> ('a, 'k) sponge result" where
  "pipe_out_callback K s =
     (case sp_tcp s of None \<Rightarrow> Inl no_tcp | Some tcp \<Rightarrow>
        let inbound = inbound_stream tcp;
            amount_to_write = min 65536 (bs_buffer_size inbound);
            buffer = bs_peek_output amount_to_write inbound;
            (r, k, w) = fd_write (kc_writev K THREAD_DATA) (bvl_from_view buffer) False (sp_kernel s) (sp_thread_data s)
        in case r of
             Inl e \<Rightarrow> Inl e
           | Inr bytes_written \<Rightarrow>
               let tcp = snd (conn_read bytes_written tcp);
                   s = s\<lparr>sp_thread_data := w, sp_kernel := k, sp_tcp := Some tcp\<rparr>
               in if bs_eof (inbound_stream tcp) \<or> bs_error (inbound_stream tcp)
                  then let (ret, k) = kc_shutdown K THREAD_DATA SHUT_WR k
                       in case socket_shutdown ret SHUT_WR w of
                            (Inl e, _) \<Rightarrow> Inl e
                          | (Inr _, w) \<Rightarrow> Inr (s\<lparr>sp_thread_data := w, sp_kernel := k, sp_inbound_shutdown := True\<rparr>)
                  else Inr s)"

definition pipe_out_interest :: "('a, 'k) sponge \<Rightarrow> bool" where
  "pipe_out_interest s =
     (case sp_tcp s of None \<Rightarrow> False | Some tcp \<Rightarrow>
        let inbound = inbound_stream tcp
        in \<not> bs_buffer_empty inbound \<or> (bs_eof inbound \<or> bs_error inbound) \<and> \<not> sp_inbound_shutdown s)"

fun send_loop :: "'a adapter_ops \<Rightarrow> tcp_segment list \<Rightarrow> 'a \<Rightarrow> 'a result" where
  "send_loop A [] a = Inr a"
| "send_loop A (seg # segs) a = (case ao_write A seg a of Inl e \<Rightarrow> Inl e | Inr a \<Rightarrow> send_loop A segs a)"

definition segments_callback :: "'a adapter_ops \<Rightarrow> ('a, 'k) sponge \<Rightarrow> ('a, 'k) sponge result" where
  "segments_callback A s =
     (case sp_tcp s of None \<Rightarrow> Inl no_tcp | Some tcp \<Rightarrow>
      case send_loop A (conn_segments_out tcp) (sp_adapter s) of
        Inl e \<Rightarrow> Inl e
      | Inr a \<Rightarrow> Inr (s\<lparr>sp_adapter := a, sp_tcp := Some (tcp\<lparr>conn_segments_out := []\<rparr>)\<rparr>))"

definition segments_interest :: "('a, 'k) sponge \<Rightarrow> bool" where
  "segments_interest s = (case sp_tcp s of None \<Rightarrow> False | Some tcp \<Rightarrow> conn_segments_out tcp \<noteq> [])"

definition sponge_rules :: "'a adapter_ops \<Rightarrow> 'k kernel_calls \<Rightarrow> ('a, 'k) sponge ev_rule list \<Rightarrow> ('a, 'k) sponge ev_rule list" where
  "sponge_rules A K rules =
     (let rules = add_rule rules ADAPTER In (datagram_callback A) tcp_active Inr;
          rules = add_rule rules THREAD_DATA In (pipe_in_callback K) pipe_in_interest pipe_in_cancel;
          rules = add_rule rules THREAD_DATA Out (pipe_out_callback K) pipe_out_interest Inr
      in add_rule rules ADAPTER Out (segments_callback A) segments_interest Inr)"

text \<open>The rules are added to those the event loop has.\<close>

definition initialize_TCP :: "'a adapter_ops \<Rightarrow> 'k kernel_calls \<Rightarrow> tcp_config \<Rightarrow> u32 \<Rightarrow> ('a, 'k) sponge ev_rule list \<Rightarrow>
    ('a, 'k) sponge \<Rightarrow> ('a, 'k) sponge ev_rule list \<times> ('a, 'k) sponge" where
  "initialize_TCP A K config random rules s = (sponge_rules A K rules, s\<lparr>sp_tcp := Some (tcp_connection_new config random)\<rparr>)"

section \<open>The loop\<close>

record turn =
  tn_poll :: "(int \<times> u16) list \<Rightarrow> int \<Rightarrow> sysret \<times> u16 list"
  tn_abort :: bool
  tn_time :: nat

text \<open>Whether the loop ended, the time of its last tick, the rules that are left, and the state.\<close>

fun tcp_loop :: "'a adapter_ops \<Rightarrow> (('a, 'k) sponge \<Rightarrow> bool) \<Rightarrow> turn list \<Rightarrow> nat \<Rightarrow> ('a, 'k) sponge ev_rule list \<Rightarrow>
    ('a, 'k) sponge \<Rightarrow> (bool \<times> nat \<times> ('a, 'k) sponge ev_rule list \<times> ('a, 'k) sponge) result" where
  "tcp_loop A condition [] base_time rules s = Inr (\<not> condition s, base_time, rules, s)"
| "tcp_loop A condition (t # turns) base_time rules s =
     (if \<not> condition s then Inr (True, base_time, rules, s)
      else case wait_next_event (sponge_fds A) (tn_poll t) TCP_TICK_MS rules s of
             Inl e \<Rightarrow> Inl e
           | Inr (ret, rules, s) \<Rightarrow>
               let s = s\<lparr>sp_abort := sp_abort s \<or> tn_abort t\<rparr>
               in if ret = Exit \<or> sp_abort s then Inr (True, base_time, rules, s)
                  else case sp_tcp s of
                         None \<Rightarrow> Inl no_tcp
                       | Some tcp \<Rightarrow>
                           if conn_active tcp
                           then case ao_tick A (sub64 (tn_time t) base_time) (sp_adapter s) of
                                  Inl e \<Rightarrow> Inl e
                                | Inr a \<Rightarrow> tcp_loop A condition turns (tn_time t) rules
                                    (s\<lparr>sp_tcp := Some (conn_tick (sub64 (tn_time t) base_time) tcp), sp_adapter := a\<rparr>)
                           else tcp_loop A condition turns base_time rules s)"

definition in_state :: "official_state list \<Rightarrow> ('a, 'k) sponge \<Rightarrow> bool" where
  "in_state states s =
     (case sp_tcp s of None \<Rightarrow> False | Some tcp \<Rightarrow> (\<exists>x \<in> set states. tcp_state_eq (conn_state tcp) (state_of x)))"

text \<open>A call that blocks until its loop ends; then the thread is started.\<close>

definition sponge_connect :: "'a adapter_ops \<Rightarrow> 'k kernel_calls \<Rightarrow> turn list \<Rightarrow> nat \<Rightarrow> u32 \<Rightarrow> tcp_config \<Rightarrow> fd_adapter_config \<Rightarrow>
    ('a, 'k) sponge ev_rule list \<Rightarrow> ('a, 'k) sponge \<Rightarrow> (bool \<times> ('a, 'k) sponge ev_rule list \<times> ('a, 'k) sponge) result" where
  "sponge_connect A K turns now random c_tcp c_ad rules s =
     (if sp_tcp s \<noteq> None then Inl (Runtime_Error ''connect() with TCPConnection already initialized'')
      else let (rules, s) = initialize_TCP A K c_tcp random rules s;
               s = s\<lparr>sp_adapter := ao_set_config A c_ad (sp_adapter s)\<rparr>
           in case sp_tcp s of None \<Rightarrow> Inl no_tcp | Some tcp \<Rightarrow>
                let tcp = conn_connect tcp;
                    s = s\<lparr>sp_tcp := Some tcp\<rparr>
                in if \<not> tcp_state_eq (conn_state tcp) (state_of SYN_SENT)
                   then Inl (Runtime_Error (''After TCPConnection::connect(), state was '' @ tcp_state_name (conn_state tcp) @
                          '' but expected '' @ tcp_state_name (state_of SYN_SENT)))
                   else case tcp_loop A (in_state [SYN_SENT]) turns now rules s of
                          Inl e \<Rightarrow> Inl e
                        | Inr (finished, _, rules, s) \<Rightarrow> Inr (finished, rules, s\<lparr>sp_thread := finished\<rparr>))"

definition listen_and_accept :: "'a adapter_ops \<Rightarrow> 'k kernel_calls \<Rightarrow> turn list \<Rightarrow> nat \<Rightarrow> u32 \<Rightarrow> tcp_config \<Rightarrow> fd_adapter_config \<Rightarrow>
    ('a, 'k) sponge ev_rule list \<Rightarrow> ('a, 'k) sponge \<Rightarrow> (bool \<times> ('a, 'k) sponge ev_rule list \<times> ('a, 'k) sponge) result" where
  "listen_and_accept A K turns now random c_tcp c_ad rules s =
     (if sp_tcp s \<noteq> None then Inl (Runtime_Error ''listen_and_accept() with TCPConnection already initialized'')
      else let (rules, s) = initialize_TCP A K c_tcp random rules s;
               s = s\<lparr>sp_adapter := ao_set_listening A True (ao_set_config A c_ad (sp_adapter s))\<rparr>
           in case tcp_loop A (in_state [LISTEN, SYN_RCVD, SYN_SENT]) turns now rules s of
                Inl e \<Rightarrow> Inl e
              | Inr (finished, _, rules, s) \<Rightarrow> Inr (finished, rules, s\<lparr>sp_thread := finished\<rparr>))"

text \<open>The thread. Its end shuts the owner's socket down and drops the connection.\<close>

definition tcp_main :: "'a adapter_ops \<Rightarrow> 'k kernel_calls \<Rightarrow> turn list \<Rightarrow> nat \<Rightarrow> ('a, 'k) sponge ev_rule list \<Rightarrow>
    ('a, 'k) sponge \<Rightarrow> (bool \<times> ('a, 'k) sponge) result" where
  "tcp_main A K turns now rules s =
     (if sp_tcp s = None then Inl (Runtime_Error ''no TCP'')
      else case tcp_loop A (\<lambda>_. True) turns now rules s of
             Inl e \<Rightarrow> Inl e
           | Inr (finished, _, rules, s) \<Rightarrow>
               if \<not> finished then Inr (False, s)
               else let (ret, k) = kc_shutdown K OWNER SHUT_RDWR (sp_kernel s)
                    in case socket_shutdown ret SHUT_RDWR (sp_socket s) of
                         (Inl e, _) \<Rightarrow> Inl e
                       | (Inr _, w) \<Rightarrow>
                           if sp_tcp s = None then Inl no_tcp
                           else Inr (True, s\<lparr>sp_socket := w, sp_kernel := k, sp_tcp := None\<rparr>))"

text \<open>The owner's side: waiting shuts the socket down and joins the thread, destroying aborts it.\<close>

definition wait_until_closed :: "'k kernel_calls \<Rightarrow> ('a, 'k) sponge \<Rightarrow> ('a, 'k) sponge result" where
  "wait_until_closed K s =
     (let (ret, k) = kc_shutdown K OWNER SHUT_RDWR (sp_kernel s)
      in case socket_shutdown ret SHUT_RDWR (sp_socket s) of
           (Inl e, _) \<Rightarrow> Inl e
         | (Inr _, w) \<Rightarrow> Inr (s\<lparr>sp_socket := w, sp_kernel := k, sp_thread := False\<rparr>))"

definition sponge_destroy :: "('a, 'k) sponge \<Rightarrow> ('a, 'k) sponge" where
  "sponge_destroy s = (if sp_thread s then s\<lparr>sp_abort := True, sp_thread := False\<rparr> else s)"

section \<open>Instances\<close>

text \<open>The default limit of \<open>FileDescriptor::read\<close>.\<close>

definition SIZE_MAX :: nat where "SIZE_MAX = 2 ^ 64 - 1"

definition TUN :: nat where "TUN = 3"

text \<open>A TUN device and the adapter on it.\<close>

definition tun_ops :: "'k kernel_calls \<Rightarrow> (fd_adapter \<times> fd_wrapper \<times> 'k) adapter_ops" where
  "tun_ops K =
     \<lparr>ao_fd = (\<lambda>(a, w, k). w),
      ao_read = (\<lambda>(a, w, k). case kernel_read K TUN SIZE_MAX k w of
        (Inl e, _) \<Rightarrow> Inl e
      | (Inr packet, w, k) \<Rightarrow> let (seg, a) = tun_read packet a in Inr (seg, (a, w, k))),
      ao_write = (\<lambda>seg (a, w, k). case tun_write seg a of
        Inl e \<Rightarrow> Inl e
      | Inr (seg, bytes) \<Rightarrow> (case fd_write (kc_writev K TUN) (bvl_from_view bytes) True k w of
          (Inl e, _) \<Rightarrow> Inl e | (Inr _, k, w) \<Rightarrow> Inr (a, w, k))),
      ao_set_config = (\<lambda>c (a, w, k). (a\<lparr>fa_cfg := c\<rparr>, w, k)),
      ao_set_listening = (\<lambda>l (a, w, k). (set_listening l a, w, k)),
      ao_tick = (\<lambda>ms (a, w, k). Inr (fa_tick ms a, w, k))\<rparr>"

text \<open>A TAP device: every frame of the interface is written whole.\<close>

fun write_frames :: "'k kernel_calls \<Rightarrow> byte list list \<Rightarrow> fd_wrapper \<Rightarrow> 'k \<Rightarrow> (fd_wrapper \<times> 'k) result" where
  "write_frames K [] w k = Inr (w, k)"
| "write_frames K (f # fs) w k =
     (case fd_write (kc_writev K TUN) (bvl_from_view f) True k w of
        (Inl e, _) \<Rightarrow> Inl e | (Inr _, k, w) \<Rightarrow> write_frames K fs w k)"

definition eth_ops :: "'k kernel_calls \<Rightarrow> (eth_adapter \<times> fd_wrapper \<times> 'k) adapter_ops" where
  "eth_ops K =
     \<lparr>ao_fd = (\<lambda>(a, w, k). w),
      ao_read = (\<lambda>(a, w, k). case kernel_read K TUN SIZE_MAX k w of
        (Inl e, _) \<Rightarrow> Inl e
      | (Inr packet, w, k) \<Rightarrow> let (seg, frames, a) = eth_read packet a in
          (case write_frames K frames w k of Inl e \<Rightarrow> Inl e | Inr (w, k) \<Rightarrow> Inr (seg, (a, w, k)))),
      ao_write = (\<lambda>seg (a, w, k). case eth_write seg a of
        Inl e \<Rightarrow> Inl e
      | Inr (seg, frames, a) \<Rightarrow> (case write_frames K frames w k of Inl e \<Rightarrow> Inl e | Inr (w, k) \<Rightarrow> Inr (a, w, k))),
      ao_set_config = (\<lambda>c (a, w, k). (a\<lparr>ea_base := (ea_base a)\<lparr>fa_cfg := c\<rparr>\<rparr>, w, k)),
      ao_set_listening = (\<lambda>l (a, w, k). (a\<lparr>ea_base := set_listening l (ea_base a)\<rparr>, w, k)),
      ao_tick = (\<lambda>ms (a, w, k). let (frames, a) = eth_tick ms a in
        (case write_frames K frames w k of Inl e \<Rightarrow> Inl e | Inr (w, k) \<Rightarrow> Inr (a, w, k)))\<rparr>"

text \<open>The ready-made sockets: their configuration, with the random port as an argument.\<close>

definition cs144_tcp_config :: tcp_config where
  "cs144_tcp_config = tcp_config_default\<lparr>cfg_rt_timeout := 100\<rparr>"

definition cs144_adapter_config :: "u32 \<Rightarrow> endpoint \<Rightarrow> fd_adapter_config" where
  "cs144_adapter_config random address =
     fd_adapter_config_new\<lparr>ac_source := \<lparr>ep_ip = 0xa9fe9009, ep_port = ucast random\<rparr>, ac_destination := address\<rparr>"

definition LOCAL_TAP_IP_ADDRESS :: u32 where "LOCAL_TAP_IP_ADDRESS = 0xa9fe0a09"
definition LOCAL_TAP_NEXT_HOP_ADDRESS :: u32 where "LOCAL_TAP_NEXT_HOP_ADDRESS = 0xa9fe0a01"

definition fullstack_adapter_config :: "u32 \<Rightarrow> endpoint \<Rightarrow> fd_adapter_config" where
  "fullstack_adapter_config random address =
     fd_adapter_config_new\<lparr>ac_source := \<lparr>ep_ip = LOCAL_TAP_IP_ADDRESS, ep_port = ucast random\<rparr>, ac_destination := address\<rparr>"

definition random_private_ethernet_address :: "u32 list \<Rightarrow> ethernet_address" where
  "random_private_ethernet_address draws =
     (let addr = map (\<lambda>i. ucast (draws ! i)) [0..<6];
          addr = addr[0 := (addr ! 0) OR 0x02]
      in addr[0 := (addr ! 0) AND 0xfe])"

definition fullstack_adapter :: "u32 list \<Rightarrow> byte list list \<times> eth_adapter" where
  "fullstack_adapter draws =
     eth_adapter_new (random_private_ethernet_address draws) LOCAL_TAP_IP_ADDRESS LOCAL_TAP_NEXT_HOP_ADDRESS"

section \<open>The history of a connection\<close>

text \<open>
  What a connection with a given configuration can have become when its application has written
  \<open>w\<close> and read \<open>r\<close>, the segments \<open>i\<close> have arrived and the segments \<open>u\<close> have been sent.
\<close>

inductive conn_hist :: "tcp_config \<Rightarrow> u32 \<Rightarrow> byte list \<Rightarrow> byte list \<Rightarrow> tcp_segment list \<Rightarrow> tcp_segment list \<Rightarrow> tcp_connection \<Rightarrow> bool"
  for cfg random where
  hist_new: "conn_hist cfg random [] [] [] [] (tcp_connection_new cfg random)"
| hist_connect: "conn_hist cfg random w r i u c \<Longrightarrow> conn_hist cfg random w r i u (conn_connect c)"
| hist_write: "conn_hist cfg random w r i u c \<Longrightarrow> conn_write d c = (length d, c') \<Longrightarrow> conn_hist cfg random (w @ d) r i u c'"
| hist_end: "conn_hist cfg random w r i u c \<Longrightarrow> conn_hist cfg random w r i u (conn_end_input_stream c)"
| hist_tick: "conn_hist cfg random w r i u c \<Longrightarrow> conn_hist cfg random w r i u (conn_tick ms c)"
| hist_segment: "conn_hist cfg random w r i u c \<Longrightarrow> conn_hist cfg random w r (i @ [seg]) u (conn_segment_received seg c)"
| hist_read: "conn_hist cfg random w r i u c \<Longrightarrow> conn_read n c = (d, c') \<Longrightarrow> conn_hist cfg random w (r @ d) i u c'"
| hist_send: "conn_hist cfg random w r i u c \<Longrightarrow> conn_segments_out c = seg # rest \<Longrightarrow>
    conn_hist cfg random w r i (u @ [seg]) (c\<lparr>conn_segments_out := rest\<rparr>)"

lemma hist_send_all:
  "conn_hist cfg random w r i u c \<Longrightarrow> conn_hist cfg random w r i (u @ conn_segments_out c) (c\<lparr>conn_segments_out := []\<rparr>)"
proof (induction "conn_segments_out c" arbitrary: u c)
  case Nil
  then have "c\<lparr>conn_segments_out := []\<rparr> = c"
    by simp
  moreover have "u @ conn_segments_out c = u"
    using Nil.hyps by simp
  ultimately show ?case
    using Nil.prems by (simp only:)
next
  case (Cons seg rest)
  have "conn_hist cfg random w r i (u @ [seg]) (c\<lparr>conn_segments_out := rest\<rparr>)"
    using Cons.prems Cons.hyps(2) [symmetric] by (rule hist_send)
  from Cons.hyps(1) [OF _ this] show ?case
    using Cons.hyps(2) [symmetric] by simp
qed

section \<open>Recording what passes through an adapter\<close>

text \<open>An adapter that behaves as \<open>A\<close> and keeps lists of the segments read and written.\<close>

definition recording :: "'a adapter_ops \<Rightarrow> ('a \<times> tcp_segment list \<times> tcp_segment list) adapter_ops" where
  "recording A =
     \<lparr>ao_fd = (\<lambda>(a, i, u). ao_fd A a),
      ao_read = (\<lambda>(a, i, u). case ao_read A a of Inl e \<Rightarrow> Inl e
        | Inr (seg, a) \<Rightarrow> Inr (seg, (a, (case seg of None \<Rightarrow> i | Some seg \<Rightarrow> i @ [seg]), u))),
      ao_write = (\<lambda>seg (a, i, u). case ao_write A seg a of Inl e \<Rightarrow> Inl e | Inr a \<Rightarrow> Inr (a, i, u @ [seg])),
      ao_set_config = (\<lambda>c (a, i, u). (ao_set_config A c a, i, u)),
      ao_set_listening = (\<lambda>l (a, i, u). (ao_set_listening A l a, i, u)),
      ao_tick = (\<lambda>ms (a, i, u). case ao_tick A ms a of Inl e \<Rightarrow> Inl e | Inr a \<Rightarrow> Inr (a, i, u))\<rparr>"

abbreviation received :: "('a \<times> tcp_segment list \<times> tcp_segment list, 'k) sponge \<Rightarrow> tcp_segment list" where
  "received s \<equiv> fst (snd (sp_adapter s))"

abbreviation transmitted :: "('a \<times> tcp_segment list \<times> tcp_segment list, 'k) sponge \<Rightarrow> tcp_segment list" where
  "transmitted s \<equiv> snd (snd (sp_adapter s))"

lemma recording_read:
  "ao_read (recording A) a = Inr (seg, a') \<Longrightarrow>
     fst (snd a') = fst (snd a) @ (case seg of None \<Rightarrow> [] | Some seg \<Rightarrow> [seg]) \<and> snd (snd a') = snd (snd a)"
  by (cases a) (auto simp: recording_def split: sum.splits option.splits)

lemma recording_tick: "ao_tick (recording A) ms a = Inr a' \<Longrightarrow> snd a' = snd a"
  by (cases a) (auto simp: recording_def split: sum.splits)

lemma recording_config: "snd (ao_set_config (recording A) c a) = snd a" "snd (ao_set_listening (recording A) l a) = snd a"
  by (cases a; simp add: recording_def)+

lemma send_loop_recording:
  "send_loop (recording A) segs a = Inr a' \<Longrightarrow> fst (snd a') = fst (snd a) \<and> snd (snd a') = snd (snd a) @ segs"
proof (induction segs arbitrary: a)
  case (Cons seg segs)
  obtain b where b: "ao_write (recording A) seg a = Inr b" "send_loop (recording A) segs b = Inr a'"
    using Cons.prems by (cases "ao_write (recording A) seg a") auto
  have "fst (snd b) = fst (snd a) \<and> snd (snd b) = snd (snd a) @ [seg]"
    using b(1) by (cases a) (auto simp: recording_def split: sum.splits)
  then show ?case
    using Cons.IH [OF b(2)] by simp
qed simp

section \<open>What the thread keeps\<close>

definition sponge_inv :: "tcp_config \<Rightarrow> u32 \<Rightarrow> (nat \<Rightarrow> 'k \<Rightarrow> byte list) \<Rightarrow> (nat \<Rightarrow> 'k \<Rightarrow> byte list) \<Rightarrow>
    ('a \<times> tcp_segment list \<times> tcp_segment list, 'k) sponge \<Rightarrow> bool" where
  "sponge_inv cfg random got put s \<longleftrightarrow>
     (\<exists>c. sp_tcp s = Some c \<and> conn_hist cfg random (got THREAD_DATA (sp_kernel s)) (put THREAD_DATA (sp_kernel s))
        (received s) (transmitted s) c)"

lemma sponge_inv_datagram:
  assumes i: "sponge_inv cfg random got put s" and c: "datagram_callback (recording A) s = Inr s'"
  shows "sponge_inv cfg random got put s'"
proof -
  obtain tcp where t: "sp_tcp s = Some tcp" and h: "conn_hist cfg random (got THREAD_DATA (sp_kernel s))
      (put THREAD_DATA (sp_kernel s)) (received s) (transmitted s) tcp"
    using i unfolding sponge_inv_def by blast
  obtain seg a where r: "ao_read (recording A) (sp_adapter s) = Inr (seg, a)"
    using c t by (cases "ao_read (recording A) (sp_adapter s)") (auto simp: datagram_callback_def)
  define tcp' where "tcp' = (case seg of Some seg \<Rightarrow> conn_segment_received seg tcp | None \<Rightarrow> tcp)"
  have "conn_hist cfg random (got THREAD_DATA (sp_kernel s)) (put THREAD_DATA (sp_kernel s)) (fst (snd a)) (snd (snd a)) tcp'"
    using h hist_segment [OF h] recording_read [OF r] by (cases seg) (simp_all add: tcp'_def)
  moreover have "sp_tcp s' = Some tcp'" "sp_kernel s' = sp_kernel s" "sp_adapter s' = a"
    using c by (auto simp: datagram_callback_def t r tcp'_def [symmetric] Let_def split: if_splits)
  ultimately show ?thesis
    by (simp add: sponge_inv_def)
qed

lemma conn_write_all:
  assumes "length d \<le> conn_remaining_outbound_capacity c"
  shows "conn_write d c = (length d, snd (conn_write d c))"
  using assms by (simp add: conn_write_def conn_remaining_outbound_capacity_def bs_remaining_capacity_def bs_write_def Let_def)

lemma sponge_inv_pipe_in:
  assumes hon: "honest_kernel K got put" and i: "sponge_inv cfg random got put s" and c: "pipe_in_callback K s = Inr s'"
  shows "sponge_inv cfg random got put s'"
proof -
  obtain tcp where t: "sp_tcp s = Some tcp" and h: "conn_hist cfg random (got THREAD_DATA (sp_kernel s))
      (put THREAD_DATA (sp_kernel s)) (received s) (transmitted s) tcp"
    using i unfolding sponge_inv_def by blast
  obtain r w k where r: "kernel_read K THREAD_DATA (conn_remaining_outbound_capacity tcp) (sp_kernel s) (sp_thread_data s) = (r, w, k)"
    by (metis prod.exhaust)
  obtain data where d: "r = Inr data"
    using c by (cases r) (auto simp: pipe_in_callback_def t r)
  note rd = kernel_read_ok [OF hon r [unfolded d]]
  define tcp' where "tcp' = snd (conn_write data tcp)"
  have w: "conn_write data tcp = (length data, tcp')"
    using conn_write_all [OF rd(1)] by (simp add: tcp'_def)
  note h' = hist_write [OF h w]
  have s': "s' = (if fdw_eof w then s\<lparr>sp_thread_data := w, sp_kernel := k, sp_tcp := Some (conn_end_input_stream tcp'),
      sp_outbound_shutdown := True\<rparr> else s\<lparr>sp_thread_data := w, sp_kernel := k, sp_tcp := Some tcp'\<rparr>)"
    using c by (auto simp: pipe_in_callback_def t r d w Let_def)
  show ?thesis
    using h' hist_end [OF h'] rd(2,3) by (simp add: sponge_inv_def s')
qed

lemma sponge_inv_pipe_cancel:
  "sponge_inv cfg random got put s \<Longrightarrow> pipe_in_cancel s = Inr s' \<Longrightarrow> sponge_inv cfg random got put s'"
  by (auto simp: sponge_inv_def pipe_in_cancel_def) (rule hist_end)

lemma sponge_inv_pipe_out:
  assumes hon: "honest_kernel K got put" and i: "sponge_inv cfg random got put s" and c: "pipe_out_callback K s = Inr s'"
  shows "sponge_inv cfg random got put s'"
proof -
  obtain tcp where t: "sp_tcp s = Some tcp" and h: "conn_hist cfg random (got THREAD_DATA (sp_kernel s))
      (put THREAD_DATA (sp_kernel s)) (received s) (transmitted s) tcp"
    using i unfolding sponge_inv_def by blast
  define m where "m = min 65536 (bs_buffer_size (inbound_stream tcp))"
  define q where "q = bs_que (inbound_stream tcp)"
  obtain r k w where r: "fd_write (kc_writev K THREAD_DATA) (bvl_from_view (take m q)) False (sp_kernel s) (sp_thread_data s) = (r, k, w)"
    by (metis prod.exhaust)
  obtain n where n: "r = Inr n"
    using c by (cases r) (auto simp: pipe_out_callback_def t m_def [symmetric] q_def [symmetric] r)
  note wr = fd_write_once [OF hon r [unfolded n]]
  define tcp' where "tcp' = snd (conn_read n tcp)"
  have "conn_read n tcp = (take n q, tcp')"
    by (simp add: tcp'_def conn_read_def rcv_read_def q_def bs_read_def Let_def)
  moreover have "take n q = take n (take m q)"
    using wr(1) by (simp add: min_absorb1)
  ultimately have h': "conn_hist cfg random (got THREAD_DATA k) (put THREAD_DATA k) (received s) (transmitted s) tcp'"
    using hist_read [OF h, of n "take n q" tcp'] wr(2,3) [of THREAD_DATA] by simp
  have "sp_tcp s' = Some tcp' \<and> sp_adapter s' = sp_adapter s \<and>
      got THREAD_DATA (sp_kernel s') = got THREAD_DATA k \<and> put THREAD_DATA (sp_kernel s') = put THREAD_DATA k"
    using c honest_closing(1) [OF hon]
    by (auto simp: pipe_out_callback_def t m_def [symmetric] q_def [symmetric] r n tcp'_def [symmetric] Let_def
        split: if_splits prod.splits sum.splits)
  then show ?thesis
    using h' by (simp add: sponge_inv_def)
qed

lemma sponge_inv_segments:
  assumes i: "sponge_inv cfg random got put s" and c: "segments_callback (recording A) s = Inr s'"
  shows "sponge_inv cfg random got put s'"
proof -
  obtain tcp where t: "sp_tcp s = Some tcp" and h: "conn_hist cfg random (got THREAD_DATA (sp_kernel s))
      (put THREAD_DATA (sp_kernel s)) (received s) (transmitted s) tcp"
    using i unfolding sponge_inv_def by blast
  obtain a where a: "send_loop (recording A) (conn_segments_out tcp) (sp_adapter s) = Inr a"
    using c t by (cases "send_loop (recording A) (conn_segments_out tcp) (sp_adapter s)") (auto simp: segments_callback_def)
  have "s' = s\<lparr>sp_adapter := a, sp_tcp := Some (tcp\<lparr>conn_segments_out := []\<rparr>)\<rparr>"
    using c by (simp add: segments_callback_def t a)
  then show ?thesis
    using hist_send_all [OF h] send_loop_recording [OF a] by (simp add: sponge_inv_def)
qed

lemma sponge_rules_unfold:
  "sponge_rules A K [] =
     [\<lparr>rl_fd = ADAPTER, rl_direction = In, rl_callback = datagram_callback A, rl_interest = tcp_active, rl_cancel = Inr\<rparr>,
      \<lparr>rl_fd = THREAD_DATA, rl_direction = In, rl_callback = pipe_in_callback K, rl_interest = pipe_in_interest, rl_cancel = pipe_in_cancel\<rparr>,
      \<lparr>rl_fd = THREAD_DATA, rl_direction = Out, rl_callback = pipe_out_callback K, rl_interest = pipe_out_interest, rl_cancel = Inr\<rparr>,
      \<lparr>rl_fd = ADAPTER, rl_direction = Out, rl_callback = segments_callback A, rl_interest = segments_interest, rl_cancel = Inr\<rparr>]"
  by (simp add: sponge_rules_def add_rule_def)

lemma sponge_inv_same: "sponge_inv cfg random got put s \<Longrightarrow> Inr s = (Inr s' :: exn + _) \<Longrightarrow> sponge_inv cfg random got put s'"
  by simp

lemma sponge_rules_keep:
  assumes hon: "honest_kernel K got put"
  shows "rules_keep (sponge_inv cfg random got put) (sponge_rules (recording A) K [])"
  unfolding sponge_rules_unfold rules_keep_Cons ev_rule.select_convs
  by (intro conjI allI impI rules_keep_Nil;
      (erule (1) sponge_inv_datagram sponge_inv_pipe_in [OF hon] sponge_inv_pipe_cancel sponge_inv_pipe_out [OF hon]
        sponge_inv_segments sponge_inv_same))

lemma tcp_loop_inv:
  assumes "tcp_loop (recording A) condition turns base rules s = Inr (finished, base', rules', s')"
    "rules_keep (sponge_inv cfg random got put) rules" "sponge_inv cfg random got put s"
  shows "sponge_inv cfg random got put s' \<and> set rules' \<subseteq> set rules"
  using assms
proof (induction turns arbitrary: base rules s)
  case (Cons t turns)
  let ?I = "sponge_inv cfg random got put"
  show ?case
  proof (cases "condition s")
    case True
    obtain ret rules1 s1 where w: "wait_next_event (sponge_fds (recording A)) (tn_poll t) TCP_TICK_MS rules s = Inr (ret, rules1, s1)"
      using Cons.prems(1) True
      by (cases "wait_next_event (sponge_fds (recording A)) (tn_poll t) TCP_TICK_MS rules s") auto
    have i1: "?I s1" and "subseq rules1 rules"
      using wait_next_event_inv [where I = ?I, OF w Cons.prems(2,3)] by blast+
    then have sub: "set rules1 \<subseteq> set rules"
      using list_emb_set [of "(=)" rules1 rules] by auto
    define s2 where "s2 = s1\<lparr>sp_abort := sp_abort s1 \<or> tn_abort t\<rparr>"
    have i2: "?I s2"
      using i1 by (simp add: sponge_inv_def s2_def)
    then obtain tcp where tcp: "sp_tcp s2 = Some tcp"
      unfolding sponge_inv_def by blast
    have ab: "sp_abort s2 \<longleftrightarrow> sp_abort s1 \<or> tn_abort t"
      by (simp add: s2_def)
    have tcp1: "sp_tcp s1 = Some tcp"
      using tcp by (simp add: s2_def)
    have step: "Inr (finished, base', rules', s') = (if ret = Exit \<or> sp_abort s2 then Inr (True, base, rules1, s2)
        else if conn_active tcp
        then case ao_tick (recording A) (sub64 (tn_time t) base) (sp_adapter s2) of Inl e \<Rightarrow> Inl e
             | Inr a \<Rightarrow> tcp_loop (recording A) condition turns (tn_time t) rules1
                 (s2\<lparr>sp_tcp := Some (conn_tick (sub64 (tn_time t) base) tcp), sp_adapter := a\<rparr>)
        else tcp_loop (recording A) condition turns base rules1 s2)"
      using Cons.prems(1) [symmetric] True tcp tcp1 by (simp add: w s2_def [symmetric] ab split del: if_split cong: if_cong)
    note keep = rules_keep_mono [OF Cons.prems(2) sub]
    show ?thesis
    proof (cases "ret = Exit \<or> sp_abort s2")
      case True
      then show ?thesis
        using step i2 sub by simp
    next
      case run: False
      show ?thesis
      proof (cases "conn_active tcp")
        case True
        obtain a where a: "ao_tick (recording A) (sub64 (tn_time t) base) (sp_adapter s2) = Inr a"
          using step run True by (cases "ao_tick (recording A) (sub64 (tn_time t) base) (sp_adapter s2)") auto
        define s3 where "s3 = s2\<lparr>sp_tcp := Some (conn_tick (sub64 (tn_time t) base) tcp), sp_adapter := a\<rparr>"
        have "?I s3"
          using i2 tcp recording_tick [OF a] by (auto simp: sponge_inv_def s3_def intro!: hist_tick)
        moreover have "tcp_loop (recording A) condition turns (tn_time t) rules1 s3 = Inr (finished, base', rules', s')"
          using step run True by (simp add: s3_def a)
        ultimately show ?thesis
          using Cons.IH keep sub by blast
      next
        case False
        then have "tcp_loop (recording A) condition turns base rules1 s2 = Inr (finished, base', rules', s')"
          using step run by simp
        then show ?thesis
          using Cons.IH keep sub i2 by blast
      qed
    qed
  qed (use Cons.prems in simp)
qed simp

section \<open>Property\<close>

text \<open>
  C5. The socket is its TCP connection with the application at the other end of a pipe. After
  \<open>connect\<close> and any number of turns of the thread, whatever the adapter delivers and \<open>poll\<close>
  answers, the connection is one that can arise when its application has written exactly the
  bytes that were read from the pipe and has read exactly the bytes that were written to the
  pipe, when exactly the segments the adapter returned have arrived and exactly those it was
  given have been sent, in their orders.
\<close>

theorem sponge_refines_connection:
  assumes hon: "honest_kernel K got put" and start: "sp_tcp s = None" "sp_adapter s = (a, [], [])"
    "got THREAD_DATA (sp_kernel s) = []" "put THREAD_DATA (sp_kernel s) = []"
    and conn: "sponge_connect (recording A) K turns now random cfg ad [] s = Inr (finished, rules, s1)"
    and main: "tcp_loop (recording A) (\<lambda>_. True) turns' now' rules s1 = Inr (finished', base, rules', s2)"
  shows "\<exists>c. sp_tcp s2 = Some c \<and> conn_hist cfg random (got THREAD_DATA (sp_kernel s2)) (put THREAD_DATA (sp_kernel s2))
    (received s2) (transmitted s2) c"
proof -
  let ?I = "sponge_inv cfg random got put"
  define s0 where "s0 = s\<lparr>sp_adapter := ao_set_config (recording A) ad (sp_adapter s),
    sp_tcp := Some (conn_connect (tcp_connection_new cfg random))\<rparr>"
  have i0: "?I s0"
    using start hist_connect [OF hist_new, of cfg random] recording_config(1) [of A ad "sp_adapter s"]
    by (simp add: sponge_inv_def s0_def)
  note keep = sponge_rules_keep [OF hon, of cfg random A]
  obtain b s1' where l: "tcp_loop (recording A) (in_state [SYN_SENT]) turns now (sponge_rules (recording A) K []) s0 =
      Inr (finished, b, rules, s1')" "s1 = s1'\<lparr>sp_thread := finished\<rparr>"
    using conn start(1)
    by (cases "tcp_loop (recording A) (in_state [SYN_SENT]) turns now (sponge_rules (recording A) K []) s0")
      (auto simp: sponge_connect_def initialize_TCP_def s0_def [symmetric] Let_def split: if_splits)
  have i1: "?I s1" and sub: "set rules \<subseteq> set (sponge_rules (recording A) K [])"
    using tcp_loop_inv [OF l(1) keep i0] l(2) by (simp_all add: sponge_inv_def)
  show ?thesis
    using tcp_loop_inv [OF main rules_keep_mono [OF keep sub] i1] by (simp add: sponge_inv_def)
qed

text \<open>
  Applied to a socket that has connected, on an adapter that delivers nothing and takes
  everything, with one turn in which the adapter could be written.
\<close>

definition sink_ops :: "fd_wrapper adapter_ops" where
  "sink_ops = \<lparr>ao_fd = (\<lambda>w. w), ao_read = (\<lambda>w. Inr (None, register_read w)), ao_write = (\<lambda>seg w. Inr (register_write w)),
     ao_set_config = (\<lambda>c w. w), ao_set_listening = (\<lambda>l w. w), ao_tick = (\<lambda>ms w. Inr w)\<rparr>"

definition silent_kernel :: "unit kernel_calls" where
  "silent_kernel = \<lparr>kc_read = (\<lambda>_ _ k. (((-1, 11), []), k)), kc_writev = (\<lambda>_ k _. ((-1, 11), k)),
     kc_shutdown = (\<lambda>_ _ k. ((0, 0), k)), kc_close = (\<lambda>_ k. ((0, 0), k))\<rparr>"

definition open_fd :: "int \<Rightarrow> fd_wrapper" where
  "open_fd n = \<lparr>fdw_fd = n, fdw_eof = False, fdw_closed = False, fdw_read_count = 0, fdw_write_count = 0\<rparr>"

definition fresh_socket :: "(fd_wrapper \<times> tcp_segment list \<times> tcp_segment list, unit) sponge" where
  "fresh_socket = \<lparr>sp_socket = open_fd 3, sp_thread_data = open_fd 4, sp_adapter = (open_fd 5, [], []), sp_tcp = None,
     sp_abort = False, sp_inbound_shutdown = False, sp_outbound_shutdown = False, sp_fully_acked = False,
     sp_thread = False, sp_kernel = ()\<rparr>"

definition write_turn :: turn where
  "write_turn = \<lparr>tn_poll = (\<lambda>_ _. ((1, 0), [0, 0, 0, POLLOUT])), tn_abort = False, tn_time = 0\<rparr>"

definition dialled :: tcp_connection where
  "dialled = conn_connect (tcp_connection_new tcp_config_default 0)"

lemma silent_honest: "honest_kernel silent_kernel (\<lambda>_ _. []) (\<lambda>_ _. [])"
  by (simp add: honest_kernel_def honest_read_def honest_write_def honest_close_def silent_kernel_def)

lemma dialled_facts:
  "tcp_state_eq (conn_state dialled) (state_of SYN_SENT)" "length (conn_segments_out dialled) = 1" "conn_active dialled"
  "\<not> bs_end (inbound_stream dialled)" "\<not> bs_error (inbound_stream dialled)"
  "bs_capacity (inbound_stream dialled) = bs_maximumcapacity (inbound_stream dialled)"
  using connect_sends_syn [of tcp_config_default 0]
  by (simp_all add: dialled_def Let_def)
    (simp_all add: conn_connect_def tcp_connection_new_def send_segments_def rcv_stream_out_def tcp_receiver_new_def reassembler_new_def)

lemma sponge_demo_connect:
  "\<exists>rules. sponge_connect (recording sink_ops) silent_kernel [] 0 0 tcp_config_default fd_adapter_config_new [] fresh_socket =
     Inr (False, rules, fresh_socket\<lparr>sp_tcp := Some dialled\<rparr>) \<and> rules = sponge_rules (recording sink_ops) silent_kernel []"
  using dialled_facts(1)
  by (simp add: sponge_connect_def initialize_TCP_def fresh_socket_def dialled_def [symmetric] in_state_def recording_def
      sink_ops_def Let_def)

lemma sponge_demo_turn:
  "\<exists>s. tcp_loop (recording sink_ops) (\<lambda>_. True) [write_turn] 0 (sponge_rules (recording sink_ops) silent_kernel [])
     (fresh_socket\<lparr>sp_tcp := Some dialled\<rparr>) = Inr (False, 0, sponge_rules (recording sink_ops) silent_kernel [], s) \<and>
     length (transmitted s) = 1"
proof -
  obtain seg where seg: "conn_segments_out dialled = [seg]"
    using dialled_facts(2) by (auto simp: length_Suc_conv)
  show ?thesis
    using dialled_facts(3-6)
    by (simp add: sponge_rules_unfold wait_next_event_def poll_entries_def sponge_fds_def ADAPTER_def THREAD_DATA_def
        write_turn_def fresh_socket_def open_fd_def system_call_def Let_def POLLIN_def POLLOUT_def POLLERR_def
        POLLNVAL_def POLLHUP_def tcp_active_def pipe_in_interest_def pipe_out_interest_def segments_interest_def seg
        bs_buffer_empty_def bs_eof_def segments_callback_def recording_def sink_ops_def service_count_def
        register_write_def)
qed

theorem sponge_refines_connection_witness:
  "\<exists>s c. tcp_loop (recording sink_ops) (\<lambda>_. True) [write_turn] 0 (sponge_rules (recording sink_ops) silent_kernel [])
     (fresh_socket\<lparr>sp_tcp := Some dialled\<rparr>) = Inr (False, 0, sponge_rules (recording sink_ops) silent_kernel [], s) \<and>
     length (transmitted s) = 1 \<and> sp_tcp s = Some c \<and>
     conn_hist tcp_config_default 0 [] [] (received s) (transmitted s) c"
proof -
  obtain s where run: "tcp_loop (recording sink_ops) (\<lambda>_. True) [write_turn] 0 (sponge_rules (recording sink_ops) silent_kernel [])
     (fresh_socket\<lparr>sp_tcp := Some dialled\<rparr>) = Inr (False, 0, sponge_rules (recording sink_ops) silent_kernel [], s)"
    "length (transmitted s) = 1"
    using sponge_demo_turn by blast
  have start: "sp_tcp fresh_socket = None" "sp_adapter fresh_socket = (open_fd 5, [], [])"
    by (simp_all add: fresh_socket_def)
  have conn: "sponge_connect (recording sink_ops) silent_kernel [] 0 0 tcp_config_default fd_adapter_config_new [] fresh_socket =
     Inr (False, sponge_rules (recording sink_ops) silent_kernel [], fresh_socket\<lparr>sp_tcp := Some dialled\<rparr>)"
    using sponge_demo_connect by blast
  show ?thesis
    using sponge_refines_connection [OF silent_honest start refl refl conn run(1)] run by blast
qed

end
