(* ===== verification/Benchmark.thy ===== *)
theory Benchmark
  imports End_To_End Text_Output
begin

text \<open>
  \<open>apps/tcp_benchmark.cc\<close>: two connections in one process exchange segments, in order or with
  each batch reversed, until the receiver has seen the end of the stream; then what was received
  is compared with what was sent. The configuration, the string and the random initial numbers
  are arguments, and the loops, which might not end, are given a number of rounds.
\<close>

section \<open>The program\<close>

record bench =
  bn_x :: tcp_connection
  bn_y :: tcp_connection
  bn_bytes_to_send :: "byte list"
  bn_x_closed :: bool
  bn_string_received :: "byte list"

definition move_segments :: "tcp_connection \<Rightarrow> tcp_connection \<Rightarrow> tcp_segment list \<Rightarrow> bool \<Rightarrow>
    tcp_connection \<times> tcp_connection \<times> tcp_segment list" where
  "move_segments x y segments reorder =
     (let segments = segments @ conn_segments_out x;
          x = x\<lparr>conn_segments_out := []\<rparr>;
          y = (if reorder then fold conn_segment_received (rev segments) y else fold conn_segment_received segments y)
      in (x, y, []))"

text \<open>Writing while there is room; a write that takes less than asked for ends the program.\<close>

function write_input :: "tcp_connection \<Rightarrow> byte list \<Rightarrow> (tcp_connection \<times> byte list) result" where
  "write_input x bytes_to_send =
     (if length bytes_to_send \<noteq> 0 \<and> conn_remaining_outbound_capacity x \<noteq> 0
      then let want = min (conn_remaining_outbound_capacity x) (length bytes_to_send);
               (written, x) = conn_write (take want bytes_to_send) x
           in if want \<noteq> written
              then Inl (Runtime_Error (''want = '' @ dec want @ '', written = '' @ dec written))
              else write_input x (drop written bytes_to_send)
      else Inr (x, bytes_to_send))"
  by pat_completeness auto
termination
  by (relation "measure (\<lambda>(x, b). length b)") auto

declare write_input.simps [simp del]

definition bench_round :: "bool \<Rightarrow> bench \<Rightarrow> bench result" where
  "bench_round reorder b =
     (case write_input (bn_x b) (bn_bytes_to_send b) of
        Inl e \<Rightarrow> Inl e
      | Inr (x, bytes_to_send) \<Rightarrow>
          let y = bn_y b;
              (x, x_closed) = (if length bytes_to_send = 0 \<and> \<not> bn_x_closed b
                               then (conn_end_input_stream x, True) else (x, bn_x_closed b));
              (x, y, segments) = move_segments x y [] reorder;
              (y, x, segments) = move_segments y x segments False;
              available_output = bs_buffer_size (rcv_stream_out (conn_receiver y));
              (string_received, y) =
                (if available_output > 0
                 then let (d, y) = conn_read available_output y in (bn_string_received b @ d, y)
                 else (bn_string_received b, y));
              x = conn_tick 1000 x;
              y = conn_tick 1000 y
          in Inr \<lparr>bn_x = x, bn_y = y, bn_bytes_to_send = bytes_to_send, bn_x_closed = x_closed,
                  bn_string_received = string_received\<rparr>)"

text \<open>Rounds while a condition holds; nothing when they run out.\<close>

fun bench_while :: "bool \<Rightarrow> (bench \<Rightarrow> bool) \<Rightarrow> nat \<Rightarrow> bench \<Rightarrow> bench option result" where
  "bench_while reorder condition n b =
     (if \<not> condition b then Inr (Some b)
      else case n of
             0 \<Rightarrow> Inr None
           | Suc n \<Rightarrow> (case bench_round reorder b of Inl e \<Rightarrow> Inl e | Inr b \<Rightarrow> bench_while reorder condition n b))"

declare bench_while.simps [simp del]

definition bench_start :: "tcp_config \<Rightarrow> u32 \<Rightarrow> u32 \<Rightarrow> byte list \<Rightarrow> bench" where
  "bench_start config rnd1 rnd2 string_to_send =
     \<lparr>bn_x = conn_connect (tcp_connection_new config rnd1), bn_y = conn_end_input_stream (tcp_connection_new config rnd2),
      bn_bytes_to_send = string_to_send, bn_x_closed = False, bn_string_received = []\<rparr>"

definition receiver_at_eof :: "bench \<Rightarrow> bool" where
  "receiver_at_eof b = bs_eof (rcv_stream_out (conn_receiver (bn_y b)))"

definition bench_main_loop :: "tcp_config \<Rightarrow> nat \<Rightarrow> nat \<Rightarrow> u32 \<Rightarrow> u32 \<Rightarrow> byte list \<Rightarrow> bool \<Rightarrow> bench option result" where
  "bench_main_loop config n1 n2 rnd1 rnd2 string_to_send reorder =
     (case bench_while reorder (\<lambda>b. \<not> receiver_at_eof b) n1 (bench_start config rnd1 rnd2 string_to_send) of
        Inl e \<Rightarrow> Inl e
      | Inr None \<Rightarrow> Inr None
      | Inr (Some b) \<Rightarrow>
          if bn_string_received b \<noteq> string_to_send
          then Inl (Runtime_Error ''strings sent vs. received don't match'')
          else bench_while reorder (\<lambda>b. conn_active (bn_x b) \<or> conn_active (bn_y b)) n2 b)"

section \<open>How much the sender's stream has taken\<close>

abbreviation conn_written :: "tcp_connection \<Rightarrow> nat" where
  "conn_written c \<equiv> bs_writtensize (snd_stream (conn_sender c))"

lemma fill_loop_written: "bs_writtensize (snd_stream (fill_loop ws s)) = bs_writtensize (snd_stream s)"
proof (induction ws s rule: fill_loop.induct)
  case (1 ws s)
  obtain seg len s1 where m: "make_segment ws s = (seg, len, s1)"
    by (metis surj_pair)
  have w: "bs_writtensize (snd_stream s1) = bs_writtensize (snd_stream s)"
    using make_segment_frame [OF m] by (simp add: snd_frame_def)
  show ?case
    using 1 m w by (simp add: fill_loop.simps [of ws s] enqueue_segment_def Let_def)
qed

lemma fill_window_written [simp]: "bs_writtensize (snd_stream (fill_window s)) = bs_writtensize (snd_stream s)"
  by (simp add: fill_window_def fill_loop_written Let_def)

lemma conn_written_simps [simp]:
  "conn_written (send_segments c) = conn_written c" "conn_written (try_clean_close c) = conn_written c"
  "conn_written (send_rst_seg c) = conn_written c" "conn_written (set_stream_errors c) = conn_written c"
  by (simp_all add: send_segments_def try_clean_close_def send_rst_seg_def set_stream_errors_def Let_def)

lemma ack_received_written [simp]: "bs_writtensize (snd_stream (ack_received a w s)) = bs_writtensize (snd_stream s)"
  by (simp add: ack_received_def Let_def split: prod.splits)

lemma send_empty_written [simp]: "snd_stream (send_empty_segment s) = snd_stream s"
  by (simp add: send_empty_segment_def Let_def)

lemma conn_written_do:
  "conn_written (conn_connect c) = conn_written c" "conn_written (conn_end_input_stream c) = conn_written c"
  "conn_written (conn_tick ms c) = conn_written c" "conn_written (conn_segment_received seg c) = conn_written c"
  "conn_written (snd (conn_read n c)) = conn_written c"
  "conn_written (snd (conn_write d c)) = conn_written c + min (conn_remaining_outbound_capacity c) (length d)"
  by (simp_all add: conn_segment_received_def conn_connect_def conn_end_input_stream_def conn_tick_def snd_tick_def
      conn_read_def conn_write_def conn_remaining_outbound_capacity_def bs_remaining_capacity_def bs_write_def Let_def
      split: prod.splits option.splits)

lemma conn_write_count: "fst (conn_write d c) = min (conn_remaining_outbound_capacity c) (length d)"
  by (simp add: conn_write_def conn_remaining_outbound_capacity_def bs_remaining_capacity_def bs_write_def Let_def)

section \<open>A round is a run of the two connections\<close>

text \<open>The loop's state is a world the two connections have reached; \<open>T\<close> has been received already.\<close>

definition bench_sim :: "byte list \<Rightarrow> byte list \<Rightarrow> bench \<Rightarrow> bool" where
  "bench_sim S T b \<longleftrightarrow> (\<exists>X Y. tcp_world S [] X Y \<and> sd_conn X = bn_x b \<and> sd_conn Y = bn_y b \<and>
     sd_got Y = bn_string_received b \<and> prefix T (sd_got Y) \<and> bn_bytes_to_send b = drop (conn_written (bn_x b)) S \<and>
     conn_written (bn_x b) \<le> length S)"

lemma honest_next:
  assumes "n \<le> length (drop w S)" "w \<le> length S"
  shows "honest S (take n (drop w S)) w False"
  using assms by (auto simp: honest_def piece_def min_def take_drop add.commute)

lemma write_input_sim:
  assumes "tcp_world S B X Y" "sd_conn X = x" "rest = drop (conn_written x) S" "conn_written x \<le> length S"
  shows "\<exists>x' rest' X'. write_input x rest = Inr (x', rest') \<and> tcp_world S B X' Y \<and> sd_conn X' = x' \<and>
    rest' = drop (conn_written x') S \<and> conn_written x' \<le> length S"
  using assms
proof (induction x rest arbitrary: X rule: write_input.induct)
  case (1 x rest)
  show ?case
  proof (cases "length rest \<noteq> 0 \<and> conn_remaining_outbound_capacity x \<noteq> 0")
    case True
    define want where "want = min (conn_remaining_outbound_capacity x) (length rest)"
    define x1 where "x1 = snd (conn_write (take want rest) x)"
    have w: "conn_write (take want rest) x = (want, x1)"
      using conn_write_count [of "take want rest" x] by (simp add: x1_def want_def prod_eq_iff)
    have cw: "conn_written x1 = conn_written x + want"
      using conn_written_do(6) [of "take want rest" x] by (simp add: x1_def want_def)
    have want: "want \<le> length rest"
      by (simp add: want_def)
    have "honest S (take want rest) (conn_written x) False"
      using honest_next [of want "conn_written x" S] want "1.prems"(3,4) by simp
    then have "tcp_world S B (X\<lparr>sd_conn := conn_do (Write_Data (take want rest)) (sd_conn X)\<rparr>) Y"
      using "1.prems"(2) by (intro world_left [OF "1.prems"(1) side_call]) simp_all
    then have world: "tcp_world S B (X\<lparr>sd_conn := x1\<rparr>) Y"
      using "1.prems"(2) by (simp add: x1_def)
    have e: "write_input x rest = write_input x1 (drop want rest)"
      using True by (subst write_input.simps) (simp add: want_def [symmetric] w Let_def)
    have "drop want rest = drop (conn_written x1) S" "conn_written x1 \<le> length S"
      using "1.prems"(3,4) cw want by (simp_all add: add.commute)
    from "1.IH" [OF True want_def, unfolded w, OF refl refl _ world _ this] show ?thesis
      by (simp add: e)
  next
    case False
    then have "write_input x rest = Inr (x, rest)"
      by (subst write_input.simps) auto
    then show ?thesis
      using "1.prems" by blast
  qed
qed

lemma deliver_right:
  assumes "tcp_world A B X Y" "set segs \<subseteq> sd_net X"
  shows "tcp_world A B X (Y\<lparr>sd_conn := fold conn_segment_received segs (sd_conn Y)\<rparr>)"
  using assms
proof (induction segs arbitrary: Y)
  case (Cons seg segs)
  have "tcp_world A B X (Y\<lparr>sd_conn := conn_do (Segment seg) (sd_conn Y)\<rparr>)"
    using Cons.prems by (intro world_right [OF Cons.prems(1) side_call]) simp_all
  from Cons.IH [OF this] show ?case
    using Cons.prems by simp
qed simp

lemma deliver_left:
  assumes "tcp_world A B X Y" "set segs \<subseteq> sd_net Y"
  shows "tcp_world A B (X\<lparr>sd_conn := fold conn_segment_received segs (sd_conn X)\<rparr>) Y"
  using assms
proof (induction segs arbitrary: X)
  case (Cons seg segs)
  have "tcp_world A B (X\<lparr>sd_conn := conn_do (Segment seg) (sd_conn X)\<rparr>) Y"
    using Cons.prems by (intro world_left [OF Cons.prems(1) side_call]) simp_all
  from Cons.IH [OF this] show ?case
    using Cons.prems by simp
qed simp

lemma fold_written: "conn_written (fold conn_segment_received segs c) = conn_written c"
  by (induction segs arbitrary: c) (simp_all add: conn_written_do)

text \<open>Moving segments from the left to the right and back.\<close>

lemma move_right:
  assumes "tcp_world A B X Y" "move_segments (sd_conn X) (sd_conn Y) [] reorder = (x', y', segs)"
  obtains X' where "tcp_world A B X' (Y\<lparr>sd_conn := y'\<rparr>)" "sd_conn X' = x'" "sd_got X' = sd_got X"
    "segs = []" "conn_written x' = conn_written (sd_conn X)"
proof -
  let ?c = "sd_conn X"
  define X' where "X' = X\<lparr>sd_conn := ?c\<lparr>conn_segments_out := []\<rparr>, sd_net := sd_net X \<union> set (conn_segments_out ?c)\<rparr>"
  have w: "tcp_world A B X' Y"
    unfolding X'_def by (rule world_left [OF assms(1) side_flush])
  have y': "y' = fold conn_segment_received (if reorder then rev (conn_segments_out ?c) else conn_segments_out ?c) (sd_conn Y)"
    and x': "x' = sd_conn X'" "segs = []"
    using assms(2) by (auto simp: move_segments_def X'_def Let_def)
  have "tcp_world A B X' (Y\<lparr>sd_conn := y'\<rparr>)"
    unfolding y' by (rule deliver_right [OF w]) (auto simp: X'_def)
  then show thesis
    using that x' by (simp add: X'_def)
qed

lemma move_left:
  assumes "tcp_world A B X Y" "move_segments (sd_conn Y) (sd_conn X) [] reorder = (y', x', segs)"
  obtains Y' where "tcp_world A B (X\<lparr>sd_conn := x'\<rparr>) Y'" "sd_conn Y' = y'" "sd_got Y' = sd_got Y"
    "conn_written x' = conn_written (sd_conn X)"
proof -
  let ?c = "sd_conn Y"
  define Y' where "Y' = Y\<lparr>sd_conn := ?c\<lparr>conn_segments_out := []\<rparr>, sd_net := sd_net Y \<union> set (conn_segments_out ?c)\<rparr>"
  have w: "tcp_world A B X Y'"
    unfolding Y'_def by (rule world_right [OF assms(1) side_flush])
  have x': "x' = fold conn_segment_received (if reorder then rev (conn_segments_out ?c) else conn_segments_out ?c) (sd_conn X)"
    and y': "y' = sd_conn Y'"
    using assms(2) by (auto simp: move_segments_def Y'_def Let_def)
  have "tcp_world A B (X\<lparr>sd_conn := x'\<rparr>) Y'"
    unfolding x' by (rule deliver_left [OF w]) (auto simp: Y'_def)
  then show thesis
    using that y' x' by (simp add: Y'_def fold_written)
qed

lemma end_input_sim:
  assumes "tcp_world S B X Y" "conn_written (sd_conn X) = length S"
  shows "tcp_world S B (X\<lparr>sd_conn := conn_end_input_stream (sd_conn X)\<rparr>) Y"
  using world_left [OF assms(1) side_call [of S "sd_net Y" X End_Input_Stream]] assms(2) by simp

lemma tick_sim:
  assumes "tcp_world S B X Y"
  shows "tcp_world S B (X\<lparr>sd_conn := conn_tick ms (sd_conn X)\<rparr>) (Y\<lparr>sd_conn := conn_tick ms (sd_conn Y)\<rparr>)"
  using world_right [OF world_left [OF assms side_call [of S "sd_net Y" X "Tick ms"]] side_call [of B _ Y "Tick ms"]]
  by simp

lemma read_sim:
  assumes "tcp_world S B X Y" "sd_conn Y = y"
  defines "n \<equiv> bs_buffer_size (rcv_stream_out (conn_receiver y))"
  obtains Y' where "tcp_world S B X Y'" "sd_conn Y' = (if n > 0 then snd (conn_read n y) else y)"
    "sd_got Y' = (if n > 0 then sd_got Y @ fst (conn_read n y) else sd_got Y)"
proof (cases "n > 0")
  case True
  have "conn_read n (sd_conn Y) = (fst (conn_read n y), snd (conn_read n y))"
    using assms(2) by simp
  from world_right [OF assms(1) side_read [OF this]] show thesis
    by (rule that) (use True in simp_all)
next
  case False
  then show thesis
    using that [OF assms(1)] assms(2) by simp
qed

lemma bench_round_sim:
  assumes "bench_sim S T b"
  shows "\<exists>b'. bench_round reorder b = Inr b' \<and> bench_sim S T b'"
proof -
  obtain X Y where w: "tcp_world S [] X Y" "sd_conn X = bn_x b" "sd_conn Y = bn_y b" "sd_got Y = bn_string_received b"
    "prefix T (sd_got Y)"
    and to_send: "bn_bytes_to_send b = drop (conn_written (bn_x b)) S" "conn_written (bn_x b) \<le> length S"
    using assms by (auto simp: bench_sim_def)
  obtain x rest X1 where i: "write_input (bn_x b) (bn_bytes_to_send b) = Inr (x, rest)" "tcp_world S [] X1 Y"
    "sd_conn X1 = x" and rest: "rest = drop (conn_written x) S" "conn_written x \<le> length S"
    using write_input_sim [OF w(1,2) to_send] by blast
  define x2 where "x2 = (if length rest = 0 \<and> \<not> bn_x_closed b then conn_end_input_stream x else x)"
  have x2w: "conn_written x2 = conn_written x"
    by (simp add: x2_def conn_written_do)
  have x2: "tcp_world S [] (X1\<lparr>sd_conn := x2\<rparr>) Y"
    using end_input_sim [OF i(2)] i(2,3) rest by (cases X1) (auto simp: x2_def)
  obtain x3 y3 l3 where m1: "move_segments x2 (bn_y b) [] reorder = (x3, y3, l3)"
    by (metis prod_cases3)
  then have "move_segments (sd_conn (X1\<lparr>sd_conn := x2\<rparr>)) (sd_conn Y) [] reorder = (x3, y3, l3)"
    by (simp add: w(3))
  from move_right [OF x2 this] obtain X3 where X3: "tcp_world S [] X3 (Y\<lparr>sd_conn := y3\<rparr>)" "sd_conn X3 = x3" "l3 = []"
    "conn_written x3 = conn_written (sd_conn (X1\<lparr>sd_conn := x2\<rparr>))"
    by blast
  obtain y4 x4 l4 where m2: "move_segments y3 x3 [] False = (y4, x4, l4)"
    by (metis prod_cases3)
  then have "move_segments (sd_conn (Y\<lparr>sd_conn := y3\<rparr>)) (sd_conn X3) [] False = (y4, x4, l4)"
    by (simp add: X3(2))
  from move_left [OF X3(1) this] obtain Y4 where Y4: "tcp_world S [] (X3\<lparr>sd_conn := x4\<rparr>) Y4" "sd_conn Y4 = y4"
    "sd_got Y4 = sd_got (Y\<lparr>sd_conn := y3\<rparr>)" "conn_written x4 = conn_written (sd_conn X3)"
    by blast
  from read_sim [OF Y4(1,2)] obtain Y5 where Y5: "tcp_world S [] (X3\<lparr>sd_conn := x4\<rparr>) Y5" and
    y5: "sd_conn Y5 = (if bs_buffer_size (rcv_stream_out (conn_receiver y4)) > 0
           then snd (conn_read (bs_buffer_size (rcv_stream_out (conn_receiver y4))) y4) else y4)"
      "sd_got Y5 = (if bs_buffer_size (rcv_stream_out (conn_receiver y4)) > 0
           then sd_got Y4 @ fst (conn_read (bs_buffer_size (rcv_stream_out (conn_receiver y4))) y4) else sd_got Y4)"
    by blast
  let ?b = "\<lparr>bn_x = conn_tick 1000 x4, bn_y = conn_tick 1000 (sd_conn Y5), bn_bytes_to_send = rest,
      bn_x_closed = (length rest = 0 \<or> bn_x_closed b), bn_string_received = sd_got Y5\<rparr>"
  have "bench_round reorder b = Inr ?b"
    using m1 m2 X3(3) Y4(3) w(4) by (cases "length rest = 0"; cases "bn_x_closed b")
      (simp_all add: bench_round_def i(1) x2_def y5 case_prod_beta Let_def)
  moreover have "bench_sim S T ?b"
    unfolding bench_sim_def
    by (rule exI, rule exI, rule conjI [OF tick_sim [OF Y5, of 1000]])
      (use rest x2w X3(2,4) Y4(3,4) w(5) in \<open>simp add: conn_written_do y5\<close>)
  ultimately show ?thesis
    by blast
qed

lemma bench_while_sim:
  assumes "bench_sim S T b"
  shows "case bench_while reorder P n b of Inl e \<Rightarrow> False | Inr None \<Rightarrow> True | Inr (Some b') \<Rightarrow> bench_sim S T b' \<and> \<not> P b'"
  using assms
proof (induction n arbitrary: b)
  case 0
  then show ?case
    by (simp add: bench_while.simps)
next
  case (Suc n)
  obtain b' where b': "bench_round reorder b = Inr b'" "bench_sim S T b'"
    using bench_round_sim [OF Suc.prems] by blast
  have "bench_while reorder P (Suc n) b = (if P b then bench_while reorder P n b' else Inr (Some b))"
    by (simp add: bench_while.simps [of _ _ "Suc n"] b'(1))
  then show ?case
    using Suc.IH [OF b'(2)] Suc.prems by simp
qed

lemma bench_start_sim: "bench_sim S [] (bench_start config rnd1 rnd2 S)"
proof -
  let ?X = "side_new config rnd1" and ?Y = "side_new config rnd2"
  have "tcp_world S [] (?X\<lparr>sd_conn := conn_connect (sd_conn ?X)\<rparr>) (?Y\<lparr>sd_conn := conn_end_input_stream (sd_conn ?Y)\<rparr>)"
    using world_right [OF world_left [OF world_start side_call [of S "sd_net ?Y" ?X Connect]]
        side_call [of "[]" _ ?Y End_Input_Stream]]
    by (simp add: side_new_def tcp_connection_new_def tcp_sender_new_def byte_stream_new_def)
  then show ?thesis
    unfolding bench_sim_def
    by (intro exI conjI, assumption)
      (simp_all add: bench_start_def side_new_def conn_written_do tcp_connection_new_def tcp_sender_new_def byte_stream_new_def)
qed

lemma bench_received:
  assumes "bench_sim S T b" "length S + 3 < 2 ^ 31"
  shows "prefix (bn_string_received b) S" "receiver_at_eof b \<Longrightarrow> bn_string_received b = S"
    "prefix T (bn_string_received b)"
proof -
  obtain X Y where w: "tcp_world S [] X Y" "sd_conn Y = bn_y b" "sd_got Y = bn_string_received b"
    "prefix T (bn_string_received b)"
    using assms(1) by (auto simp: bench_sim_def)
  have f: "flow_inv S X Y"
    using world_flow [OF w(1) assms(2)] by simp
  have "prefix (sd_got Y @ bs_que (rcv_stream_out (sd_rcv Y))) S"
    using flow_delivered(1) [OF f] by (simp add: take_is_prefix)
  then show "prefix (bn_string_received b) S"
    using w(3) by (metis append_prefixD)
  show "bn_string_received b = S" if "receiver_at_eof b"
    using flow_delivered(3) [OF f] w(2,3) that by (simp add: receiver_at_eof_def)
  show "prefix T (bn_string_received b)"
    by (rule w(4))
qed

lemma bench_sim_received:
  assumes "bench_sim S T b" "bn_string_received b = S"
  shows "bench_sim S S b"
  using assms unfolding bench_sim_def by (metis prefix_order.order_refl)

section \<open>The benchmark's checks never fail\<close>

text \<open>What a run of the program is evaluated with.\<close>

lemma ucast_minus: "ucast (- 1 :: u32) = (4294967295 :: u64)" "ucast (- 2 :: u32) = (4294967294 :: u64)"
  "ucast (- 3 :: u32) = (4294967293 :: u64)"
  by code_simp+

lemmas bench_eval = bench_main_loop_def bench_while.simps bench_round_def bench_start_def receiver_at_eof_def
  write_input.simps move_segments_def demo_config_def bs_defs ra_defs rcv_defs snd_defs conn_defs fill_loop.simps
  insert_linklist.simps tcp_header_new_def tcp_connection_new_def conn_connect_def conn_write_def conn_tick_def
  conn_end_input_stream_def conn_read_def conn_segment_received_def stamp_def clean_close_ready_def
  length_in_sequence_space_def wrap_eq unwrap_def raw_value_def wi_diff_def wi_plus_def MAX_RETX_ATTEMPTS_def
  conn_remaining_outbound_capacity_def TCPHeader_LENGTH_def mk_node_def sub64_def conn_bytes_in_flight_def
  conn_unassembled_bytes_def ucast_minus Let_def

text \<open>
  C6. The benchmark never throws: whatever the configuration, the random numbers, the string (below
  two gigabytes), the number of rounds and whether batches are reversed, no write is short of what
  was asked and, once the receiver is at the end of its stream, what it received is the string that was sent.
  When the program ends both connections are closed and the whole string has been received.
\<close>

theorem benchmark_never_fails:
  assumes "length S + 3 < 2 ^ 31"
  shows "case bench_main_loop config n1 n2 rnd1 rnd2 S reorder of
      Inl e \<Rightarrow> False
    | Inr None \<Rightarrow> True
    | Inr (Some b) \<Rightarrow> bn_string_received b = S \<and> \<not> conn_active (bn_x b) \<and> \<not> conn_active (bn_y b)"
proof -
  let ?b0 = "bench_start config rnd1 rnd2 S"
  have first: "case bench_while reorder (\<lambda>b. \<not> receiver_at_eof b) n1 ?b0 of
      Inl e \<Rightarrow> False | Inr None \<Rightarrow> True | Inr (Some b) \<Rightarrow> bench_sim S [] b \<and> \<not> \<not> receiver_at_eof b"
    by (rule bench_while_sim [OF bench_start_sim])
  show ?thesis
  proof (cases "bench_while reorder (\<lambda>b. \<not> receiver_at_eof b) n1 ?b0")
    case (Inr r)
    show ?thesis
    proof (cases r)
      case (Some b)
      have b: "bench_sim S [] b" "receiver_at_eof b"
        using first Inr Some by simp_all
      have S: "bn_string_received b = S"
        using bench_received(2) [OF b(1) assms b(2)] .
      have "case bench_while reorder (\<lambda>b. conn_active (bn_x b) \<or> conn_active (bn_y b)) n2 b of
          Inl e \<Rightarrow> False | Inr None \<Rightarrow> True
        | Inr (Some b) \<Rightarrow> bench_sim S S b \<and> \<not> (conn_active (bn_x b) \<or> conn_active (bn_y b))"
        by (rule bench_while_sim [OF bench_sim_received [OF b(1) S]])
      then show ?thesis
        using Inr Some S bench_received(1,3) [OF _ assms, of S]
        by (auto simp: bench_main_loop_def prefix_order.eq_iff split: sum.splits option.splits)
    qed (use Inr in \<open>simp add: bench_main_loop_def\<close>)
  qed (use first in simp)
qed

theorem benchmark_never_fails_witness:
  "case bench_main_loop demo_config 2 1 0 0 [72] True of
     Inr (Some b) \<Rightarrow> bn_string_received b = [72] \<and> \<not> conn_active (bn_x b) \<and> \<not> conn_active (bn_y b)
   | _ \<Rightarrow> False"
proof -
  have "case bench_main_loop demo_config 2 1 0 0 [72] True of Inr (Some b) \<Rightarrow> True | _ \<Rightarrow> False"
    by (simp add: bench_eval cong: let_weak_cong split del: if_split)
  then show ?thesis
    using benchmark_never_fails [of "[72]" demo_config 2 1 0 0 True] by (auto split: sum.splits option.splits)
qed

end
