(* ===== verification/Packet_Dump.thy ===== *)
theory Packet_Dump
  imports IPv4
begin

text \<open>
  The programs that print packets: \<open>apps/udp_tcpdump.cc\<close>, which shows TCP segments found in UDP
  datagrams, and \<open>apps/tun.cc\<close>, which shows the datagrams a TUN device delivers, with the text forms of
  \<open>tcp_helpers/tcp_header.cc\<close> and \<open>hexdump\<close> of \<open>util/util.cc\<close>. What \<open>libpcap\<close> captured is an argument, and
  a read outside the captured bytes is an error.
\<close>

section \<open>Text of a TCP header\<close>

definition tcp_header_to_string :: "tcp_header \<Rightarrow> string" where
  "tcp_header_to_string h =
     ''TCP source port: '' @ hexa (unat (sport h)) @ newline @
     ''TCP dest port: '' @ hexa (unat (dport h)) @ newline @
     ''TCP seqno: '' @ hexa (unat (seqno h)) @ newline @
     ''TCP ackno: '' @ hexa (unat (ackno h)) @ newline @
     ''TCP doff: '' @ hexa (unat (doff h)) @ newline @
     ''Flags: urg: '' @ bool_text (urg h) @ '' ack: '' @ bool_text (ack h) @ '' psh: '' @ bool_text (psh h) @
     '' rst: '' @ bool_text (rst h) @ '' syn: '' @ bool_text (syn h) @ '' fin: '' @ bool_text (fin h) @ newline @
     ''TCP winsize: '' @ hexa (unat (win h)) @ newline @
     ''TCP cksum: '' @ hexa (unat (cksum h)) @ newline @
     ''TCP uptr: '' @ hexa (unat (uptr h)) @ newline"

definition flag_text :: "bool \<Rightarrow> string \<Rightarrow> string" where
  "flag_text b s = (if b then s else '''')"

definition tcp_header_summary :: "tcp_header \<Rightarrow> string" where
  "tcp_header_summary h =
     ''Header(flags='' @ flag_text (syn h) ''S'' @ flag_text (ack h) ''A'' @ flag_text (rst h) ''R'' @
     flag_text (fin h) ''F'' @ '',seqno='' @ dec (unat (seqno h)) @ '',ack='' @ dec (unat (ackno h)) @
     '',win='' @ dec (unat (win h)) @ '')''"

section \<open>Hexadecimal dump\<close>

text \<open>
  The column of characters is a string stream that starts as one space; writing begins at its start, so the
  first character replaces the space.
\<close>

definition pchars_str :: "string \<Rightarrow> string" where
  "pchars_str pchars = (if pchars = [] then '' '' else pchars)"

fun hexdump_loop :: "string \<Rightarrow> byte list \<Rightarrow> nat \<Rightarrow> string \<Rightarrow> string \<times> nat \<times> string" where
  "hexdump_loop indent_string [] printed pchars = ('''', printed, pchars)"
| "hexdump_loop indent_string (b # data) printed pchars =
     (let line = (if printed mod 16 = 0
                  then (if printed \<noteq> 0 then ''    '' @ pchars_str pchars @ newline else '''') @
                       indent_string @ pad_zero 8 (hexa printed) @ '':    ''
                  else if printed mod 2 = 0 then '' '' else '''');
          pchars = (if printed mod 16 = 0 \<and> printed \<noteq> 0 then '''' else pchars) @
                   [if isprint b then char_of (unat b) else CHR ''.''];
          (out, printed, pchars) = hexdump_loop indent_string data (printed + 1) pchars
      in (line @ pad_zero 2 (hexa (unat b)) @ out, printed, pchars))"

definition hexdump :: "byte list \<Rightarrow> nat \<Rightarrow> string" where
  "hexdump data indent =
     (let (out, printed, pchars) = hexdump_loop (replicate indent (CHR '' '')) data 0 '''';
          print_rem = (16 - printed mod 16) mod 16
      in out @ replicate (2 * print_rem + print_rem div 2 + 4) (CHR '' '') @ pchars_str pchars @ newline @ newline)"

section \<open>Finding the UDP payload\<close>

definition byte_at :: "byte list \<Rightarrow> nat \<Rightarrow> byte result" where
  "byte_at data i = (if i < length data then Inr (data ! i) else Inl (Out_Of_Range ''read past the captured bytes''))"

definition bytes_at :: "nat \<Rightarrow> byte list \<Rightarrow> nat \<Rightarrow> byte list result" where
  "bytes_at n data i =
     (if i + n \<le> length data then Inr (take n (drop i data)) else Inl (Out_Of_Range ''read past the captured bytes''))"

definition inet4_addr :: "byte list \<Rightarrow> nat \<Rightarrow> string result" where
  "inet4_addr data i =
     (case bytes_at 4 data i of
        Inl e \<Rightarrow> Inl e
      | Inr a \<Rightarrow> Inr (dec (unat (a ! 0)) @ ''.'' @ dec (unat (a ! 1)) @ ''.'' @ dec (unat (a ! 2)) @ ''.'' @ dec (unat (a ! 3))))"

text \<open>\<open>ntop\<close> is \<open>inet_ntop\<close> for the family \<open>AF_INET6\<close>.\<close>

definition inet6_addr :: "(byte list \<Rightarrow> string option) \<Rightarrow> byte list \<Rightarrow> nat \<Rightarrow> string result" where
  "inet6_addr ntop data i =
     (case bytes_at 16 data i of
        Inl e \<Rightarrow> Inl e
      | Inr a \<Rightarrow> Inr (case ntop a of None \<Rightarrow> ''unknown'' | Some s \<Rightarrow> s))"

text \<open>The chain of extension headers of an IPv6 packet.\<close>

function ipv6_headers :: "byte list \<Rightarrow> byte \<Rightarrow> nat \<Rightarrow> nat option result" where
  "ipv6_headers data nxt data_offset =
     (if nxt = 0x11 then Inr (Some data_offset)
      else if nxt \<noteq> 0 \<and> nxt \<noteq> 43 \<and> nxt \<noteq> 60 then Inr None
      else case byte_at data data_offset of
             Inl e \<Rightarrow> Inl e
           | Inr nxt \<Rightarrow>
               (case byte_at data (data_offset + 1) of
                  Inl e \<Rightarrow> Inl e
                | Inr l \<Rightarrow>
                    if length data < data_offset + 8 * (1 + unat l) + 2 then Inr None
                    else ipv6_headers data nxt (data_offset + 8 * (1 + unat l))))"
  by pat_completeness auto
termination
  by (relation "measure (\<lambda>(data, nxt, data_offset). length data - data_offset)")
    (auto simp: byte_at_def split: if_splits)

declare ipv6_headers.simps [simp del]

definition process_ipv4_ipv6 :: "(byte list \<Rightarrow> string option) \<Rightarrow> byte list \<Rightarrow> (nat \<times> string \<times> string) option result" where
  "process_ipv4_ipv6 ntop data =
     (if length data < 1 then Inr None
      else let pt = data ! 0 AND 0xf0
           in if pt = 0x40
              then let data_offset = unat (data ! 0 AND 0x0f) * 4
                   in if length data < data_offset then Inr None
                      else case byte_at data 9 of
                             Inl e \<Rightarrow> Inl e
                           | Inr proto \<Rightarrow>
                               if proto \<noteq> 0x11 then Inr None
                               else (case (inet4_addr data 12, inet4_addr data 16) of
                                       (Inr src, Inr dst) \<Rightarrow> Inr (Some (data_offset + 8, src, dst))
                                     | (Inl e, _) \<Rightarrow> Inl e
                                     | (_, Inl e) \<Rightarrow> Inl e)
              else if pt = 0x60
              then if length data < 42 then Inr None
                   else (case ipv6_headers data (data ! 6) 40 of
                           Inl e \<Rightarrow> Inl e
                         | Inr None \<Rightarrow> Inr None
                         | Inr (Some data_offset) \<Rightarrow>
                             (case (inet6_addr ntop data 8, inet6_addr ntop data 24) of
                                (Inr src, Inr dst) \<Rightarrow> Inr (Some (data_offset + 8, src, dst))
                              | (Inl e, _) \<Rightarrow> Inl e
                              | (_, Inl e) \<Rightarrow> Inl e))
              else Inr None)"

section \<open>One captured packet\<close>

text \<open>The link types of \<open>libpcap\<close> the program knows, and the rest.\<close>

datatype link_type = DLT_NULL | DLT_EN10MB | DLT_LINUX_SLL | DLT_LINUX_SLL2 | DLT_RAW | DLT_OTHER

definition pkt_u16 :: "byte list \<Rightarrow> nat \<Rightarrow> u16" where
  "pkt_u16 pkt i = push_bit 8 (ucast (pkt ! i)) OR ucast (pkt ! (i + 1))"

text \<open>Where the network header starts; nothing for a packet that is skipped.\<close>

definition link_header :: "link_type \<Rightarrow> byte list \<Rightarrow> nat option result" where
  "link_header dl_type pkt =
     (let ip = (\<lambda>off i. if length pkt < off then None
                       else let pt = pkt_u16 pkt i in if pt \<noteq> 0x0800 \<and> pt \<noteq> 0x86dd then None else Some off)
      in case dl_type of
           DLT_NULL \<Rightarrow>
             Inr (if length pkt < 4 then None
                  else let pt = pkt ! 3 in if pt \<noteq> 2 \<and> pt \<noteq> 24 \<and> pt \<noteq> 28 \<and> pt \<noteq> 30 then None else Some 4)
         | DLT_EN10MB \<Rightarrow> Inr (ip 14 12)
         | DLT_LINUX_SLL \<Rightarrow> Inr (ip 16 14)
         | DLT_LINUX_SLL2 \<Rightarrow> Inr (ip 20 0)
         | DLT_RAW \<Rightarrow> Inr (Some 0)
         | DLT_OTHER \<Rightarrow> Inl (Runtime_Error ''Mysterious datalink type. Giving up.''))"

definition segment_line :: "string \<Rightarrow> string \<Rightarrow> parse_result \<Rightarrow> tcp_segment \<Rightarrow> nat \<Rightarrow> string" where
  "segment_line src dst res seg payload_len =
     (let h = header seg; seqlen = of_nat (length_in_sequence_space seg) :: u32
      in src @ '':'' @ dec (unat (sport h)) @ '' > '' @ dst @ '':'' @ dec (unat (dport h)) @ newline @ ''    Flags ['' @
         flag_text (urg h) ''U'' @ flag_text (psh h) ''P'' @ flag_text (rst h) ''R'' @
         flag_text (syn h) ''S'' @ flag_text (fin h) ''F'' @ flag_text (ack h) ''.'' @
         ''] cksum 0x'' @ pad_zero 4 (hexa (unat (cksum h))) @
         (if res = NoError then '' (correct)'' else '' (incorrect!)'') @
         '' seq '' @ dec (unat (seqno h)) @
         (if seqlen > 0 then '':'' @ dec (unat (wi_plus (seqno h) seqlen)) else '''') @
         '' ack '' @ dec (unat (ackno h)) @ '' win '' @ dec (unat (win h)) @ '' length '' @ dec payload_len @ newline)"

text \<open>
  What is printed for a packet. The length of the payload is an unsigned difference; when the headers reach
  past the capture it is near \<open>2 ^ 64\<close>, and making a string of it throws.
\<close>

definition dump_packet :: "(byte list \<Rightarrow> string option) \<Rightarrow> link_type \<Rightarrow> byte list \<Rightarrow> string option result" where
  "dump_packet ntop dl_type pkt =
     (case link_header dl_type pkt of
        Inl e \<Rightarrow> Inl e
      | Inr None \<Rightarrow> Inr None
      | Inr (Some hdr_off) \<Rightarrow>
          (case process_ipv4_ipv6 ntop (drop hdr_off pkt) of
             Inl e \<Rightarrow> Inl e
           | Inr None \<Rightarrow> Inr None
           | Inr (Some (start_off, src, dst)) \<Rightarrow>
               let payload_off = hdr_off + start_off; payload_len = sub64 (length pkt) payload_off
               in if payload_len > length pkt then Inl (Length_Error ''basic_string::_M_create'')
                  else let payload = drop payload_off pkt;
                           (res, seg) = tcp_segment_parse payload 0 tcp_segment_new
                       in Inr (Some ((if parse_result_index res > parse_result_index BadChecksum
                                      then ''(did not recognize TCP header) src: '' @ src @ '' dst: '' @ dst @ newline
                                      else segment_line src dst res seg payload_len) @
                                     hexdump payload 8))))"

text \<open>What \<open>tun.cc\<close> prints for one packet.\<close>

definition tun_packet_text :: "byte list \<Rightarrow> string" where
  "tun_packet_text buffer =
     newline @ newline @ ''***'' @ newline @ ''*** Got packet:'' @ newline @ ''***'' @ newline @ hexdump buffer 0 @
     ''attempting to parse as ipv4 datagram... '' @
     (let (res, ip_dgram) = ipv4_datagram_parse buffer ipv4_datagram_new; h = dg_header ip_dgram
      in if res \<noteq> NoError then ''failed.'' @ newline
         else ''success! totlen='' @ dec (unat (ip_len h)) @ '', IPv4 header contents:'' @ newline @
           ipv4_header_to_string h @
           (if ip_proto h \<noteq> PROTO_TCP then newline @ ''Not TCP, skipping.'' @ newline
            else newline @ ''Attempting to parse as a TCP segment... '' @
              (let (res, tcp_seg) = tcp_segment_parse (dg_payload ip_dgram) (ipv4_pseudo_cksum h) tcp_segment_new
               in if res \<noteq> NoError then ''failed.'' @ newline
                  else ''success! payload len='' @ dec (length (payload tcp_seg)) @ '', TCP header contents:'' @ newline @
                    tcp_header_to_string (header tcp_seg) @ newline)))"

text \<open>The options: an interface, or help, which exits.\<close>

datatype dump_args = Capture "string option" "string list" | Exit_With nat

fun parse_arguments :: "string list \<Rightarrow> string option \<Rightarrow> dump_args" where
  "parse_arguments [] dev = Capture dev []"
| "parse_arguments (a # args) dev =
     (if a = ''-i'' then (case args of [] \<Rightarrow> Exit_With 1 | d # args \<Rightarrow> parse_arguments args (Some d))
      else if a = ''-h'' \<or> a = ''--help'' then Exit_With 0
      else Capture dev (a # args))"

section \<open>Reads stay inside the packet, or not\<close>

lemma ipv6_headers_inside:
  assumes "data_offset + 2 \<le> length data"
  shows "(\<exists>r. ipv6_headers data nxt data_offset = Inr r)"
  using assms
proof (induction data nxt data_offset rule: ipv6_headers.induct)
  case (1 data nxt data_offset)
  define off' where "off' = data_offset + 8 * (1 + unat (data ! (data_offset + 1)))"
  have b: "byte_at data data_offset = Inr (data ! data_offset)"
    "byte_at data (data_offset + 1) = Inr (data ! (data_offset + 1))"
    using "1.prems" by (simp_all add: byte_at_def)
  show ?case
  proof (cases "nxt = 0x11 \<or> nxt \<noteq> 0 \<and> nxt \<noteq> 43 \<and> nxt \<noteq> 60 \<or> length data < off' + 2")
    case True
    then show ?thesis
      using b by (subst ipv6_headers.simps) (auto simp: off'_def)
  next
    case False
    then have "ipv6_headers data nxt data_offset = ipv6_headers data (data ! data_offset) off'"
      using b by (subst ipv6_headers.simps) (auto simp: off'_def)
    moreover have "\<exists>r. ipv6_headers data (data ! data_offset) off' = Inr r"
      using "1.IH" [OF _ _ b] False by (simp add: off'_def)
    ultimately show ?thesis
      by simp
  qed
qed

definition short_ipv4 :: "byte list \<Rightarrow> bool" where
  "short_ipv4 data \<longleftrightarrow> data \<noteq> [] \<and> data ! 0 AND 0xf0 = 0x40 \<and> unat (data ! 0 AND 0x0f) * 4 \<le> length data \<and>
     (length data < 10 \<or> data ! 9 = 0x11 \<and> length data < 20)"

lemma process_ipv4:
  assumes "data \<noteq> []" "data ! 0 AND 0xf0 = 0x40"
  shows "(\<exists>e. process_ipv4_ipv6 ntop data = Inl e) \<longleftrightarrow> short_ipv4 data"
proof -
  have l: "\<not> length data < 1"
    using assms(1) by (cases data) auto
  show ?thesis
    using assms l
    by (cases "length data < unat (data ! 0 AND 0x0f) * 4"; cases "length data < 10"; cases "data ! 9 = 0x11";
        cases "length data < 16"; cases "length data < 20")
      (simp_all add: process_ipv4_ipv6_def short_ipv4_def byte_at_def bytes_at_def inet4_addr_def Let_def)
qed

lemma process_ipv6:
  assumes "\<not> (data \<noteq> [] \<and> data ! 0 AND 0xf0 = 0x40)"
  shows "\<exists>r. process_ipv4_ipv6 ntop data = Inr r"
proof (cases "length data < 42")
  case True
  then show ?thesis
    using assms by (cases data) (simp_all add: process_ipv4_ipv6_def Let_def)
next
  case False
  then obtain r where "ipv6_headers data (data ! 6) 40 = Inr r"
    using ipv6_headers_inside [of 40 data "data ! 6"] by auto
  then show ?thesis
    using assms False
    by (cases data; cases r) (auto simp: process_ipv4_ipv6_def inet6_addr_def bytes_at_def Let_def)
qed

text \<open>
  C18. When the packet parser reads outside the captured bytes: never for an IPv6 packet, whatever its chain of extension
  headers, and for an IPv4 packet exactly when the capture ends before the protocol field, or before the addresses of a UDP
  packet, although its length is at least that the header states.
\<close>

theorem dump_reads_outside:
  "(\<exists>e. process_ipv4_ipv6 ntop data = Inl e) \<longleftrightarrow> short_ipv4 data"
proof (cases "data \<noteq> [] \<and> data ! 0 AND 0xf0 = 0x40")
  case True
  then show ?thesis
    using process_ipv4 by blast
next
  case False
  then show ?thesis
    using process_ipv6 [OF False, of ntop] by (auto simp: short_ipv4_def)
qed

section \<open>What is shown of a segment\<close>

lemma process_udp:
  assumes "length iph = 20" "iph ! 0 = 0x45" "iph ! 9 = 0x11"
  obtains src dst where "inet4_addr iph 12 = Inr src" "inet4_addr iph 16 = Inr dst"
    "process_ipv4_ipv6 ntop (iph @ rest) = Inr (Some (28, src, dst))"
proof -
  have a: "inet4_addr (iph @ rest) i = inet4_addr iph i" "\<exists>s. inet4_addr iph i = Inr s" if "i \<le> 16" for i
    using that assms(1) by (simp_all add: inet4_addr_def bytes_at_def)
  have b: "byte_at (iph @ rest) 9 = Inr 0x11" "(iph @ rest) ! 0 = 0x45" "\<not> length (iph @ rest) < 1"
    using assms by (simp_all add: byte_at_def nth_append)
  obtain src dst where s: "inet4_addr iph 12 = Inr src" "inet4_addr iph 16 = Inr dst"
    using a(2) by fastforce
  have "(0x45 :: byte) AND 0xf0 = 0x40" "unat ((0x45 :: byte) AND 0x0f) * 4 = 20"
    by simp_all
  then have "process_ipv4_ipv6 ntop (iph @ rest) = Inr (Some (28, src, dst))"
    using assms(1) b a(1) s by (simp add: process_ipv4_ipv6_def Let_def)
  then show thesis
    using that s by blast
qed

lemma dump_udp:
  assumes "length iph = 20" "iph ! 0 = 0x45" "iph ! 9 = 0x11" "length udp = 8"
    and "inet4_addr iph 12 = Inr src" "inet4_addr iph 16 = Inr dst"
    and "tcp_segment_parse bytes 0 tcp_segment_new = (res, seg)"
  shows "dump_packet ntop DLT_RAW (iph @ udp @ bytes) =
    Inr (Some ((if parse_result_index res > 1 then ''(did not recognize TCP header) src: '' @ src @ '' dst: '' @ dst @ newline
                else segment_line src dst res seg (length bytes)) @ hexdump bytes 8))"
proof -
  have p: "process_ipv4_ipv6 ntop (iph @ udp @ bytes) = Inr (Some (28, src, dst))"
    by (rule process_udp [OF assms(1-3), of ntop "udp @ bytes"]) (use assms(5,6) in simp)
  have l: "length (iph @ udp @ bytes) = 28 + length bytes" "drop 28 (iph @ udp @ bytes) = bytes"
    using assms(1,4) by simp_all
  show ?thesis
    unfolding dump_packet_def link_header_def by (simp add: p l assms(7) Let_def del: length_append drop_append)
qed

text \<open>
  What is printed for a UDP datagram in a plain IPv4 packet. A segment that was serialized with the sum the program assumes
  is shown with all its fields and its checksum as correct. Bytes whose checksum does not verify are shown as an
  empty header, whatever ports, flags and numbers they hold: the segment parser returns before it has parsed them.
\<close>

theorem dump_shows_segment:
  assumes "length iph = 20" "iph ! 0 = 0x45" "iph ! 9 = 0x11" "length udp = 8"
    and "inet4_addr iph 12 = Inr src" "inet4_addr iph 16 = Inr dst"
    and "5 \<le> doff (header seg)" "doff (header seg) < 16" "4 * unat (doff (header seg)) + length (payload seg) \<le> 65535"
    and "ck_value (ck_add bad (internet_checksum_new 0)) \<noteq> 0"
  shows "(\<exists>bytes v. tcp_segment_serialize 0 seg = Inr bytes \<and>
      dump_packet ntop DLT_RAW (iph @ udp @ bytes) =
        Inr (Some (segment_line src dst NoError (seg\<lparr>header := (header seg)\<lparr>cksum := v\<rparr>\<rparr>) (length bytes) @ hexdump bytes 8))) \<and>
    dump_packet ntop DLT_RAW (iph @ udp @ bad) =
      Inr (Some (segment_line src dst BadChecksum tcp_segment_new (length bad) @ hexdump bad 8))"
proof -
  obtain bytes v where b: "tcp_segment_serialize 0 seg = Inr bytes"
    "tcp_segment_parse bytes 0 tcp_segment_new = (NoError, tcp_segment_new\<lparr>header := (header seg)\<lparr>cksum := v\<rparr>, payload := payload seg\<rparr>)"
    using tcp_segment_roundtrip_aux [OF assms(7-9), of 0 tcp_segment_new] by auto
  have e: "tcp_segment_new\<lparr>header := h, payload := payload seg\<rparr> = seg\<lparr>header := h\<rparr>" for h
    by (cases seg) (simp add: tcp_segment_new_def)
  have bad: "tcp_segment_parse bad 0 tcp_segment_new = (BadChecksum, tcp_segment_new)"
    using assms(10) by (simp add: tcp_segment_parse_def)
  have "dump_packet ntop DLT_RAW (iph @ udp @ bytes) =
      Inr (Some (segment_line src dst NoError (seg\<lparr>header := (header seg)\<lparr>cksum := v\<rparr>\<rparr>) (length bytes) @ hexdump bytes 8))"
    using dump_udp [OF assms(1-6) b(2) [unfolded e], of ntop] by simp
  then show ?thesis
    using b(1) dump_udp [OF assms(1-6) bad, of ntop] by (intro conjI exI [of _ bytes] exI [of _ v]) simp_all
qed

definition demo_iph :: "byte list" where
  "demo_iph = [0x45, 0, 0, 48, 0, 0, 0, 0, 64, 0x11, 0, 0, 10, 0, 0, 1, 10, 0, 0, 2]"

theorem dump_shows_segment_witness:
  "(\<exists>bytes v. tcp_segment_serialize 0 \<lparr>header = tcp_header_new, payload = [72]\<rparr> = Inr bytes \<and>
     dump_packet (\<lambda>_. None) DLT_RAW (demo_iph @ [0, 0, 0, 0, 0, 0, 0, 0] @ bytes) =
       Inr (Some (segment_line ''10.0.0.1'' ''10.0.0.2'' NoError \<lparr>header = tcp_header_new\<lparr>cksum := v\<rparr>, payload = [72]\<rparr>
         (length bytes) @ hexdump bytes 8))) \<and>
   dump_packet (\<lambda>_. None) DLT_RAW (demo_iph @ [0, 0, 0, 0, 0, 0, 0, 0] @ [4, 210, 0, 80]) =
     Inr (Some (segment_line ''10.0.0.1'' ''10.0.0.2'' BadChecksum tcp_segment_new 4 @ hexdump [4, 210, 0, 80] 8))"
proof -
  have a: "inet4_addr demo_iph 12 = Inr ''10.0.0.1''" "inet4_addr demo_iph 16 = Inr ''10.0.0.2''"
    "ck_value (ck_add [4, 210, 0, 80] (internet_checksum_new 0)) \<noteq> 0"
    "5 \<le> doff tcp_header_new" "doff tcp_header_new < 16" "4 * unat (doff tcp_header_new) = 20"
    by code_simp+
  have h: "length demo_iph = 20" "demo_iph ! 0 = 0x45" "demo_iph ! 9 = 0x11"
    by (simp_all add: demo_iph_def)
  have l: "length [4, 210, 0, 80 :: byte] = 4"
    by simp
  show ?thesis
    using dump_shows_segment [OF h _ a(1,2), where udp = "[0, 0, 0, 0, 0, 0, 0, 0]" and ntop = "\<lambda>_. None" and
      seg = "\<lparr>header = tcp_header_new, payload = [72]\<rparr>" and bad = "[4, 210, 0, 80]", unfolded l] a(3-6) by simp
qed

end
