(* ===== verification/Webget.thy ===== *)
theory Webget
  imports Sponge_Socket Network_Simulator
begin

text \<open>
  \<open>apps/webget.cc\<close>: a request is written to a socket and everything that comes back is printed. What the
  socket's own thread does meanwhile shows in the answers of the kernel; the reads, which might
  never end, are given a number of rounds.
\<close>

section \<open>The program\<close>

definition crlf :: string where
  "crlf = [CHR 0x0D, CHR 0x0A]"

definition http_request :: "string \<Rightarrow> string \<Rightarrow> string list" where
  "http_request host path =
     [''GET '' @ path @ '' HTTP/1.1'' @ crlf, ''Host: '' @ host @ crlf, ''Connection: close'' @ crlf, crlf]"

fun owner_write :: "'k kernel_calls \<Rightarrow> string list \<Rightarrow> ('a, 'k) sponge \<Rightarrow> ('a, 'k) sponge result" where
  "owner_write K [] s = Inr s"
| "owner_write K (l # ls) s =
     (case fd_write (kc_writev K OWNER) (bvl_from_view (text_bytes l)) True (sp_kernel s) (sp_socket s) of
        (Inl e, _) \<Rightarrow> Inl e
      | (Inr _, k, w) \<Rightarrow> owner_write K ls (s\<lparr>sp_kernel := k, sp_socket := w\<rparr>))"

text \<open>Whether the end was seen, what was printed, and the socket.\<close>

fun read_to_eof :: "'k kernel_calls \<Rightarrow> nat \<Rightarrow> byte list \<Rightarrow> ('a, 'k) sponge \<Rightarrow> (bool \<times> byte list \<times> ('a, 'k) sponge) result" where
  "read_to_eof K n out s =
     (if fdw_eof (sp_socket s) then Inr (True, out, s)
      else case n of
             0 \<Rightarrow> Inr (False, out, s)
           | Suc n \<Rightarrow>
               (case kernel_read K OWNER SIZE_MAX (sp_kernel s) (sp_socket s) of
                  (Inl e, _) \<Rightarrow> Inl e
                | (Inr d, w, k) \<Rightarrow> read_to_eof K n (out @ d) (s\<lparr>sp_kernel := k, sp_socket := w\<rparr>)))"

declare read_to_eof.simps [simp del]

definition fetch :: "'k kernel_calls \<Rightarrow> nat \<Rightarrow> string \<Rightarrow> string \<Rightarrow> ('a, 'k) sponge \<Rightarrow>
    (bool \<times> byte list \<times> ('a, 'k) sponge) result" where
  "fetch K n host path s =
     (case owner_write K (http_request host path) s of Inl e \<Rightarrow> Inl e | Inr s \<Rightarrow> read_to_eof K n [] s)"

text \<open>Closing the socket, then waiting for its thread.\<close>

definition finish :: "'k kernel_calls \<Rightarrow> ('a, 'k) sponge \<Rightarrow> ('a, 'k) sponge result" where
  "finish K s =
     (let (ret, k) = kc_close K OWNER (sp_kernel s)
      in case fdw_close ret (sp_socket s) of
           (Inl e, _) \<Rightarrow> Inl e
         | (Inr _, w) \<Rightarrow> wait_until_closed K (s\<lparr>sp_kernel := k, sp_socket := w\<rparr>))"

definition address_endpoint :: "getnameinfo \<Rightarrow> address \<Rightarrow> endpoint result" where
  "address_endpoint gni a =
     (case ipv4_numeric a of Inl e \<Rightarrow> Inl e | Inr ip \<Rightarrow>
      case address_port gni a of Inl e \<Rightarrow> Inl e | Inr port \<Rightarrow> Inr \<lparr>ep_ip = ip, ep_port = port\<rparr>)"

definition get_URL :: "getaddrinfo \<Rightarrow> getnameinfo \<Rightarrow> 'a adapter_ops \<Rightarrow> 'k kernel_calls \<Rightarrow> turn list \<Rightarrow> nat \<Rightarrow> u32 \<Rightarrow> u32 \<Rightarrow> nat \<Rightarrow>
    string \<Rightarrow> string \<Rightarrow> ('a, 'k) sponge \<Rightarrow> (bool \<times> byte list \<times> ('a, 'k) sponge) result" where
  "get_URL gai gni A K turns now random port n host path sock =
     (case address_of_host gai host ''http'' of Inl e \<Rightarrow> Inl e | Inr addr \<Rightarrow>
      case address_endpoint gni addr of Inl e \<Rightarrow> Inl e | Inr ep \<Rightarrow>
      case sponge_connect A K turns now random cs144_tcp_config (cs144_adapter_config port ep) [] sock of Inl e \<Rightarrow> Inl e
      | Inr (connected, _, sock) \<Rightarrow>
          if \<not> connected then Inr (False, [], sock)
          else (case fetch K n host path sock of Inl e \<Rightarrow> Inl e
                | Inr (eof, out, sock) \<Rightarrow>
                    if \<not> eof then Inr (False, out, sock)
                    else (case finish K sock of Inl e \<Rightarrow> Inl e | Inr sock \<Rightarrow> Inr (True, out, sock))))"

section \<open>The exchange\<close>

lemma fd_write_loop_put:
  assumes h: "honest_kernel K got put"
    and r: "fd_write_loop (kc_writev K fd) True buffer written k w = (Inr n, k', w')"
  shows "put i k' = put i k @ (if i = fd then concat buffer else []) \<and> got i k' = got i k"
  using r
proof (induction "kc_writev K fd" True buffer written k w rule: fd_write_loop.induct)
  case (1 buffer written k w)
  obtain v en k1 where e: "kc_writev K fd k (bvl_as_iovecs buffer) = ((v, en), k1)"
    by (metis prod.exhaust)
  have d: "concat (map fst (bvl_as_iovecs buffer)) = concat buffer"
    by (simp add: bvl_as_iovecs_def comp_def)
  obtain buffer' where v: "0 \<le> v" "bvl_remove_prefix (nat v) buffer = Inr buffer'"
    and rest: "if bvl_size buffer' \<noteq> 0 then fd_write_loop (kc_writev K fd) True buffer' (written + nat v) k1 (register_write w) = (Inr n, k', w')
      else k' = k1"
    using "1.prems" by (subst (asm) fd_write_loop.simps) (auto simp: e system_call_def Let_def split: if_splits sum.splits)
  have b: "concat buffer' = drop (nat v) (concat buffer)"
    using bvl_remove_prefix_concat [OF v(2)] by simp
  have "honest_write K got put"
    using h unfolding honest_kernel_def by blast
  from this [unfolded honest_write_def, THEN spec, THEN spec, THEN spec, of fd k "bvl_as_iovecs buffer"]
  have k1: "got i k1 = got i k" "put i k1 = put i k @ (if i = fd then take (nat v) (concat buffer) else [])"
    using v(1) by (simp_all add: e d)
  show ?case
  proof (cases "bvl_size buffer' = 0")
    case True
    then show ?thesis
      using rest k1 b by (simp add: bvl_size_eq)
  next
    case False
    then have r': "fd_write_loop (kc_writev K fd) True buffer' (written + nat v) k1 (register_write w) = (Inr n, k', w')"
      using rest by simp
    have "\<not> (v = 0 \<and> bvl_size buffer \<noteq> 0)" "\<not> v > int (bvl_size buffer)"
      using "1.prems" by (auto simp: fd_write_loop.simps [of _ True buffer] e system_call_def Let_def split: if_splits)
    then have "put i k' = put i k1 @ (if i = fd then concat buffer' else []) \<and> got i k' = got i k1"
      using "1.hyps" [OF e [symmetric] refl, of v] v False r' by (simp add: system_call_def)
    then show ?thesis
      using k1 b by simp
  qed
qed

lemma owner_write_put:
  assumes "honest_kernel K got put"
  shows "owner_write K ls s = Inr s' \<Longrightarrow> got i (sp_kernel s') = got i (sp_kernel s) \<and>
    put i (sp_kernel s') = put i (sp_kernel s) @ (if i = OWNER then text_bytes (concat ls) else [])"
proof (induction ls arbitrary: s)
  case (Cons l ls)
  obtain r k w where e: "fd_write (kc_writev K OWNER) (bvl_from_view (text_bytes l)) True (sp_kernel s) (sp_socket s) = (r, k, w)"
    by (metis prod_cases3)
  then obtain n where n: "r = Inr n" "owner_write K ls (s\<lparr>sp_kernel := k, sp_socket := w\<rparr>) = Inr s'"
    using Cons.prems by (auto split: sum.splits)
  have "put i k = put i (sp_kernel s) @ (if i = OWNER then text_bytes l else []) \<and> got i k = got i (sp_kernel s)"
    using fd_write_loop_put [OF assms e [unfolded n(1) fd_write_def]] by (simp add: bvl_from_view_def)
  then show ?case
    using Cons.IH [OF n(2)] by (simp add: text_bytes_def)
qed (simp add: text_bytes_def)

lemma read_to_eof_got:
  assumes "honest_kernel K got put" "read_to_eof K n out s = Inr (eof, out', s')"
  shows "\<exists>d. out' = out @ d \<and> got OWNER (sp_kernel s') = got OWNER (sp_kernel s) @ d \<and>
    put OWNER (sp_kernel s') = put OWNER (sp_kernel s) \<and> (eof \<longrightarrow> fdw_eof (sp_socket s'))"
  using assms(2)
proof (induction n arbitrary: out s)
  case 0
  then show ?case
    by (auto simp: read_to_eof.simps [of _ 0] split: if_splits)
next
  case (Suc n)
  show ?case
  proof (cases "fdw_eof (sp_socket s)")
    case True
    then show ?thesis
      using Suc.prems by (simp add: read_to_eof.simps [of _ "Suc n"])
  next
    case False
    obtain r w k where e: "kernel_read K OWNER SIZE_MAX (sp_kernel s) (sp_socket s) = (r, w, k)"
      by (metis prod_cases3)
    then obtain d where d: "r = Inr d" "read_to_eof K n (out @ d) (s\<lparr>sp_kernel := k, sp_socket := w\<rparr>) = Inr (eof, out', s')"
      using Suc.prems False by (auto simp: read_to_eof.simps [of _ "Suc n"] split: sum.splits)
    show ?thesis
      using Suc.IH [OF d(2)] kernel_read_ok(2,3) [OF assms(1) e [unfolded d(1)], of OWNER] by auto
  qed
qed

text \<open>
  C15. The exchange of \<open>webget\<close>: when the reading loop ends, the bytes written to the socket are the request for the path and
  host, complete and in order, and what was printed is all that was read, up to the end of the stream.
\<close>

theorem webget_exchange:
  assumes "honest_kernel K got put" "fetch K n host path s = Inr (True, out, s')"
  shows "put OWNER (sp_kernel s') = put OWNER (sp_kernel s) @ text_bytes (concat (http_request host path)) \<and>
    got OWNER (sp_kernel s') = got OWNER (sp_kernel s) @ out \<and> fdw_eof (sp_socket s')"
proof -
  obtain s1 where s1: "owner_write K (http_request host path) s = Inr s1" "read_to_eof K n [] s1 = Inr (True, out, s')"
    using assms(2) by (auto simp: fetch_def split: sum.splits)
  show ?thesis
    using owner_write_put [OF assms(1) s1(1), of OWNER] read_to_eof_got [OF assms(1) s1(2)] by auto
qed

section \<open>Its end\<close>

text \<open>
  What is documented of closed descriptors: a call that fails says why, and shutting down a number that is no open
  descriptor fails with \<open>EBADF\<close>.
\<close>

definition EBADF :: nat where "EBADF = 9"

definition refuses_closed :: "'k kernel_calls \<Rightarrow> bool" where
  "refuses_closed K \<longleftrightarrow> (\<forall>k. let ((v, en), k') = kc_close K OWNER k
     in (v < 0 \<longrightarrow> en \<noteq> 0) \<and> (v \<ge> 0 \<longrightarrow> (\<forall>how. fst (kc_shutdown K OWNER how k') = (-1, EBADF))))"

lemma finish_fails:
  assumes "refuses_closed K"
  shows "\<exists>e. finish K s = Inl e" "fst (fst (kc_close K OWNER (sp_kernel s))) \<ge> 0 \<Longrightarrow> finish K s = Inl (Unix_Error ''shutdown'' EBADF)"
proof -
  obtain v en k where e: "kc_close K OWNER (sp_kernel s) = ((v, en), k)"
    by (metis prod.exhaust)
  have l: "v < 0 \<longrightarrow> en \<noteq> 0" "v \<ge> 0 \<longrightarrow> (\<forall>how. fst (kc_shutdown K OWNER how k) = (-1, EBADF))"
    using assms [unfolded refuses_closed_def, THEN spec, of "sp_kernel s"] by (simp_all add: e)
  have ok: "finish K s = Inl (Unix_Error ''shutdown'' EBADF)" if v: "v \<ge> 0"
  proof -
    obtain k1 where "kc_shutdown K OWNER SHUT_RDWR k = ((-1, EBADF), k1)"
      using l(2) [rule_format, OF v, of SHUT_RDWR] by (cases "kc_shutdown K OWNER SHUT_RDWR k") auto
    then show ?thesis
      using v by (simp add: finish_def e fdw_close_def system_call_def wait_until_closed_def socket_shutdown_def EBADF_def Let_def)
  qed
  moreover have "finish K s = Inl (Unix_Error ''close'' en)" if "v < 0"
    using that l(1) by (simp add: finish_def e fdw_close_def system_call_def Let_def)
  ultimately show "\<exists>e. finish K s = Inl e"
    by (cases "v < 0") auto
  show "fst (fst (kc_close K OWNER (sp_kernel s))) \<ge> 0 \<Longrightarrow> finish K s = Inl (Unix_Error ''shutdown'' EBADF)"
    using ok by (simp add: e)
qed

text \<open>
  C19. \<open>webget\<close> cannot succeed: it closes its socket and then waits for it, and waiting first shuts the socket down. On every
  kernel that refuses to shut down a closed descriptor, the wait throws, so that no run of the program returns normally.
\<close>

theorem webget_never_returns:
  fixes K :: "'k kernel_calls" and s :: "('a, 'k) sponge"
  assumes "refuses_closed K"
  shows "(\<nexists>out s'. get_URL gai gni A K turns now random port n host path s = Inr (True, out, s')) \<and>
    (fst (fst (kc_close K OWNER (sp_kernel s))) \<ge> 0 \<longrightarrow> finish K s = Inl (Unix_Error ''shutdown'' EBADF))"
proof -
  have "finish K s1 \<noteq> Inr s2" for s1 s2 :: "('a, 'k) sponge"
    using finish_fails(1) [OF assms, of s1] by auto
  then have "\<nexists>out s'. get_URL gai gni A K turns now random port n host path s = Inr (True, out, s')"
    by (auto simp: get_URL_def split: sum.splits prod.splits if_splits)
  then show ?thesis
    using finish_fails(2) [OF assms, of s] by blast
qed

text \<open>A peer that answers one byte, and the socket on it.\<close>

definition reply_kernel :: "(byte list \<times> byte list \<times> byte list) kernel_calls" where
  "reply_kernel =
     \<lparr>kc_read = (\<lambda>fd n (inp, g, p). if fd \<noteq> OWNER then (((-1, EBADF), []), (inp, g, p))
        else (((int (length (take n inp)), 0), take n inp), (drop n inp, g @ take n inp, p))),
      kc_writev = (\<lambda>fd (inp, g, p) iov. if fd \<noteq> OWNER then ((-1, EBADF), (inp, g, p))
        else ((int (length (concat (map fst iov))), 0), (inp, g, p @ concat (map fst iov)))),
      kc_shutdown = (\<lambda>fd how k. ((-1, EBADF), k)), kc_close = (\<lambda>fd k. ((0, 0), k))\<rparr>"

definition reply_got :: "nat \<Rightarrow> byte list \<times> byte list \<times> byte list \<Rightarrow> byte list" where
  "reply_got fd k = (if fd = OWNER then fst (snd k) else [])"

definition reply_put :: "nat \<Rightarrow> byte list \<times> byte list \<times> byte list \<Rightarrow> byte list" where
  "reply_put fd k = (if fd = OWNER then snd (snd k) else [])"

definition reply_socket :: "(fd_wrapper, byte list \<times> byte list \<times> byte list) sponge" where
  "reply_socket = \<lparr>sp_socket = open_fd 3, sp_thread_data = open_fd 4, sp_adapter = open_fd 5, sp_tcp = None, sp_abort = False,
     sp_inbound_shutdown = False, sp_outbound_shutdown = False, sp_fully_acked = False, sp_thread = True,
     sp_kernel = ([72], [], [])\<rparr>"

lemma reply_honest: "honest_kernel reply_kernel reply_got reply_put"
  by (auto simp: honest_kernel_def honest_read_def honest_write_def honest_close_def reply_kernel_def reply_got_def
      reply_put_def min_def)

lemma fd_write_reply:
  assumes "d \<noteq> []"
  shows "fd_write (kc_writev reply_kernel OWNER) (bvl_from_view d) True (inp, g, p) w =
    (Inr (length d), (inp, g, p @ d), register_write w)"
  using assms
  by (simp add: fd_write_def fd_write_loop.simps [of _ True] bvl_from_view_def bvl_as_iovecs_def bvl_size_def
      reply_kernel_def system_call_def Let_def)

lemma kernel_read_reply:
  assumes "length inp \<le> BUFFER_SIZE"
  shows "kernel_read reply_kernel OWNER SIZE_MAX (inp, g, p) w =
    (Inr inp, register_read (if inp = [] then w\<lparr>fdw_eof := True\<rparr> else w), ([], g @ inp, p))"
proof -
  have "min BUFFER_SIZE SIZE_MAX = BUFFER_SIZE" "SIZE_MAX > 0"
    by (simp_all add: BUFFER_SIZE_def SIZE_MAX_def)
  then show ?thesis
    using assms by (auto simp: kernel_read_def fd_read_def reply_kernel_def system_call_def Let_def)
qed

theorem webget_exchange_witness:
  "\<exists>s'. fetch reply_kernel 2 ''h'' ''/'' reply_socket = Inr (True, [72], s') \<and>
     reply_put OWNER (sp_kernel s') = text_bytes (concat (http_request ''h'' ''/''))"
proof -
  have t: "text_bytes (c # l) \<noteq> []" for c l
    by (simp add: text_bytes_def)
  obtain s' where s': "fetch reply_kernel 2 ''h'' ''/'' reply_socket = Inr (True, [72], s')"
    by (simp add: fetch_def http_request_def crlf_def reply_socket_def fd_write_reply [OF t] read_to_eof.simps
        kernel_read_reply BUFFER_SIZE_def open_fd_def register_write_def register_read_def numeral_2_eq_2)
  then show ?thesis
    using webget_exchange [OF reply_honest s'] by (auto simp: reply_socket_def reply_put_def)
qed

theorem webget_never_returns_witness:
  "(\<nexists>out s'. get_URL (\<lambda>_ _ _. Inl 0) (\<lambda>_. Inl 0) sink_ops reply_kernel [] 0 0 0 1 ''h'' ''/'' reply_socket = Inr (True, out, s')) \<and>
   finish reply_kernel reply_socket = Inl (Unix_Error ''shutdown'' EBADF)"
proof -
  have "refuses_closed reply_kernel"
    by (simp add: refuses_closed_def reply_kernel_def)
  from webget_never_returns [OF this] show ?thesis
    by (simp add: reply_kernel_def)
qed

end
