(* ===== verification/Bouncer.thy ===== *)
theory Bouncer
  imports File_Descriptor
begin

text \<open>
  \<open>apps/bouncer.cc\<close>: pairs of UDP sockets, each of which learns the address of its peer from what it receives and
  passes every datagram on to the peer of the other. The message about a new address is left out, and with it the calls of
  \<open>local_address()\<close> and \<open>to_string()\<close> that compose it, which throw when the kernel or the resolver fails.
\<close>

section \<open>The program\<close>

record bounce_pair =
  bp_x :: fd_wrapper
  bp_y :: fd_wrapper
  bp_x_peer :: "address option"
  bp_y_peer :: "address option"

definition bouncer_ports :: "(u16 \<times> u16) list" where
  "bouncer_ports = map (\<lambda>i. let lower_port = 1024 + 2 * of_nat i :: u16 in (lower_port, lower_port + 1)) [0..<31489]"

text \<open>What a socket received: the outcome of \<open>recvfrom\<close>; and the outcome of a \<open>sendmsg\<close>, should it come to one.\<close>

record delivery =
  dl_recvfrom :: "nat \<Rightarrow> sysret \<times> byte list \<times> byte list \<times> nat"
  dl_sendmsg :: "(byte list \<times> nat) option \<Rightarrow> (byte list \<times> nat) list \<Rightarrow> sysret"

definition UDP_MTU :: nat where "UDP_MTU = 65536"

definition learn :: "address option \<Rightarrow> address \<Rightarrow> address option" where
  "learn peer source =
     (case peer of None \<Rightarrow> Some source | Some p \<Rightarrow> if \<not> address_eq p source then Some source else Some p)"

text \<open>The rules of the two sockets of a pair; the datagram passed on is part of the result.\<close>

definition x_callback :: "delivery \<Rightarrow> bounce_pair \<Rightarrow> (bounce_pair \<times> (address \<times> byte list) option) result" where
  "x_callback d s =
     (case udp_recv UDP_MTU (dl_recvfrom d) (bp_x s) of
        (Inl e, _) \<Rightarrow> Inl e
      | (Inr (source, payload), w) \<Rightarrow>
          let s = s\<lparr>bp_x := w, bp_x_peer := learn (bp_x_peer s) source\<rparr>
          in case bp_y_peer s of
               None \<Rightarrow> Inr (s, None)
             | Some peer \<Rightarrow>
                 if payload = [] then Inr (s, None)
                 else (case udp_sendto (dl_sendmsg d) peer (bvl_from_view payload) (bp_y s) of
                         (Inl e, _) \<Rightarrow> Inl e
                       | (Inr _, w) \<Rightarrow> Inr (s\<lparr>bp_y := w\<rparr>, Some (peer, payload))))"

definition y_callback :: "delivery \<Rightarrow> bounce_pair \<Rightarrow> (bounce_pair \<times> (address \<times> byte list) option) result" where
  "y_callback d s =
     (case udp_recv UDP_MTU (dl_recvfrom d) (bp_y s) of
        (Inl e, _) \<Rightarrow> Inl e
      | (Inr (source, payload), w) \<Rightarrow>
          let s = s\<lparr>bp_y := w, bp_y_peer := learn (bp_y_peer s) source\<rparr>
          in case bp_x_peer s of
               None \<Rightarrow> Inr (s, None)
             | Some peer \<Rightarrow>
                 if payload = [] then Inr (s, None)
                 else (case udp_sendto (dl_sendmsg d) peer (bvl_from_view payload) (bp_x s) of
                         (Inl e, _) \<Rightarrow> Inl e
                       | (Inr _, w) \<Rightarrow> Inr (s\<lparr>bp_x := w\<rparr>, Some (peer, payload))))"

text \<open>A run of the loop on one pair: which socket had a datagram, and the datagrams passed on.\<close>

datatype port = X | Y

fun bounce :: "(port \<times> delivery) list \<Rightarrow> bounce_pair \<Rightarrow> (bounce_pair \<times> (port \<times> address \<times> byte list) list) result" where
  "bounce [] s = Inr (s, [])"
| "bounce ((p, d) # ds) s =
     (case (case p of X \<Rightarrow> x_callback d s | Y \<Rightarrow> y_callback d s) of
        Inl e \<Rightarrow> Inl e
      | Inr (s, out) \<Rightarrow>
          (case bounce ds s of
             Inl e \<Rightarrow> Inl e
           | Inr (s, outs) \<Rightarrow>
               Inr (s, (case out of None \<Rightarrow> [] | Some (a, m) \<Rightarrow> [(case p of X \<Rightarrow> Y | Y \<Rightarrow> X, a, m)]) @ outs)))"

section \<open>What is passed on\<close>

text \<open>What the datagrams of a run were: where each came from and what it held.\<close>

definition datagram_of :: "delivery \<Rightarrow> (address \<times> byte list) option" where
  "datagram_of d =
     (case fst (udp_recv UDP_MTU (dl_recvfrom d) \<lparr>fdw_fd = 0, fdw_eof = False, fdw_closed = False, fdw_read_count = 0, fdw_write_count = 0\<rparr>) of
        Inl e \<Rightarrow> None | Inr r \<Rightarrow> Some r)"

text \<open>
  The abstract bouncer: the latest source seen at each port, and every datagram that is not empty goes to the
  latest source of the other port, if there was one.
\<close>

fun other :: "port \<Rightarrow> port" where
  "other X = Y"
| "other Y = X"

fun forwarded :: "(port \<Rightarrow> address option) \<Rightarrow> (port \<times> address \<times> byte list) list \<Rightarrow> (port \<times> address \<times> byte list) list" where
  "forwarded latest [] = []"
| "forwarded latest ((p, source, m) # ds) =
     (case latest (other p) of Some a \<Rightarrow> if m = [] then [] else [(other p, a, m)] | None \<Rightarrow> []) @
     forwarded (latest(p := Some source)) ds"

definition same_send :: "port \<times> address \<times> byte list \<Rightarrow> port \<times> address \<times> byte list \<Rightarrow> bool" where
  "same_send a b \<longleftrightarrow> fst a = fst b \<and> address_eq (fst (snd a)) (fst (snd b)) \<and> snd (snd a) = snd (snd b)"

definition knows :: "bounce_pair \<Rightarrow> (port \<Rightarrow> address option) \<Rightarrow> bool" where
  "knows s latest \<longleftrightarrow> rel_option address_eq (bp_x_peer s) (latest X) \<and> rel_option address_eq (bp_y_peer s) (latest Y)"

lemma address_eq_refl [simp]: "address_eq a a"
  by (simp add: address_eq_def)

lemma learn_knows: "rel_option address_eq (learn peer source) (Some source)"
  by (cases peer) (simp_all add: learn_def)

lemma udp_recv_datagram:
  assumes "udp_recv UDP_MTU (dl_recvfrom d) w = (Inr r, w')"
  shows "datagram_of d = Some r"
proof -
  have "fst (udp_recv UDP_MTU (dl_recvfrom d) w) = fst (udp_recv UDP_MTU (dl_recvfrom d) v)" for v
    by (simp add: udp_recv_def Let_def split: prod.splits sum.splits)
  then show ?thesis
    unfolding datagram_of_def using assms by (metis fst_conv sum.case(2))
qed

lemma callback_forwards:
  assumes "(case p of X \<Rightarrow> x_callback d s | Y \<Rightarrow> y_callback d s) = Inr (s', out)" "knows s latest"
  obtains source m where "datagram_of d = Some (source, m)" "knows s' (latest(p := Some source))"
    "rel_option (\<lambda>(a, m) (a', m'). address_eq a a' \<and> m = m') out
       (case latest (other p) of Some a \<Rightarrow> if m = [] then None else Some (a, m) | None \<Rightarrow> None)"
proof (cases p)
  case X
  obtain r w where e: "udp_recv UDP_MTU (dl_recvfrom d) (bp_x s) = (r, w)"
    by (metis surj_pair)
  then obtain source m where r: "r = Inr (source, m)"
    using assms(1) X by (cases r) (auto simp: x_callback_def)
  show thesis
  proof (rule that [of source m])
    show "datagram_of d = Some (source, m)"
      using udp_recv_datagram e r by blast
    show "knows s' (latest(p := Some source))"
      using assms e r X learn_knows
      by (auto simp: x_callback_def knows_def Let_def split: option.splits if_splits sum.splits prod.splits)
    show "rel_option (\<lambda>(a, m) (a', m'). address_eq a a' \<and> m = m') out
       (case latest (other p) of Some a \<Rightarrow> if m = [] then None else Some (a, m) | None \<Rightarrow> None)"
      using assms e r X
      by (auto simp: x_callback_def knows_def Let_def split: option.splits if_splits sum.splits prod.splits)
  qed
next
  case Y
  obtain r w where e: "udp_recv UDP_MTU (dl_recvfrom d) (bp_y s) = (r, w)"
    by (metis surj_pair)
  then obtain source m where r: "r = Inr (source, m)"
    using assms(1) Y by (cases r) (auto simp: y_callback_def)
  show thesis
  proof (rule that [of source m])
    show "datagram_of d = Some (source, m)"
      using udp_recv_datagram e r by blast
    show "knows s' (latest(p := Some source))"
      using assms e r Y learn_knows
      by (auto simp: y_callback_def knows_def Let_def split: option.splits if_splits sum.splits prod.splits)
    show "rel_option (\<lambda>(a, m) (a', m'). address_eq a a' \<and> m = m') out
       (case latest (other p) of Some a \<Rightarrow> if m = [] then None else Some (a, m) | None \<Rightarrow> None)"
      using assms e r Y
      by (auto simp: y_callback_def knows_def Let_def split: option.splits if_splits sum.splits prod.splits)
  qed
qed

lemma bounce_forwards:
  assumes "bounce ds s = Inr (s', outs)" "knows s latest"
  shows "list_all (\<lambda>(p, d). datagram_of d \<noteq> None) ds \<and>
    list_all2 same_send outs (forwarded latest (map (\<lambda>(p, d). (p, the (datagram_of d))) ds))"
  using assms
proof (induction ds arbitrary: s latest outs)
  case (Cons pd ds)
  obtain p d where pd: "pd = (p, d)"
    by (metis surj_pair)
  obtain s1 out outs' where c: "(case p of X \<Rightarrow> x_callback d s | Y \<Rightarrow> y_callback d s) = Inr (s1, out)"
    "bounce ds s1 = Inr (s', outs')"
    and outs: "outs = (case out of None \<Rightarrow> [] | Some (a, m) \<Rightarrow> [(case p of X \<Rightarrow> Y | Y \<Rightarrow> X, a, m)]) @ outs'"
    using Cons.prems(1) unfolding pd by (auto split: sum.splits prod.splits)
  from callback_forwards [OF c(1) Cons.prems(2)] obtain source m where d: "datagram_of d = Some (source, m)"
    and k: "knows s1 (latest(p := Some source))"
    and o1: "rel_option (\<lambda>(a, m) (a', m'). address_eq a a' \<and> m = m') out
       (case latest (other p) of Some a \<Rightarrow> if m = [] then None else Some (a, m) | None \<Rightarrow> None)"
    by blast
  have "list_all2 same_send (case out of None \<Rightarrow> [] | Some (a, m) \<Rightarrow> [(case p of X \<Rightarrow> Y | Y \<Rightarrow> X, a, m)])
      (case latest (other p) of Some a \<Rightarrow> if m = [] then [] else [(other p, a, m)] | None \<Rightarrow> [])"
    using o1 by (cases p; cases out) (auto simp: same_send_def split: option.splits if_splits)
  then have "list_all2 same_send outs (forwarded latest ((p, source, m) # map (\<lambda>(p, d). (p, the (datagram_of d))) ds))"
    unfolding outs forwarded.simps by (rule list_all2_appendI) (use Cons.IH [OF c(2) k] in blast)
  then show ?case
    using Cons.IH [OF c(2) k] d by (simp add: pd)
qed simp

text \<open>
  C14. A pair of sockets of the bouncer refines the abstract one: over every run that does not throw, the datagrams passed on are exactly
  the non-empty ones received at one port after the other has a peer, in order and unchanged, each sent from the other port to the address its latest
  datagram came from.
\<close>

theorem bouncer_forwards:
  assumes "bounce ds \<lparr>bp_x = x, bp_y = y, bp_x_peer = None, bp_y_peer = None\<rparr> = Inr (s', outs)"
  shows "list_all2 same_send outs (forwarded (\<lambda>_. None) (map (\<lambda>(p, d). (p, the (datagram_of d))) ds))"
proof -
  have "knows \<lparr>bp_x = x, bp_y = y, bp_x_peer = None, bp_y_peer = None\<rparr> (\<lambda>_. None)"
    by (simp add: knows_def)
  from bounce_forwards [OF assms this] show ?thesis
    by blast
qed

definition demo_delivery :: "u16 \<Rightarrow> byte list \<Rightarrow> delivery" where
  "demo_delivery port m =
     \<lparr>dl_recvfrom = (\<lambda>n. ((int (length m), 0), m, inet_raw 0x7f000001 port, sizeof_sockaddr_in)),
      dl_sendmsg = (\<lambda>_ iov. (int (length (concat (map fst iov))), 0))\<rparr>"

definition demo_fd :: fd_wrapper where
  "demo_fd = \<lparr>fdw_fd = 3, fdw_eof = False, fdw_closed = False, fdw_read_count = 0, fdw_write_count = 0\<rparr>"

lemma demo_recv:
  "length m \<le> 65536 \<Longrightarrow> udp_recv UDP_MTU (dl_recvfrom (demo_delivery port m)) w =
     (Inr (inet_address 0x7f000001 port, m), register_read w)"
  by (simp add: udp_recv_def demo_delivery_def UDP_MTU_def system_call_def sizeof_sockaddr_in_def inet_address_raw Let_def)

lemma demo_send: "udp_sendto (dl_sendmsg (demo_delivery port m)) a (bvl_from_view d) w = (Inr (), register_write w)"
  by (simp add: udp_sendto_def sendmsg_helper_def demo_delivery_def system_call_def bvl_from_view_def bvl_as_iovecs_def
      bvl_size_def)

theorem bouncer_forwards_witness:
  "\<exists>s outs. bounce [(X, demo_delivery 1 []), (Y, demo_delivery 2 [5]), (X, demo_delivery 3 [6, 7])]
     \<lparr>bp_x = demo_fd, bp_y = demo_fd, bp_x_peer = None, bp_y_peer = None\<rparr> = Inr (s, outs) \<and>
     list_all2 same_send outs [(X, inet_address 0x7f000001 1, [5]), (Y, inet_address 0x7f000001 2, [6, 7])]"
proof -
  let ?ds = "[(X, demo_delivery 1 []), (Y, demo_delivery 2 [5]), (X, demo_delivery 3 [6, 7])]"
  obtain s outs where r: "bounce ?ds \<lparr>bp_x = demo_fd, bp_y = demo_fd, bp_x_peer = None, bp_y_peer = None\<rparr> = Inr (s, outs)"
    by (simp add: x_callback_def y_callback_def demo_recv demo_send learn_def)
  have "datagram_of (demo_delivery port m) = Some (inet_address 0x7f000001 port, m)" if "length m \<le> 65536" for port m
    using demo_recv [OF that] by (rule udp_recv_datagram)
  then show ?thesis
    using bouncer_forwards [OF r] r by auto
qed

end
