(* ===== verification/Command_Line.thy ===== *)
theory Command_Line
  imports Webget "HOL-Library.Sublist"
begin

text \<open>
  The command lines of \<open>apps/tcp_udp.cc\<close>, \<open>apps/tcp_ipv4.cc\<close>, \<open>apps/tcp_ip_ethernet.cc\<close> and \<open>apps/tcp_native.cc\<close>:
  from the arguments to the configuration the program runs with, or to the usage message and exit status.
  The resolver, the random port and the conversion of a loss rate, which goes through floating-point numbers, are arguments.
\<close>

section \<open>What is used of the C library\<close>

definition isspace :: "char \<Rightarrow> bool" where
  "isspace c \<longleftrightarrow> c = CHR '' '' \<or> (9 \<le> (of_char c :: nat) \<and> (of_char c :: nat) \<le> 13)"

definition digit_value :: "char \<Rightarrow> nat option" where
  "digit_value c =
     (let n = of_char c :: nat
      in if 48 \<le> n \<and> n \<le> 57 then Some (n - 48)
         else if 97 \<le> n \<and> n \<le> 122 then Some (n - 87)
         else if 65 \<le> n \<and> n \<le> 90 then Some (n - 55) else None)"

fun digits :: "nat \<Rightarrow> string \<Rightarrow> nat list" where
  "digits b [] = []"
| "digits b (c # s) = (case digit_value c of None \<Rightarrow> [] | Some d \<Rightarrow> if d < b then d # digits b s else [])"

text \<open>
  \<open>strtol(s, nullptr, 0)\<close>: white space, a sign, and digits in base 16 after \<open>0x\<close>, 8 after \<open>0\<close>, and 10 otherwise; a value that
  does not fit is the largest or the smallest \<open>long\<close>.
\<close>

definition strtol :: "string \<Rightarrow> int" where
  "strtol str =
     (let s = dropWhile isspace str;
          (neg, s) = (if take 1 s = ''-'' then (True, tl s) else if take 1 s = ''+'' then (False, tl s) else (False, s));
          (b, s) = (if (take 2 s = ''0x'' \<or> take 2 s = ''0X'') \<and> digits 16 (drop 2 s) \<noteq> [] then (16, drop 2 s)
                    else if take 1 s = ''0'' then (8, s) else (10, s));
          n = int (foldl (\<lambda>a d. b * a + d) 0 (digits b s))
      in max (- (2 ^ 63)) (min (2 ^ 63 - 1) (if neg then - n else n)))"

text \<open>\<open>strncmp(a, b, n) == 0\<close>: the first \<open>n\<close> characters agree, the terminating null character being one of them.\<close>

definition strncmp_eq :: "nat \<Rightarrow> string \<Rightarrow> string \<Rightarrow> bool" where
  "strncmp_eq n a b \<longleftrightarrow> take n (a @ [CHR 0x00]) = take n (b @ [CHR 0x00])"

definition to_size_t :: "int \<Rightarrow> nat" where
  "to_size_t v = nat (v mod 2 ^ 64)"

section \<open>Outcomes\<close>

text \<open>A configuration, or the end of the program with its status and the message after the usage text.\<close>

datatype 'a outcome = Config 'a | Usage nat "string option"

definition requires :: "string \<Rightarrow> 'a outcome" where
  "requires opt = Usage 1 (Some (''ERROR: '' @ opt @ '' requires one argument.''))"

definition unrecognized :: "string \<Rightarrow> 'a outcome" where
  "unrecognized arg = Usage 1 (Some (''ERROR: unrecognized option '' @ arg))"

text \<open>
  The configuration holds the number and the port of an address; the code holds the address and converts it when a segment is sent,
  so a failure of the conversion shows here and not at the first segment.
\<close>

definition resolve :: "getaddrinfo \<Rightarrow> getnameinfo \<Rightarrow> string \<Rightarrow> string \<Rightarrow> endpoint result" where
  "resolve gai gni host service =
     (case address_of_host gai host service of Inl e \<Rightarrow> Inl e | Inr a \<Rightarrow> address_endpoint gni a)"

section \<open>TCP over UDP\<close>

text \<open>
  The loop over the options. Its list is \<open>argv[curr]\<close> to the end; it goes on while there are more than two left, and an
  option that takes an argument needs one more.
\<close>

record udp_settings =
  us_fsm :: tcp_config
  us_filt :: fd_adapter_config
  us_listen :: bool

definition udp_settings_new :: udp_settings where
  "udp_settings_new = \<lparr>us_fsm = tcp_config_default, us_filt = fd_adapter_config_new, us_listen = False\<rparr>"

fun udp_options :: "(string \<Rightarrow> u16) \<Rightarrow> string list \<Rightarrow> udp_settings \<Rightarrow> (udp_settings \<times> string list) outcome" where
  "udp_options loss (arg # v # p # rest) c =
     (if strncmp_eq 3 ''-l'' arg then udp_options loss (v # p # rest) (c\<lparr>us_listen := True\<rparr>)
      else if strncmp_eq 3 ''-w'' arg
      then if rest = [] then requires ''-w''
           else udp_options loss (p # rest) (c\<lparr>us_fsm := (us_fsm c)\<lparr>cfg_recv_capacity := to_size_t (strtol v)\<rparr>\<rparr>)
      else if strncmp_eq 3 ''-t'' arg
      then if rest = [] then requires ''-t''
           else udp_options loss (p # rest) (c\<lparr>us_fsm := (us_fsm c)\<lparr>cfg_rt_timeout := of_int (strtol v)\<rparr>\<rparr>)
      else if strncmp_eq 3 ''-Lu'' arg
      then if rest = [] then requires ''-Lu''
           else udp_options loss (p # rest) (c\<lparr>us_filt := (us_filt c)\<lparr>ac_loss_rate_up := loss v\<rparr>\<rparr>)
      else if strncmp_eq 3 ''-Ld'' arg
      then if rest = [] then requires ''-Lu''
           else udp_options loss (p # rest) (c\<lparr>us_filt := (us_filt c)\<lparr>ac_loss_rate_dn := loss v\<rparr>\<rparr>)
      else if strncmp_eq 3 ''-h'' arg then Usage 0 None
      else unrecognized arg)"
| "udp_options loss args c = Config (c, args)"

definition udp_get_config :: "getaddrinfo \<Rightarrow> getnameinfo \<Rightarrow> (string \<Rightarrow> u16) \<Rightarrow> string list \<Rightarrow> udp_settings outcome result" where
  "udp_get_config gai gni loss args =
     (case udp_options loss args udp_settings_new of
        Usage n msg \<Rightarrow> Inr (Usage n msg)
      | Config (c, _) \<Rightarrow>
          if us_listen c
          then (case resolve gai gni ''0'' (last args) of Inl e \<Rightarrow> Inl e
                | Inr src \<Rightarrow> Inr (Config (c\<lparr>us_filt := (us_filt c)\<lparr>ac_source := src\<rparr>\<rparr>)))
          else (case resolve gai gni (args ! (length args - 2)) (last args) of Inl e \<Rightarrow> Inl e
                | Inr dst \<Rightarrow> Inr (Config (c\<lparr>us_filt := (us_filt c)\<lparr>ac_destination := dst\<rparr>\<rparr>))))"

definition missing_arguments :: "'a outcome" where
  "missing_arguments = Usage 1 (Some ''ERROR: required arguments are missing.'')"

text \<open>The check of \<open>main\<close> before it; the arguments are those after the name of the program.\<close>

definition udp_main_config :: "getaddrinfo \<Rightarrow> getnameinfo \<Rightarrow> (string \<Rightarrow> u16) \<Rightarrow> string list \<Rightarrow>
    udp_settings outcome result" where
  "udp_main_config gai gni loss args =
     (if length args < 2 then Inr missing_arguments else udp_get_config gai gni loss args)"

section \<open>TCP over IPv4\<close>

record ipv4_settings =
  is_fsm :: tcp_config
  is_filt :: fd_adapter_config
  is_listen :: bool
  is_tundev :: "string option"
  is_source_address :: string
  is_source_port :: string

definition TUN_DFLT :: string where "TUN_DFLT = ''tun144''"
definition LOCAL_ADDRESS_DFLT :: string where "LOCAL_ADDRESS_DFLT = ''169.254.144.9''"

definition ipv4_settings_new :: "u32 \<Rightarrow> ipv4_settings" where
  "ipv4_settings_new random =
     \<lparr>is_fsm = tcp_config_default, is_filt = fd_adapter_config_new, is_listen = False, is_tundev = None,
      is_source_address = LOCAL_ADDRESS_DFLT, is_source_port = dec (unat (ucast random :: u16))\<rparr>"

fun ipv4_options :: "(string \<Rightarrow> u16) \<Rightarrow> string list \<Rightarrow> ipv4_settings \<Rightarrow> (ipv4_settings \<times> string list) outcome" where
  "ipv4_options loss (arg # v # p # rest) c =
     (if strncmp_eq 3 ''-l'' arg then ipv4_options loss (v # p # rest) (c\<lparr>is_listen := True\<rparr>)
      else if strncmp_eq 3 ''-a'' arg
      then if rest = [] then requires ''-a'' else ipv4_options loss (p # rest) (c\<lparr>is_source_address := v\<rparr>)
      else if strncmp_eq 3 ''-s'' arg
      then if rest = [] then requires ''-s'' else ipv4_options loss (p # rest) (c\<lparr>is_source_port := v\<rparr>)
      else if strncmp_eq 3 ''-w'' arg
      then if rest = [] then requires ''-w''
           else ipv4_options loss (p # rest) (c\<lparr>is_fsm := (is_fsm c)\<lparr>cfg_recv_capacity := to_size_t (strtol v)\<rparr>\<rparr>)
      else if strncmp_eq 3 ''-t'' arg
      then if rest = [] then requires ''-t''
           else ipv4_options loss (p # rest) (c\<lparr>is_fsm := (is_fsm c)\<lparr>cfg_rt_timeout := of_int (strtol v)\<rparr>\<rparr>)
      else if strncmp_eq 3 ''-d'' arg
      then if rest = [] then requires ''-t'' else ipv4_options loss (p # rest) (c\<lparr>is_tundev := Some v\<rparr>)
      else if strncmp_eq 3 ''-Lu'' arg
      then if rest = [] then requires ''-Lu''
           else ipv4_options loss (p # rest) (c\<lparr>is_filt := (is_filt c)\<lparr>ac_loss_rate_up := loss v\<rparr>\<rparr>)
      else if strncmp_eq 3 ''-Ld'' arg
      then if rest = [] then requires ''-Lu''
           else ipv4_options loss (p # rest) (c\<lparr>is_filt := (is_filt c)\<lparr>ac_loss_rate_dn := loss v\<rparr>\<rparr>)
      else if strncmp_eq 3 ''-h'' arg then Usage 0 None
      else unrecognized arg)"
| "ipv4_options loss args c = Config (c, args)"

definition ipv4_get_config :: "getaddrinfo \<Rightarrow> getnameinfo \<Rightarrow> (string \<Rightarrow> u16) \<Rightarrow> u32 \<Rightarrow> string list \<Rightarrow> ipv4_settings outcome result" where
  "ipv4_get_config gai gni loss random args =
     (case ipv4_options loss args (ipv4_settings_new random) of
        Usage n msg \<Rightarrow> Inr (Usage n msg)
      | Config (c, args) \<Rightarrow>
          if is_listen c
          then (case resolve gai gni ''0'' (args ! 1) of Inl e \<Rightarrow> Inl e
                | Inr e \<Rightarrow> Inr (if ep_port e = 0 then Usage 1 (Some ''ERROR: listen port cannot be zero in server mode.'')
                               else Config (c\<lparr>is_filt := (is_filt c)\<lparr>ac_source := e\<rparr>\<rparr>)))
          else (case resolve gai gni (args ! 0) (args ! 1) of Inl e \<Rightarrow> Inl e | Inr dst \<Rightarrow>
                case resolve gai gni (is_source_address c) (is_source_port c) of Inl e \<Rightarrow> Inl e | Inr src \<Rightarrow>
                  Inr (Config (c\<lparr>is_filt := (is_filt c)\<lparr>ac_destination := dst, ac_source := src\<rparr>\<rparr>))))"

text \<open>What \<open>main\<close> makes of it: the device to open and the call to make.\<close>

definition ipv4_main_config :: "getaddrinfo \<Rightarrow> getnameinfo \<Rightarrow> (string \<Rightarrow> u16) \<Rightarrow> u32 \<Rightarrow> string list \<Rightarrow> (string \<times> ipv4_settings) outcome result" where
  "ipv4_main_config gai gni loss random args =
     (if length args < 2 then Inr missing_arguments
      else case ipv4_get_config gai gni loss random args of
             Inl e \<Rightarrow> Inl e
           | Inr (Usage n msg) \<Rightarrow> Inr (Usage n msg)
           | Inr (Config c) \<Rightarrow> Inr (Config (case is_tundev c of None \<Rightarrow> TUN_DFLT | Some d \<Rightarrow> d, c)))"

section \<open>TCP over IPv4 over Ethernet\<close>

record eth_settings =
  es_fsm :: tcp_config
  es_filt :: fd_adapter_config
  es_tapdev :: string
  es_source_address :: string
  es_source_port :: string
  es_next_hop_address :: string

definition TAP_DFLT :: string where "TAP_DFLT = ''tap10''"
definition ETH_LOCAL_ADDRESS_DFLT :: string where "ETH_LOCAL_ADDRESS_DFLT = ''169.254.10.9''"
definition GATEWAY_DFLT :: string where "GATEWAY_DFLT = ''169.254.10.1''"

definition eth_settings_new :: "u32 \<Rightarrow> eth_settings" where
  "eth_settings_new random =
     \<lparr>es_fsm = tcp_config_default, es_filt = fd_adapter_config_new, es_tapdev = TAP_DFLT,
      es_source_address = ETH_LOCAL_ADDRESS_DFLT, es_source_port = dec (unat (ucast random :: u16)),
      es_next_hop_address = GATEWAY_DFLT\<rparr>"

fun eth_options :: "string list \<Rightarrow> eth_settings \<Rightarrow> (eth_settings \<times> string list) outcome" where
  "eth_options (arg # v # p # rest) c =
     (if strncmp_eq 3 ''-a'' arg
      then if rest = [] then requires ''-a'' else eth_options (p # rest) (c\<lparr>es_source_address := v\<rparr>)
      else if strncmp_eq 3 ''-s'' arg
      then if rest = [] then requires ''-s'' else eth_options (p # rest) (c\<lparr>es_source_port := v\<rparr>)
      else if strncmp_eq 3 ''-n'' arg
      then if rest = [] then requires ''-n'' else eth_options (p # rest) (c\<lparr>es_next_hop_address := v\<rparr>)
      else if strncmp_eq 3 ''-w'' arg
      then if rest = [] then requires ''-w''
           else eth_options (p # rest) (c\<lparr>es_fsm := (es_fsm c)\<lparr>cfg_recv_capacity := to_size_t (strtol v)\<rparr>\<rparr>)
      else if strncmp_eq 3 ''-t'' arg
      then if rest = [] then requires ''-t''
           else eth_options (p # rest) (c\<lparr>es_fsm := (es_fsm c)\<lparr>cfg_rt_timeout := of_int (strtol v)\<rparr>\<rparr>)
      else if strncmp_eq 3 ''-d'' arg
      then if rest = [] then requires ''-t'' else eth_options (p # rest) (c\<lparr>es_tapdev := v\<rparr>)
      else if strncmp_eq 3 ''-h'' arg then Usage 0 None
      else unrecognized arg)"
| "eth_options args c = Config (c, args)"

definition eth_get_config :: "getaddrinfo \<Rightarrow> getnameinfo \<Rightarrow> u32 \<Rightarrow> string list \<Rightarrow> (eth_settings \<times> endpoint) outcome result" where
  "eth_get_config gai gni random args =
     (case eth_options args (eth_settings_new random) of
        Usage n msg \<Rightarrow> Inr (Usage n msg)
      | Config (c, args) \<Rightarrow>
          (case resolve gai gni (args ! 0) (args ! 1) of Inl e \<Rightarrow> Inl e | Inr dst \<Rightarrow>
           case resolve gai gni (es_source_address c) (es_source_port c) of Inl e \<Rightarrow> Inl e | Inr src \<Rightarrow>
           case resolve gai gni (es_next_hop_address c) ''0'' of Inl e \<Rightarrow> Inl e | Inr next_hop \<Rightarrow>
             Inr (Config (c\<lparr>es_filt := (es_filt c)\<lparr>ac_destination := dst, ac_source := src\<rparr>\<rparr>, next_hop))))"

text \<open>\<open>main\<close> draws an Ethernet address first; the adapter is made for it, the source and the next hop.\<close>

definition eth_main_adapter :: "getaddrinfo \<Rightarrow> getnameinfo \<Rightarrow> u32 list \<Rightarrow> u32 \<Rightarrow> string list \<Rightarrow>
    (string \<times> eth_settings \<times> byte list list \<times> eth_adapter) outcome result" where
  "eth_main_adapter gai gni draws random args =
     (if length args < 2 then Inr missing_arguments
      else let local_ethernet_address = random_private_ethernet_address draws
           in case eth_get_config gai gni random args of
                Inl e \<Rightarrow> Inl e
              | Inr (Usage n msg) \<Rightarrow> Inr (Usage n msg)
              | Inr (Config (c, next_hop)) \<Rightarrow>
                  Inr (Config (es_tapdev c, c,
                    eth_adapter_new local_ethernet_address (ep_ip (ac_source (es_filt c))) (ep_ip next_hop))))"

section \<open>Native sockets\<close>

datatype native_mode = Serve string string | Dial string string

definition native_args :: "string list \<Rightarrow> native_mode outcome" where
  "native_args args =
     (if length args < 2 \<or> strncmp_eq 3 ''-l'' (args ! 0) \<and> length args < 3 then Usage 1 None
      else if strncmp_eq 3 ''-l'' (args ! 0) then Config (Serve (args ! 1) (args ! 2))
      else Config (Dial (args ! 0) (args ! 1)))"

text \<open>The socket that is copied: what the system calls return is an argument.\<close>

record native_calls =
  nc_socket :: sysret
  nc_setsockopt :: sysret
  nc_bind :: "byte list \<times> nat \<Rightarrow> sysret"
  nc_listen :: sysret
  nc_accept :: "sysret \<times> sockopt \<times> sockopt"
  nc_connect :: "byte list \<times> nat \<Rightarrow> sysret"

definition native_socket :: "getaddrinfo \<Rightarrow> native_calls \<Rightarrow> native_mode \<Rightarrow> fd_wrapper result" where
  "native_socket gai calls mode =
     (case socket_new (nc_socket calls) of Inl e \<Rightarrow> Inl e | Inr sock \<Rightarrow>
      (case mode of
         Serve host service \<Rightarrow>
           (case set_reuseaddr (nc_setsockopt calls) of Inl e \<Rightarrow> Inl e | Inr _ \<Rightarrow>
            case address_of_host gai host service of Inl e \<Rightarrow> Inl e | Inr address \<Rightarrow>
            case socket_bind (nc_bind calls) address of Inl e \<Rightarrow> Inl e | Inr _ \<Rightarrow>
            case tcp_listen (nc_listen calls) of Inl e \<Rightarrow> Inl e | Inr _ \<Rightarrow>
              let (ret, domain, type) = nc_accept calls in fst (tcp_accept ret domain type sock))
       | Dial host service \<Rightarrow>
           (case address_of_host gai host service of Inl e \<Rightarrow> Inl e | Inr address \<Rightarrow>
            case socket_connect (nc_connect calls) address of Inl e \<Rightarrow> Inl e | Inr _ \<Rightarrow> Inr sock)))"

section \<open>Numbers\<close>

text \<open>\<open>strtol\<close> reads back the decimal numbers that \<open>to_string\<close> prints.\<close>

lemma digits_decimal: "\<forall>c\<in>set s. isdigit c \<Longrightarrow> digits 10 s = map digit_val s"
  by (induction s) (auto simp: isdigit_def digit_value_def digit_val_def Let_def)

lemma dec_Cons: obtains c s where "dec n = c # s" "isdigit c"
  by (cases "dec n") (use isdigit_dec [of _ n] from_to_base [of 10 n] in
      \<open>auto simp: to_base.simps [of 10 n] split: if_splits\<close>)

lemma dec_leading_zero: "take 1 (dec n) = ''0'' \<Longrightarrow> dec n = ''0''"
proof (induction n rule: less_induct)
  case (less n)
  show ?case
  proof (cases "n < 10")
    case True
    then show ?thesis
      using less.prems by (simp add: to_base.simps [of 10 n])
  next
    case False
    have e: "dec n = dec (n div 10) @ [digit_char (n mod 10)]"
      using False by (simp add: to_base.simps [of 10 n])
    obtain c s where d: "dec (n div 10) = c # s"
      by (rule dec_Cons)
    have "dec (n div 10) = ''0''"
      using less.IH [of "n div 10"] less.prems False d by (simp add: e)
    then have "n div 10 = 0"
      using from_to_base [of 10 "n div 10"] by (simp add: from_base_def digit_val_def)
    then show ?thesis
      using False by simp
  qed
qed

lemma foldl_digits: "foldl (\<lambda>a d. b * a + d) acc (map digit_val s) = foldl (\<lambda>a c. b * a + digit_val c) acc s"
  by (induction s arbitrary: acc) simp_all

lemma strtol_dec: "n < 2 ^ 63 \<Longrightarrow> strtol (dec n) = int n"
proof -
  assume n: "n < 2 ^ 63"
  obtain c s where d: "dec n = c # s" and c: "isdigit c"
    by (rule dec_Cons)
  have plain: "dropWhile isspace (dec n) = dec n" "take 1 (dec n) \<noteq> ''-''" "take 1 (dec n) \<noteq> ''+''"
    using c by (auto simp: d isspace_def isdigit_def)
  have hex: "take 2 (dec n) \<noteq> ''0x''" "take 2 (dec n) \<noteq> ''0X''"
    using isdigit_dec [of "CHR ''x''" n] isdigit_dec [of "CHR ''X''" n]
      in_set_takeD [of "CHR ''x''" 2 "dec n"] in_set_takeD [of "CHR ''X''" 2 "dec n"]
    by (auto simp: isdigit_def)
  have ten: "foldl (\<lambda>a d. 10 * a + d) 0 (digits 10 (dec n)) = n"
    using from_to_base [of 10 n] by (simp add: digits_decimal foldl_digits from_base_def)
  have zero: "n = 0" if "take 1 (dec n) = ''0''"
    using dec_leading_zero [OF that] from_to_base [of 10 n] by (simp add: from_base_def digit_val_def)
  show ?thesis
  proof (cases "take 1 (dec n) = ''0''")
    case True
    then show ?thesis
      using dec_leading_zero [OF True] zero by (simp add: strtol_def isspace_def digit_value_def)
  next
    case False
    have "int n < 2 ^ 63"
      using n by (simp flip: of_nat_less_iff)
    then show ?thesis
      using False plain hex ten by (simp add: strtol_def Let_def)
  qed
qed

section \<open>Options\<close>

datatype ipv4_option =
    Listen | Source_Address string | Source_Port string | Window nat | Timeout u16 | Tun_Device string
  | Loss_Up string | Loss_Down string

fun option_args :: "ipv4_option \<Rightarrow> string list" where
  "option_args Listen = [''-l'']"
| "option_args (Source_Address a) = [''-a'', a]"
| "option_args (Source_Port p) = [''-s'', p]"
| "option_args (Window n) = [''-w'', dec n]"
| "option_args (Timeout t) = [''-t'', dec (unat t)]"
| "option_args (Tun_Device d) = [''-d'', d]"
| "option_args (Loss_Up r) = [''-Lu'', r]"
| "option_args (Loss_Down r) = [''-Ld'', r]"

fun apply_option :: "(string \<Rightarrow> u16) \<Rightarrow> ipv4_option \<Rightarrow> ipv4_settings \<Rightarrow> ipv4_settings" where
  "apply_option loss Listen c = c\<lparr>is_listen := True\<rparr>"
| "apply_option loss (Source_Address a) c = c\<lparr>is_source_address := a\<rparr>"
| "apply_option loss (Source_Port p) c = c\<lparr>is_source_port := p\<rparr>"
| "apply_option loss (Window n) c = c\<lparr>is_fsm := (is_fsm c)\<lparr>cfg_recv_capacity := n\<rparr>\<rparr>"
| "apply_option loss (Timeout t) c = c\<lparr>is_fsm := (is_fsm c)\<lparr>cfg_rt_timeout := t\<rparr>\<rparr>"
| "apply_option loss (Tun_Device d) c = c\<lparr>is_tundev := Some d\<rparr>"
| "apply_option loss (Loss_Up r) c = c\<lparr>is_filt := (is_filt c)\<lparr>ac_loss_rate_up := loss r\<rparr>\<rparr>"
| "apply_option loss (Loss_Down r) c = c\<lparr>is_filt := (is_filt c)\<lparr>ac_loss_rate_dn := loss r\<rparr>\<rparr>"

lemma unat_u16_less: "unat (t :: u16) < 2 ^ 63"
  using unsigned_less [of t] by (rule less_trans) simp

lemma ipv4_options_step:
  assumes "2 \<le> length args" "\<And>n. opt = Window n \<Longrightarrow> n < 2 ^ 63"
  shows "ipv4_options loss (option_args opt @ args) c = ipv4_options loss args (apply_option loss opt c)"
proof -
  obtain p q rest where a: "args = p # q # rest"
    using assms(1) by (cases args; cases "tl args") auto
  show ?thesis
    using assms(2) strtol_dec [OF unat_u16_less]
    by (cases opt) (simp_all add: a strncmp_eq_def strtol_dec to_size_t_def)
qed

lemma ipv4_options_positional: "length args \<le> 2 \<Longrightarrow> ipv4_options loss args c = Config (c, args)"
  by (cases "(loss, args, c)" rule: ipv4_options.cases) auto

text \<open>
  C16. Whatever options are given, and in whatever order and number, \<open>tcp_ipv4\<close> applies each of them once, in the order of
  the command line, with its argument, and takes the last two arguments as host and port, even if they look like options.
\<close>

theorem command_line_options:
  assumes "\<And>n. Window n \<in> set opts \<Longrightarrow> n < 2 ^ 63"
  shows "ipv4_options loss (concat (map option_args opts) @ [host, port]) c =
    Config (fold (apply_option loss) opts c, [host, port])"
  using assms
proof (induction opts arbitrary: c)
  case Nil
  show ?case
    by (simp add: ipv4_options_positional)
next
  case (Cons opt opts)
  show ?case
    using ipv4_options_step [of "concat (map option_args opts) @ [host, port]" opt loss c] Cons by simp
qed

theorem command_line_options_witness:
  "ipv4_options (\<lambda>_. 7) [''-l'', ''-w'', ''500'', ''-Lu'', ''0.1'', ''-w'', ''80'', ''-l'', ''-h''] (ipv4_settings_new 5) =
    Config ((ipv4_settings_new 5)\<lparr>is_listen := True,
      is_fsm := tcp_config_default\<lparr>cfg_recv_capacity := 80\<rparr>,
      is_filt := fd_adapter_config_new\<lparr>ac_loss_rate_up := 7\<rparr>\<rparr>, [''-l'', ''-h''])"
proof -
  have d: "dec 500 = ''500''" "dec 80 = ''80''"
    by code_simp+
  have w: "n < 2 ^ 63" if "Window n \<in> set [Listen, Window 500, Loss_Up ''0.1'', Window 80]" for n
    using that by auto
  show ?thesis
    using command_line_options [of "[Listen, Window 500, Loss_Up ''0.1'', Window 80]" "\<lambda>_. 7" "''-l''" "''-h''" "ipv4_settings_new 5", OF w]
    by (simp add: d ipv4_settings_new_def del: ipv4_options.simps)
qed

section \<open>No argument outside the command line is read\<close>

text \<open>
  What the three loops over the options have in common: two arguments end the loop, and an option ends the program or
  is taken off the front, alone or with its argument, which is there with two more after it.
\<close>

definition two_left :: "string list \<Rightarrow> string list \<Rightarrow> bool" where
  "two_left args rest \<longleftrightarrow> length rest = 2 \<and> suffix rest args"

lemma two_left_Cons: "two_left args rest \<Longrightarrow> two_left (a # args) rest"
  by (simp add: two_left_def suffix_ConsI)

definition taken_off :: "(string list \<Rightarrow> 's \<Rightarrow> ('s \<times> string list) outcome) \<Rightarrow> string \<Rightarrow> string \<Rightarrow> string list \<Rightarrow>
    ('s \<times> string list) outcome \<Rightarrow> bool" where
  "taken_off run v p rest x \<longleftrightarrow> (\<exists>n msg. x = Usage n msg) \<or> (\<exists>c. x = run (v # p # rest) c) \<or>
     rest \<noteq> [] \<and> (\<exists>c. x = run (p # rest) c)"

lemma taken_off_usage: "taken_off run v p rest (Usage n msg)"
  by (simp add: taken_off_def)

lemma taken_off_one: "taken_off run v p rest (run (v # p # rest) c)"
  by (auto simp: taken_off_def)

lemma taken_off_two: "rest \<noteq> [] \<Longrightarrow> taken_off run v p rest (run (p # rest) c)"
  by (auto simp: taken_off_def)

lemma taken_off_if:
  "(b \<Longrightarrow> taken_off run v p rest x) \<Longrightarrow> (\<not> b \<Longrightarrow> taken_off run v p rest y) \<Longrightarrow> taken_off run v p rest (if b then x else y)"
  by simp

lemmas taken_off_intros = taken_off_if taken_off_usage taken_off_one taken_off_two

locale option_loop =
  fixes run :: "string list \<Rightarrow> 's \<Rightarrow> ('s \<times> string list) outcome"
  assumes stop: "run [host, service] c = Config (c, [host, service])"
    and option: "taken_off run v p rest (run (a # v # p # rest) c)"
begin

lemma ends_with_two: "2 \<le> length args \<Longrightarrow> run args c = Config (c', rest) \<Longrightarrow> two_left args rest"
proof (induction args arbitrary: c rule: length_induct)
  case (1 args)
  note IH = "1.IH" [rule_format]
  consider h q where "args = [h, q]" | a v p r where "args = a # v # p # r"
    using "1.prems"(1) by (cases args; cases "tl args"; cases "tl (tl args)") auto
  then show ?case
  proof cases
    case 1
    then show ?thesis
      using "1.prems"(2) by (auto simp: stop two_left_def)
  next
    case 2
    from option [of v p r a c] consider
        n msg where "run args c = Usage n msg"
      | d where "run args c = run (v # p # r) d"
      | d where "r \<noteq> []" "run args c = run (p # r) d"
      unfolding 2 taken_off_def by blast
    then show ?thesis
    proof cases
      case 1
      then show ?thesis
        using "1.prems"(2) by simp
    next
      case one: 2
      show ?thesis
        using IH [of "v # p # r" d] "1.prems"(2) one by (simp add: 2 two_left_Cons)
    next
      case two: 3
      have "2 \<le> length (p # r)"
        using two(1) by (cases r) auto
      then show ?thesis
        using IH [of "p # r" d] "1.prems"(2) two by (simp add: 2 two_left_Cons)
    qed
  qed
qed

end

interpretation udp: option_loop "udp_options loss" for loss
proof
  show "udp_options loss [host, service] c = Config (c, [host, service])" for host service c
    by simp
  show "taken_off (udp_options loss) v p rest (udp_options loss (a # v # p # rest) c)" for v p rest a c
    unfolding udp_options.simps(1) requires_def unrecognized_def by (intro taken_off_intros)
qed

interpretation ipv4: option_loop "ipv4_options loss" for loss
proof
  show "ipv4_options loss [host, service] c = Config (c, [host, service])" for host service c
    by simp
  show "taken_off (ipv4_options loss) v p rest (ipv4_options loss (a # v # p # rest) c)" for v p rest a c
    unfolding ipv4_options.simps(1) requires_def unrecognized_def by (intro taken_off_intros)
qed

interpretation eth: option_loop eth_options
proof
  show "eth_options [host, service] c = Config (c, [host, service])" for host service c
    by simp
  show "taken_off (eth_options) v p rest (eth_options (a # v # p # rest) c)" for v p rest a c
    unfolding eth_options.simps(1) requires_def unrecognized_def by (intro taken_off_intros)
qed

text \<open>
  C17. The three programs that parse options end the loop with exactly the last two arguments, which are the host and the
  port: no combination of options, with or without their arguments, makes them read past the end of the command line.
\<close>

theorem command_line_in_bounds:
  assumes "2 \<le> length args"
  shows "(\<forall>c' rest. udp_options loss args u = Config (c', rest) \<longrightarrow> two_left args rest) \<and>
    (\<forall>c' rest. ipv4_options loss args c = Config (c', rest) \<longrightarrow> two_left args rest) \<and>
    (\<forall>c' rest. eth_options args e = Config (c', rest) \<longrightarrow> two_left args rest)"
  using udp.ends_with_two [OF assms] ipv4.ends_with_two [OF assms] eth.ends_with_two [OF assms] by blast

theorem command_line_in_bounds_witness:
  "two_left [''-s'', ''80'', ''-l'', ''-w''] [''-l'', ''-w'']"
proof -
  have "eth_options [''-s'', ''80'', ''-l'', ''-w''] (eth_settings_new 0) =
      Config ((eth_settings_new 0)\<lparr>es_source_port := ''80''\<rparr>, [''-l'', ''-w''])"
    by (simp add: strncmp_eq_def)
  then show ?thesis
    using command_line_in_bounds [of "[''-s'', ''80'', ''-l'', ''-w'']" "\<lambda>_. 0" udp_settings_new "ipv4_settings_new 0"
        "eth_settings_new 0"] by simp
qed

end
