(* ===== verification/Lab7.thy ===== *)
theory Lab7
  imports Sponge_Socket Network_Simulator Packet_Dump Event_Loop
begin

text \<open>
  \<open>apps/lab7.cc\<close>: a host whose TCP socket sits on a network interface, the router next to it, and the thread that carries
  frames between the host, the router and a UDP socket to the other side. As elsewhere the kernel and the random numbers
  are arguments; \<open>sendmsg\<close> comes with the state of the kernel after it. Messages to the console are left out.
\<close>

section \<open>Frames as text\<close>

definition lab7_summary :: "ethernet_frame \<Rightarrow> string" where
  "lab7_summary frame =
     ethernet_header_to_string (fr_header frame) @
     (if eth_type (fr_header frame) = TYPE_IPv4
      then let (res, dgram) = ipv4_datagram_parse (fr_payload frame) ipv4_datagram_new
           in if res = NoError
              then '' '' @ ipv4_header_summary (dg_header dgram) @
                (if ip_proto (dg_header dgram) = PROTO_TCP
                 then let (res, seg) = tcp_segment_parse (dg_payload dgram) (ipv4_pseudo_cksum (dg_header dgram)) tcp_segment_new
                      in if res = NoError then '' '' @ tcp_header_summary (header seg) else ''''
                 else '''')
              else '' (bad IPv4)''
      else if eth_type (fr_header frame) = TYPE_ARP
      then let (res, arp) = arp_parse (fr_payload frame) arp_message_new
           in if res = NoError then '' '' @ arp_to_string arp else '' (bad ARP)''
      else '''')"

section \<open>The socket of the host\<close>

text \<open>
  The adapter reads, writes and ticks as the one on a TAP device does, on one end of a pair of sockets; it sends no
  frame when it is made.
\<close>

definition interface_adapter_new :: "(nat \<Rightarrow> u32) \<Rightarrow> nat \<Rightarrow> u32 \<Rightarrow> u32 \<Rightarrow> eth_adapter" where
  "interface_adapter_new rd n ip_address next_hop =
     \<lparr>ea_base = fd_adapter_new, ea_interface = network_interface_new (random_host_ethernet_address rd n) ip_address,
      ea_next_hop = next_hop\<rparr>"

record ('a, 'k) lab7_socket =
  ls_sponge :: "('a, 'k) sponge"
  ls_local_address :: endpoint

definition lab7_connect :: "'a adapter_ops \<Rightarrow> 'k kernel_calls \<Rightarrow> turn list \<Rightarrow> nat \<Rightarrow> u32 \<Rightarrow> u32 \<Rightarrow> endpoint \<Rightarrow>
    ('a, 'k) lab7_socket \<Rightarrow> (bool \<times> ('a, 'k) sponge ev_rule list \<times> ('a, 'k) lab7_socket) result" where
  "lab7_connect A K turns now random port address s =
     (let local_address = \<lparr>ep_ip = ep_ip (ls_local_address s), ep_port = ucast port\<rparr>;
          multiplexer_config = fd_adapter_config_new\<lparr>ac_source := local_address, ac_destination := address\<rparr>
      in case sponge_connect A K turns now random tcp_config_default multiplexer_config [] (ls_sponge s) of
           Inl e \<Rightarrow> Inl e
         | Inr (finished, rules, sp) \<Rightarrow> Inr (finished, rules, \<lparr>ls_sponge = sp, ls_local_address = local_address\<rparr>))"

definition lab7_bind :: "endpoint \<Rightarrow> ('a, 'k) lab7_socket \<Rightarrow> ('a, 'k) lab7_socket result" where
  "lab7_bind address s =
     (if ep_ip address \<noteq> ep_ip (ls_local_address s)
      then Inl (Runtime_Error (''Cannot bind to '' @ inet_ntoa (ep_ip address) @ '':'' @ dec (unat (ep_port address))))
      else Inr (s\<lparr>ls_local_address := \<lparr>ep_ip = ep_ip (ls_local_address s), ep_port = ep_port address\<rparr>\<rparr>))"

definition lab7_listen_and_accept :: "'a adapter_ops \<Rightarrow> 'k kernel_calls \<Rightarrow> turn list \<Rightarrow> nat \<Rightarrow> u32 \<Rightarrow>
    ('a, 'k) lab7_socket \<Rightarrow> (bool \<times> ('a, 'k) sponge ev_rule list \<times> ('a, 'k) lab7_socket) result" where
  "lab7_listen_and_accept A K turns now random s =
     (case listen_and_accept A K turns now random tcp_config_default
             (fd_adapter_config_new\<lparr>ac_source := ls_local_address s\<rparr>) [] (ls_sponge s) of
        Inl e \<Rightarrow> Inl e
      | Inr (finished, rules, sp) \<Rightarrow> Inr (finished, rules, s\<lparr>ls_sponge := sp\<rparr>))"

text \<open>The client connects to the server's address, which the server binds.\<close>

definition lab7_open :: "bool \<Rightarrow> 'a adapter_ops \<Rightarrow> 'k kernel_calls \<Rightarrow> turn list \<Rightarrow> nat \<Rightarrow> u32 \<Rightarrow> u32 \<Rightarrow>
    ('a, 'k) lab7_socket \<Rightarrow> (bool \<times> ('a, 'k) sponge ev_rule list \<times> ('a, 'k) lab7_socket) result" where
  "lab7_open is_client A K turns now random port s =
     (if is_client then lab7_connect A K turns now random port \<lparr>ep_ip = quad 172 16 0 100, ep_port = 1234\<rparr> s
      else case lab7_bind \<lparr>ep_ip = quad 172 16 0 100, ep_port = 1234\<rparr> s of Inl e \<Rightarrow> Inl e
           | Inr s \<Rightarrow> lab7_listen_and_accept A K turns now random s)"

section \<open>The network thread\<close>

type_synonym 'k sendmsg = "'k \<Rightarrow> (byte list \<times> nat) option \<Rightarrow> (byte list \<times> nat) list \<Rightarrow> sysret \<times> 'k"

record 'k lab7 =
  lb_router :: router
  lb_host_side :: nat
  lb_internet_side :: nat
  lb_frame_fd :: fd_wrapper
  lb_internet_socket :: fd_wrapper
  lb_kernel :: 'k

definition FRAME_FD :: nat where "FRAME_FD = 4"
definition INTERNET :: nat where "INTERNET = 5"

definition lab7_fds :: "'k lab7 fd_table" where
  "lab7_fds s i = (if i = FRAME_FD then lb_frame_fd s else lb_internet_socket s)"

definition internet_sendto :: "'k sendmsg \<Rightarrow> address \<Rightarrow> byte list \<Rightarrow> 'k lab7 \<Rightarrow> 'k lab7 result" where
  "internet_sendto sendmsg destination message s =
     (let dst = Some (ad_raw destination, ad_size destination);
          iov = bvl_as_iovecs (bvl_from_view message)
      in case udp_sendto (\<lambda>d i. fst (sendmsg (lb_kernel s) d i)) destination (bvl_from_view message) (lb_internet_socket s) of
           (Inl e, _) \<Rightarrow> Inl e
         | (Inr _, w) \<Rightarrow> Inr (s\<lparr>lb_internet_socket := w, lb_kernel := snd (sendmsg (lb_kernel s) dst iov)\<rparr>))"

text \<open>The bouncer learns where the program is from three empty datagrams.\<close>

definition say_hello :: "'k sendmsg \<Rightarrow> address \<Rightarrow> 'k lab7 \<Rightarrow> 'k lab7 result" where
  "say_hello sendmsg bounce_address s =
     (case internet_sendto sendmsg bounce_address [] s of Inl e \<Rightarrow> Inl e | Inr s \<Rightarrow>
      case internet_sendto sendmsg bounce_address [] s of Inl e \<Rightarrow> Inl e | Inr s \<Rightarrow>
      internet_sendto sendmsg bounce_address [] s)"

definition lab7_router :: "bool \<Rightarrow> (nat \<Rightarrow> u32) \<Rightarrow> nat \<times> nat \<times> router" where
  "lab7_router is_client rd =
     (if is_client
      then let (host_side, r) = add_interface (async_interface_new (network_interface_new
                 (random_router_ethernet_address rd 0) (quad 192 168 0 1))) router_new;
               (internet_side, r) = add_interface (async_interface_new (network_interface_new
                 (random_router_ethernet_address rd 6) (quad 10 0 0 192))) r;
               r = add_route (quad 192 168 0 0) 16 None host_side r;
               r = add_route (quad 10 0 0 0) 8 None internet_side r;
               r = add_route (quad 172 16 0 0) 12 (Some (quad 10 0 0 172)) internet_side r
           in (host_side, internet_side, r)
      else let (host_side, r) = add_interface (async_interface_new (network_interface_new
                 (random_router_ethernet_address rd 0) (quad 172 16 0 1))) router_new;
               (internet_side, r) = add_interface (async_interface_new (network_interface_new
                 (random_router_ethernet_address rd 6) (quad 10 0 0 172))) r;
               r = add_route (quad 172 16 0 0) 12 None host_side r;
               r = add_route (quad 10 0 0 0) 8 None internet_side r;
               r = add_route (quad 192 168 0 0) 16 (Some (quad 10 0 0 192)) internet_side r
           in (host_side, internet_side, r))"

definition lab7_host_adapter :: "bool \<Rightarrow> (nat \<Rightarrow> u32) \<Rightarrow> eth_adapter" where
  "lab7_host_adapter is_client rd =
     (if is_client then interface_adapter_new rd 12 (quad 192 168 0 50) (quad 192 168 0 1)
      else interface_adapter_new rd 12 (quad 172 16 0 100) (quad 172 16 0 1))"

definition lab7_new :: "bool \<Rightarrow> (nat \<Rightarrow> u32) \<Rightarrow> fd_wrapper \<Rightarrow> fd_wrapper \<Rightarrow> 'k \<Rightarrow> 'k lab7" where
  "lab7_new is_client rd frame_fd internet_socket k =
     (let (host_side, internet_side, r) = lab7_router is_client rd
      in \<lparr>lb_router = r, lb_host_side = host_side, lb_internet_side = internet_side, lb_frame_fd = frame_fd,
          lb_internet_socket = internet_socket, lb_kernel = k\<rparr>)"

definition router_recv :: "nat \<Rightarrow> ethernet_frame \<Rightarrow> router \<Rightarrow> router result" where
  "router_recv N frame r =
     (case router_interface N r of Inl e \<Rightarrow> Inl e
      | Inr x \<Rightarrow> Inr (route (r\<lparr>rt_interfaces := (rt_interfaces r)[N := async_recv_frame frame x]\<rparr>)))"

definition receive_frame :: "nat \<Rightarrow> byte list \<Rightarrow> 'k lab7 \<Rightarrow> 'k lab7 result" where
  "receive_frame side packet s =
     (let (res, frame) = ethernet_frame_parse packet ethernet_frame_new
      in if res \<noteq> NoError then Inr s
         else case router_recv side frame (lb_router s) of Inl e \<Rightarrow> Inl e | Inr r \<Rightarrow> Inr (s\<lparr>lb_router := r\<rparr>))"

definition host_to_router :: "'k kernel_calls \<Rightarrow> 'k lab7 \<Rightarrow> 'k lab7 result" where
  "host_to_router K s =
     (case kernel_read K FRAME_FD SIZE_MAX (lb_kernel s) (lb_frame_fd s) of
        (Inl e, _) \<Rightarrow> Inl e
      | (Inr packet, w, k) \<Rightarrow> receive_frame (lb_host_side s) packet (s\<lparr>lb_frame_fd := w, lb_kernel := k\<rparr>))"

definition internet_to_router :: "'k kernel_calls \<Rightarrow> 'k lab7 \<Rightarrow> 'k lab7 result" where
  "internet_to_router K s =
     (case kernel_read K INTERNET SIZE_MAX (lb_kernel s) (lb_internet_socket s) of
        (Inl e, _) \<Rightarrow> Inl e
      | (Inr packet, w, k) \<Rightarrow> receive_frame (lb_internet_side s) packet (s\<lparr>lb_internet_socket := w, lb_kernel := k\<rparr>))"

text \<open>The frames waiting at a side of the router, and the router without the first of them.\<close>

definition waiting :: "nat \<Rightarrow> 'k lab7 \<Rightarrow> ethernet_frame list result" where
  "waiting N s = (case router_interface N (lb_router s) of Inl e \<Rightarrow> Inl e | Inr x \<Rightarrow> Inr (frames_out x))"

definition pop_frame :: "nat \<Rightarrow> 'k lab7 \<Rightarrow> 'k lab7" where
  "pop_frame N s =
     (let r = lb_router s; x = rt_interfaces r ! N
      in s\<lparr>lb_router := r\<lparr>rt_interfaces := (rt_interfaces r)[N :=
           x\<lparr>as_interface := (as_interface x)\<lparr>ni_frames_out := tl (frames_out x)\<rparr>\<rparr>]\<rparr>\<rparr>)"

text \<open>
  \<open>front()\<close> of an empty queue is undefined: the frame \<open>junk\<close> that it would yield is an argument, and the \<open>pop()\<close> after
  it leaves the empty queue empty. Only the interest of the rules keeps the callbacks from sending it.
\<close>

definition front_frame :: "ethernet_frame \<Rightarrow> ethernet_frame list \<Rightarrow> ethernet_frame" where
  "front_frame junk fs = (case fs of [] \<Rightarrow> junk | f # _ \<Rightarrow> f)"

definition router_to_host :: "'k kernel_calls \<Rightarrow> ethernet_frame \<Rightarrow> 'k lab7 \<Rightarrow> 'k lab7 result" where
  "router_to_host K junk s =
     (case waiting (lb_host_side s) s of Inl e \<Rightarrow> Inl e
      | Inr fs \<Rightarrow>
          (case fd_write (kc_writev K FRAME_FD) (bvl_from_view (ethernet_frame_serialize (front_frame junk fs))) True
                  (lb_kernel s) (lb_frame_fd s) of
             (Inl e, _) \<Rightarrow> Inl e
           | (Inr _, k, w) \<Rightarrow> Inr (pop_frame (lb_host_side s) (s\<lparr>lb_frame_fd := w, lb_kernel := k\<rparr>))))"

definition router_to_internet :: "'k sendmsg \<Rightarrow> address \<Rightarrow> ethernet_frame \<Rightarrow> 'k lab7 \<Rightarrow> 'k lab7 result" where
  "router_to_internet sendmsg bounce_address junk s =
     (case waiting (lb_internet_side s) s of Inl e \<Rightarrow> Inl e
      | Inr fs \<Rightarrow>
          (case internet_sendto sendmsg bounce_address (ethernet_frame_serialize (front_frame junk fs)) s of
             Inl e \<Rightarrow> Inl e
           | Inr s \<Rightarrow> Inr (pop_frame (lb_internet_side s) s)))"

definition has_frames :: "nat \<Rightarrow> 'k lab7 \<Rightarrow> bool" where
  "has_frames N s = (case waiting N s of Inl e \<Rightarrow> False | Inr fs \<Rightarrow> fs \<noteq> [])"

definition lab7_rules :: "'k kernel_calls \<Rightarrow> 'k sendmsg \<Rightarrow> address \<Rightarrow> ethernet_frame \<Rightarrow> 'k lab7 ev_rule list" where
  "lab7_rules K sendmsg bounce_address junk =
     (let rules = add_rule [] FRAME_FD In (host_to_router K) (\<lambda>_. True) Inr;
          rules = add_rule rules FRAME_FD Out (router_to_host K junk) (\<lambda>s. has_frames (lb_host_side s) s) Inr;
          rules = add_rule rules INTERNET Out (router_to_internet sendmsg bounce_address junk) (\<lambda>s. has_frames (lb_internet_side s) s) Inr
      in add_rule rules INTERNET In (internet_to_router K) (\<lambda>_. True) Inr)"

definition router_tick :: "nat \<Rightarrow> nat \<Rightarrow> router \<Rightarrow> router result" where
  "router_tick N ms r =
     (case router_interface N r of Inl e \<Rightarrow> Inl e
      | Inr x \<Rightarrow> Inr (r\<lparr>rt_interfaces := (rt_interfaces r)[N := x\<lparr>as_interface := ni_tick ms (as_interface x)\<rparr>]\<rparr>))"

record lab7_turn =
  lt_poll :: "(int \<times> u16) list \<Rightarrow> int \<Rightarrow> sysret \<times> u16 list"
  lt_exit :: bool

text \<open>Whether the loop ended, and the state; an exception ends the thread.\<close>

fun network_loop :: "lab7_turn list \<Rightarrow> 'k lab7 ev_rule list \<Rightarrow> 'k lab7 \<Rightarrow> (bool \<times> 'k lab7) result" where
  "network_loop [] rules s = Inr (False, s)"
| "network_loop (t # turns) rules s =
     (case wait_next_event lab7_fds (lt_poll t) 50 rules s of
        Inl e \<Rightarrow> Inl e
      | Inr (ret, rules, s) \<Rightarrow>
          if ret = Exit then Inr (True, s)
          else case router_tick (lb_host_side s) 50 (lb_router s) of Inl e \<Rightarrow> Inl e | Inr r \<Rightarrow>
               case router_tick (lb_internet_side s) 50 r of Inl e \<Rightarrow> Inl e | Inr r \<Rightarrow>
                 let s = s\<lparr>lb_router := r\<rparr>
                 in if lt_exit t then Inr (True, s) else network_loop turns rules s)"

section \<open>The command line\<close>

datatype lab7_mode = Run bool string string bool | Bad_Usage

definition lab7_args :: "string list \<Rightarrow> lab7_mode" where
  "lab7_args args =
     (if length args \<noteq> 3 \<and> length args \<noteq> 4 then Bad_Usage
      else if args ! 0 \<noteq> ''client'' \<and> args ! 0 \<noteq> ''server'' then Bad_Usage
      else Run (args ! 0 = ''client'') (args ! 1) (args ! 2) (length args = 4))"

section \<open>A network that carries nothing\<close>

text \<open>
  An interface that turns no datagram into a frame and no frame into a datagram leaves both sides of the router quiet,
  so that the rules that send are never of interest.
\<close>

definition lab7_quiet :: "('k \<Rightarrow> 'o) \<Rightarrow> 'o \<Rightarrow> 'k lab7 \<Rightarrow> bool" where
  "lab7_quiet sent out s \<longleftrightarrow> sent (lb_kernel s) = out \<and> (\<forall>x \<in> set (rt_interfaces (lb_router s)). quiet_interface x)"

lemma router_recv_quiet:
  "\<forall>x \<in> set (rt_interfaces r). quiet_interface x \<Longrightarrow> router_recv N frame r = Inr r' \<Longrightarrow> r' = r"
  by (auto simp: router_recv_def router_interface_def async_recv_frame_def ni_recv_frame_def route_idle split: if_splits)

lemma receive_frame_quiet: "lab7_quiet sent out s \<Longrightarrow> receive_frame N packet s = Inr s' \<Longrightarrow> lab7_quiet sent out s'"
  by (auto simp: receive_frame_def lab7_quiet_def split: prod.splits if_splits sum.splits) (metis router_recv_quiet)

lemma waiting_quiet: "lab7_quiet sent out s \<Longrightarrow> waiting N s = Inr fs \<Longrightarrow> fs = []"
  by (auto simp: waiting_def router_interface_def lab7_quiet_def quiet_interface_def split: if_splits)

lemma router_tick_quiet: "router_tick N ms r = Inr r' \<Longrightarrow> r' = r"
  by (auto simp: router_tick_def router_interface_def ni_tick_def split: if_splits)

lemma kernel_read_observed:
  assumes "\<And>fd n k. sent (snd (kc_read K fd n k)) = sent k" "kernel_read K fd limit k w = (r, w', k')"
  shows "sent k' = sent k"
  using assms by (auto simp: kernel_read_def split: prod.splits)

lemma host_to_router_quiet:
  assumes "\<And>fd n k. sent (snd (kc_read K fd n k)) = sent k" "lab7_quiet sent out s" "host_to_router K s = Inr s'"
  shows "lab7_quiet sent out s'"
proof -
  obtain r w k where e: "kernel_read K FRAME_FD SIZE_MAX (lb_kernel s) (lb_frame_fd s) = (r, w, k)"
    by (metis prod_cases3)
  have "lab7_quiet sent out (s\<lparr>lb_frame_fd := w, lb_kernel := k\<rparr>)"
    using assms(2) kernel_read_observed [of sent, OF assms(1) e] by (simp add: lab7_quiet_def)
  then show ?thesis
    using assms(3) receive_frame_quiet by (cases r) (auto simp: host_to_router_def e)
qed

lemma internet_to_router_quiet:
  assumes "\<And>fd n k. sent (snd (kc_read K fd n k)) = sent k" "lab7_quiet sent out s" "internet_to_router K s = Inr s'"
  shows "lab7_quiet sent out s'"
proof -
  obtain r w k where e: "kernel_read K INTERNET SIZE_MAX (lb_kernel s) (lb_internet_socket s) = (r, w, k)"
    by (metis prod_cases3)
  have "lab7_quiet sent out (s\<lparr>lb_internet_socket := w, lb_kernel := k\<rparr>)"
    using assms(2) kernel_read_observed [of sent, OF assms(1) e] by (simp add: lab7_quiet_def)
  then show ?thesis
    using assms(3) receive_frame_quiet by (cases r) (auto simp: internet_to_router_def e)
qed

lemma waiting_cases:
  assumes "lab7_quiet sent out s"
  obtains e where "waiting N s = Inl e" | "waiting N s = Inr []"
  using waiting_quiet [OF assms, of N] by (cases "waiting N s") blast+

lemma has_frames_quiet: "lab7_quiet sent out s \<Longrightarrow> \<not> has_frames N s"
  by (erule waiting_cases [of _ _ _ N]) (simp_all add: has_frames_def)

lemma lab7_rules_cancel: "cancels_keep I (lab7_rules K sendmsg bounce_address junk)"
  by (simp add: cancels_keep_def lab7_rules_def add_rule_def)

text \<open>A rule that is of interest while the router is quiet is one of the two that read.\<close>

lemma lab7_rules_quiet:
  assumes "\<And>fd n k. sent (snd (kc_read K fd n k)) = sent k" "r \<in> set (lab7_rules K sendmsg bounce_address junk)"
    "lab7_quiet sent out s0" "rl_interest r s0" "lab7_quiet sent out s" "rl_callback r s = Inr s'"
  shows "lab7_quiet sent out s'"
proof -
  have "rl_callback r = host_to_router K \<or> rl_callback r = internet_to_router K"
    using assms(2,4) has_frames_quiet [OF assms(3)] by (auto simp: lab7_rules_def add_rule_def)
  then show ?thesis
    using assms(6) host_to_router_quiet [of sent K, OF assms(1,5)] internet_to_router_quiet [of sent K, OF assms(1,5)] by auto
qed

lemma network_loop_quiet:
  assumes "\<And>fd n k. sent (snd (kc_read K fd n k)) = sent k" "set rules \<subseteq> set (lab7_rules K sendmsg bounce_address junk)"
    "lab7_quiet sent out s" "network_loop turns rules s = Inr (finished, s')"
  shows "lab7_quiet sent out s'"
  using assms(2-4)
proof (induction turns arbitrary: rules s)
  case (Cons t turns)
  obtain ret rules1 s1 where w: "wait_next_event lab7_fds (lt_poll t) 50 rules s = Inr (ret, rules1, s1)"
    using Cons.prems(3) by (cases "wait_next_event lab7_fds (lt_poll t) 50 rules s") auto
  have c: "cancels_keep (lab7_quiet sent out) rules"
    using lab7_rules_cancel [of "lab7_quiet sent out" K sendmsg bounce_address junk] Cons.prems(1) unfolding cancels_keep_def by blast
  have q: "lab7_quiet sent out s1"
    by (rule wait_next_event_interested [where I = "lab7_quiet sent out", OF w Cons.prems(2) c])
      (use lab7_rules_quiet [of sent K, OF assms(1)] Cons.prems(1) in blast)
  have k: "set rules1 \<subseteq> set (lab7_rules K sendmsg bounce_address junk)"
    using wait_next_event_subset [OF w] Cons.prems(1) by blast
  show ?case
  proof (cases "ret = Exit")
    case True
    then show ?thesis
      using Cons.prems(3) w q by simp
  next
    case False
    obtain r where r1: "router_tick (lb_host_side s1) 50 (lb_router s1) = Inr r"
      using Cons.prems(3) w False by (cases "router_tick (lb_host_side s1) 50 (lb_router s1)") auto
    obtain r' where r2: "router_tick (lb_internet_side s1) 50 r = Inr r'"
      using Cons.prems(3) w False r1 by (cases "router_tick (lb_internet_side s1) 50 r") auto
    have "s1\<lparr>lb_router := r'\<rparr> = s1"
      using router_tick_quiet [OF r1] router_tick_quiet [OF r2] by simp
    then show ?thesis
      using Cons.prems(3) w False r1 r2 q Cons.IH [OF k q] by (simp split: if_splits)
  qed
qed simp

text \<open>
  C20. Whatever the host and the Internet send and however long it runs, the network thread of \<open>lab7\<close> writes nothing to
  either: it only reads. The interfaces of the router are the ones of the library, which handle no frame, so client and
  server exchange nothing after the three datagrams that announce them to the bouncer.
\<close>

theorem lab7_network_silent:
  assumes "\<And>fd n k. sent (snd (kc_read K fd n k)) = sent k"
    and "network_loop turns (lab7_rules K sendmsg bounce_address junk) (lab7_new is_client rd frame_fd internet_socket k) = Inr (finished, s')"
  shows "sent (lb_kernel s') = sent k \<and> \<not> has_frames (lb_host_side s') s' \<and> \<not> has_frames (lb_internet_side s') s'"
proof -
  have "lab7_quiet sent (sent k) (lab7_new is_client rd frame_fd internet_socket k)"
    by (simp add: lab7_quiet_def lab7_new_def lab7_router_def add_interface_def add_route_def router_new_def
        async_interface_new_def network_interface_new_def quiet_interface_def frames_out_def)
  then have q: "lab7_quiet sent (sent k) s'"
    using network_loop_quiet [of sent, OF assms(1) order_refl _ assms(2)] by blast
  then show ?thesis
    using has_frames_quiet [OF q] by (simp add: lab7_quiet_def)
qed

text \<open>A kernel that keeps what is written to it and always has a frame to read.\<close>

definition frame_kernel :: "byte list kernel_calls" where
  "frame_kernel = \<lparr>kc_read = (\<lambda>fd n k. (((14, 0), replicate 14 1), k)),
     kc_writev = (\<lambda>fd k iov. ((int (length (concat (map fst iov))), 0), k @ concat (map fst iov))),
     kc_shutdown = (\<lambda>fd how k. ((0, 0), k)), kc_close = (\<lambda>fd k. ((0, 0), k))\<rparr>"

definition frames_turn :: lab7_turn where
  "frames_turn = \<lparr>lt_poll = (\<lambda>pfs t. ((2, 0), [POLLIN, 0, 0, POLLIN])), lt_exit = True\<rparr>"

lemmas lab7_eval =
  lab7_rules_def add_rule_def lab7_new_def lab7_router_def add_interface_def add_route_def router_new_def
  async_interface_new_def network_interface_new_def wait_next_event_def poll_entries_def lab7_fds_def open_fd_def FRAME_FD_def
  INTERNET_def has_frames_def waiting_def router_interface_def frames_out_def host_to_router_def internet_to_router_def
  kernel_read_def fd_read_def frame_kernel_def system_call_def register_read_def SIZE_MAX_def BUFFER_SIZE_def receive_frame_def
  router_recv_def async_recv_frame_def ni_recv_frame_def router_tick_def ni_tick_def service_count_def POLLIN_def POLLOUT_def
  POLLERR_def POLLHUP_def POLLNVAL_def

theorem lab7_network_silent_witness:
  "\<exists>s'. network_loop [frames_turn] (lab7_rules frame_kernel (\<lambda>k d i. ((0, 0), k @ [0])) (inet_address 0 0) ethernet_frame_new)
      (lab7_new True (\<lambda>_. 0) (open_fd 3) (open_fd 4) []) = Inr (True, s') \<and> lb_kernel s' = []"
proof -
  have r: "snd (kc_read frame_kernel fd n k) = k" for fd n k
    by (simp add: frame_kernel_def)
  have "fst (ethernet_frame_parse (replicate 14 1) ethernet_frame_new) = NoError"
    by code_simp
  then obtain frame where f: "ethernet_frame_parse (replicate 14 1) ethernet_frame_new = (NoError, frame)"
    by (metis prod.collapse)
  have "case network_loop [frames_turn] (lab7_rules frame_kernel (\<lambda>k d i. ((0, 0), k @ [0])) (inet_address 0 0) ethernet_frame_new)
      (lab7_new True (\<lambda>_. 0) (open_fd 3) (open_fd 4) []) of Inl e \<Rightarrow> False | Inr (finished, s') \<Rightarrow> finished"
    by (simp add: f frames_turn_def lab7_eval route_idle quiet_interface_def cong: let_weak_cong split del: if_split)
  then obtain s' where run: "network_loop [frames_turn] (lab7_rules frame_kernel (\<lambda>k d i. ((0, 0), k @ [0])) (inet_address 0 0) ethernet_frame_new)
      (lab7_new True (\<lambda>_. 0) (open_fd 3) (open_fd 4) []) = Inr (True, s')"
    by (simp only: split: sum.splits prod.splits)
  show ?thesis
    using lab7_network_silent [of "\<lambda>k. k", OF r run] run by blast
qed

end
