(* ===== verification/Spec2Isabelle.thy ===== *)
theory Spec2Isabelle
  imports End_To_End TCP_Over_IP Stream_Copy Network_Simulator Sponge_Socket Benchmark Packet_Dump Webget Bouncer
    Command_Line Lab7
begin

text \<open>
  A verification development for Sponge, a user-space TCP/IP stack in C++ (\<open>src/libsponge\<close>, with
  programs that use it in \<open>src/apps\<close>).

  \<^bold>\<open>The program and its parts.\<close> A \<open>TCPConnection\<close> joins a \<open>TCPSender\<close>, which cuts an outgoing
  \<open>ByteStream\<close> into segments and retransmits them, and a \<open>TCPReceiver\<close>, which puts the payloads of
  incoming segments into the order of the stream with a \<open>StreamReassembler\<close>; sequence numbers are 32-bit
  \<open>WrappingInt32\<close> values. Segments are printed and parsed with \<open>NetUnparser\<close> and \<open>NetParser\<close>, carried in
  IPv4 datagrams and Ethernet frames by the adapters, and moved to and from the kernel by the
  \<open>FileDescriptor\<close> classes. A \<open>TCPSpongeSocket\<close> drives a connection from an \<open>EventLoop\<close>.

  \<^bold>\<open>Conventions.\<close> A class is a record, an operation is a function from its state to its state (and result).
  Exceptions are the left side of \<open>'a result\<close>. Header fields, timers and checksums are words of their width; byte
  counts of type \<open>size_t\<close> and \<open>uint64_t\<close> are natural numbers, with \<open>sub64\<close> where a subtraction is not guarded.
  System calls, the clock, the random device and the resolver are arguments of the definitions that use them: what a call
  returned, or (\<open>kernel_calls\<close>) functions on a state of the kernel, with \<open>honest_kernel\<close> stating what the system
  manual promises of \<open>read\<close>, \<open>write\<close> and \<open>shutdown\<close>. Containers whose sharing or capacity cannot be observed are lists.

  \<^bold>\<open>Theories.\<close>

  \<^item> \<open>Sponge_Prelude\<close>: machine types, results, pieces of lists, unsigned subtraction, words, collections of rewrite rules.
  \<^item> \<open>Byte_Stream\<close> (\<open>byte_stream.cc\<close>): the record and all operations. Its runs are those of a bounded
    queue with counters; the locale of byte queues is interpreted here.
  \<^item> \<open>Wrapping_Integers\<close> (\<open>wrapping_integers.cc\<close>): \<open>wrap\<close> and \<open>unwrap\<close> on words. \<open>unwrap\<close> inverts
    \<open>wrap\<close>; the number it finds is closest to the checkpoint exactly when the sum does not leave 64 bits.
  \<^item> \<open>Stream_Reassembler\<close>, \<open>Reassembler_Insert\<close>, \<open>Reassembler_Correct\<close> (\<open>stream_reassembler.cc\<close>): the recursive
    insertion into the list of nodes, fetching and pushing; the stored nodes stay sorted, disjoint and true pieces of the
    stream, what is delivered is a prefix of it, and a push at the first missing byte is delivered at once. Three theorems
    give whole families of inputs on which the code departs from that: pushes past the window, an end mark that is overtaken, and
    longer pushes from the start of a stored block.
  \<^item> \<open>Buffers\<close> (\<open>util/buffer.cc\<close>), \<open>Net_Parser\<close> (\<open>util/parser.cc\<close>), \<open>Internet_Checksum\<close> (\<open>util/util.cc\<close>):
    buffer lists refine strings; integers round-trip; the checksum verifies what it is written into, notices a changed byte and
    equals the sum with end-around carry.
  \<^item> \<open>TCP_Segment\<close> (\<open>tcp_helpers/tcp_header.cc\<close>, \<open>tcp_segment.cc\<close>), \<open>IPv4\<close> (\<open>ipv4_header.cc\<close>,
    \<open>ipv4_datagram.cc\<close>), \<open>Ethernet\<close> (\<open>ethernet_header.cc\<close>, \<open>ethernet_frame.cc\<close>, \<open>arp_message.cc\<close>),
    \<open>Text_Output\<close> (the text forms): parsing inverts serializing, and the result of parsing on every branch.
  \<^item> \<open>TCP_Receiver\<close> (\<open>tcp_receiver.cc\<close>): what is read is a prefix of the stream; acknowledgment and window.
  \<^item> \<open>TCP_Sender\<close>, \<open>Sender_Correct\<close>, \<open>Sender_Runs\<close> (\<open>tcp_sender.cc\<close>): operations and timer; what is outstanding is
    consecutive and counted, the window is filled and not exceeded, acknowledgments (those of numbers never sent too) and
    back-off.
  \<^item> \<open>TCP_Connection\<close>, \<open>Connection_Props\<close> (\<open>tcp_connection.cc\<close>, \<open>tcp_helpers/tcp_state.cc\<close>): handlers and states;
    handshake, reset, no revival.
  \<^item> \<open>Stream_Transfer\<close>, \<open>End_To_End\<close>: two connections and a network that loses, repeats and reorders. The invariant of one direction
    joins sender and receiver; from it follow delivery of prefixes and completeness of a clean close.
  \<^item> \<open>Address\<close> (\<open>util/address.cc\<close>), \<open>TCP_Over_IP\<close> (\<open>tcp_over_ip.cc\<close>, \<open>fd_adapter.cc\<close>, \<open>lossy_fd_adapter.hh\<close>,
    \<open>tuntap_adapter.hh\<close>): a segment written by one adapter is read by its peer.
  \<^item> \<open>File_Descriptor\<close> (\<open>util/file_descriptor.cc\<close>, \<open>socket.cc\<close>, \<open>tun.cc\<close>), \<open>Kernel_Calls\<close>, \<open>Event_Loop\<close>
    (\<open>util/eventloop.cc\<close>): the wrappers of system calls, the kernel's promises, one turn of the loop. An invariant kept by the callbacks is
    kept by a turn, also when only the rules of interest keep it; assertions about the rules left are carried along a turn.
  \<^item> \<open>Stream_Copy\<close> (\<open>apps/bidirectional_stream_copy.cc\<close>): no byte is lost or reordered on either
    path, and when the loop returns both have written all they read, unless a signal interrupts it or a descriptor hangs up.
  \<^item> \<open>Network_Interface\<close> (\<open>network_interface.cc\<close>, \<open>router.cc\<close>, \<open>tuntap_adapter.cc\<close>), \<open>Network_Simulator\<close>
    (\<open>apps/network_simulator.cc\<close>): the interface and the router have no effect in this repository, so the simulation
    throws in its first test.
  \<^item> \<open>Sponge_Socket\<close> (\<open>tcp_helpers/tcp_sponge_socket.cc\<close>): rules, loop, connecting, accepting, the thread's body. The
    connection in the socket is one that \<open>TCPConnection\<close> calls reach, fed with what the owner wrote and what was received.
  \<^item> \<open>Benchmark\<close> (\<open>apps/tcp_benchmark.cc\<close>): its checks never fail.
  \<^item> \<open>Packet_Dump\<close> (\<open>apps/udp_tcpdump.cc\<close>, \<open>apps/tun.cc\<close>, the text forms of \<open>tcp_header.cc\<close>, \<open>hexdump\<close> of
    \<open>util/util.cc\<close>): what is printed for a packet, with reads outside the captured bytes as errors. A well-formed segment is
    shown; some short packets make the program read outside.
  \<^item> \<open>Webget\<close> (\<open>apps/webget.cc\<close>): the request and what comes back; the socket is closed before it is shut down, so the call
    ends in an exception.
  \<^item> \<open>Bouncer\<close> (\<open>apps/bouncer.cc\<close>): a pair of sockets forwards every datagram to the latest source of the other.
  \<^item> \<open>Command_Line\<close> (\<open>get_config\<close> of \<open>apps/tcp_udp.cc\<close>, \<open>tcp_ipv4.cc\<close>, \<open>tcp_ip_ethernet.cc\<close>, and
    \<open>apps/tcp_native.cc\<close>): options are applied in order, numbers are read back as printed, and, through the locale of option
    loops interpreted for the three programs, no argument past the end is read.
  \<^item> \<open>Lab7\<close> (\<open>apps/lab7.cc\<close>): the socket on an interface, the router and the network thread, which never sends
    anything. What \<open>front()\<close> yields on an empty queue is an argument; the interests of the rules keep it from being sent.

  \<^bold>\<open>Bounds and fuel.\<close> Streams are shorter than \<open>2 ^ 31 - 3\<close> bytes in the theorems about whole connections: beyond that, numbers more than
  half a round apart are on the way at once. Loops that end have a measure (\<open>fill_loop\<close>, \<open>insert_linklist\<close>,
  \<open>ck_fold\<close>, \<open>fd_write_loop\<close>, \<open>route_queue\<close>, \<open>write_input\<close>). Loops that wait for the outside run over the list of what \<open>poll\<close> and the
  clock reported (\<open>copy_loop\<close>, \<open>tcp_loop\<close>, \<open>network_loop\<close>), or for a given number of rounds (\<open>bench_while\<close>, \<open>read_to_eof\<close>); the theorems hold for every such list and
  number, and the witnesses show runs that finish.

  \<^bold>\<open>Not modelled.\<close> The interleaving of the two threads of a socket below the granularity of a callback (what the owner does
  shows in the kernel's answers); console and debugging output; \<open>timestamp_ms\<close> and the random generator, whose results are arguments;
  return values of system calls beyond the range of \<open>int\<close>;
  the \<open>main\<close> functions after their arguments are parsed, which call modelled parts one after the other and print exceptions; the
  usage texts; the conversion of a loss rate through \<open>float\<close>; the packet capture library; the second thread of \<open>lab7\<close>, which is not
  interleaved with the socket's; tests and doctests.
\<close>

end
